(* ===== verification/Tunnel_Prelude.thy ===== *)
theory Tunnel_Prelude
  imports Main "HOL-Library.Word" "HOL-Library.AList" "HOL-Library.Sublist"
begin

text \<open>
  Shared vocabulary of the development: Go's bytes, strings and errors, the
  big-endian integers of \<^verbatim>\<open>encoding/binary\<close>, wrap-around of \<^verbatim>\<open>int64\<close>, a generic
  notion of reachability with its invariant rule, and the contract of a
  self-delimiting byte codec that the frame layer and the registration layer
  both implement.
\<close>

unbundle bit_operations_syntax


type_synonym byte = "8 word"
type_synonym bytes = "byte list"
type_synonym u16 = "16 word"
type_synonym u32 = "32 word"
type_synonym u64 = "64 word"


section \<open>Errors as values\<close>

text \<open>
  The sentinel errors the code compares against (\<^verbatim>\<open>io.EOF\<close>, \<^verbatim>\<open>io.ErrUnexpectedEOF\<close>,
  \<^verbatim>\<open>io.ErrClosedPipe\<close>, \<^verbatim>\<open>net.ErrClosed\<close>), an operating-system or network error with
  its text, a fresh error made by \<^verbatim>\<open>fmt.Errorf\<close> or \<^verbatim>\<open>errors.New\<close>, and an error
  wrapped by \<^verbatim>\<open>fmt.Errorf("prefix: %w", err)\<close> or by \<^verbatim>\<open>fmt.Errorf("%w suffix", err)\<close>.
\<close>

datatype error =
    EOF
  | ErrUnexpectedEOF
  | ErrClosedPipe
  | ErrNetClosed
  | SysError string
  | Errorf string
  | Wrap string error
  | WrapAfter error string

type_synonym 'a res = "error + 'a"

fun err_text :: "error \<Rightarrow> string" where
  "err_text EOF = ''EOF''"
| "err_text ErrUnexpectedEOF = ''unexpected EOF''"
| "err_text ErrClosedPipe = ''io: read/write on closed pipe''"
| "err_text ErrNetClosed = ''use of closed network connection''"
| "err_text (SysError s) = s"
| "err_text (Errorf s) = s"
| "err_text (Wrap s e) = s @ '': '' @ err_text e"
| "err_text (WrapAfter e s) = err_text e @ '' '' @ s"

text \<open>\<^verbatim>\<open>errors.Is\<close>: the error itself or anything it wraps.\<close>

fun errors_Is :: "error \<Rightarrow> error \<Rightarrow> bool" where
  "errors_Is (Wrap s e) t \<longleftrightarrow> Wrap s e = t \<or> errors_Is e t"
| "errors_Is (WrapAfter e s) t \<longleftrightarrow> WrapAfter e s = t \<or> errors_Is e t"
| "errors_Is e t \<longleftrightarrow> e = t"


section \<open>Strings and bytes\<close>

text \<open>A Go string is a sequence of bytes; so is a HOL string of 8-bit characters.\<close>

definition byte_of_char :: "char \<Rightarrow> byte" where
  "byte_of_char c = word_of_nat (of_char c)"

definition char_of_byte :: "byte \<Rightarrow> char" where
  "char_of_byte b = char_of (unat b)"

definition bytes_of_string :: "string \<Rightarrow> bytes" where
  "bytes_of_string s = map byte_of_char s"

definition string_of_bytes :: "bytes \<Rightarrow> string" where
  "string_of_bytes bs = map char_of_byte bs"

lemma of_char_less_256: "(of_char c :: nat) < 256"
  using range_nat_of_char by auto

lemma char_of_byte_of_char [simp]: "char_of_byte (byte_of_char c) = c"
  by (simp add: char_of_byte_def byte_of_char_def unat_of_nat of_char_less_256)

lemma unat_byte_less: "unat (b :: byte) < 256"
  using unsigned_less [of b] by simp

lemma byte_of_char_of_byte [simp]: "byte_of_char (char_of_byte b) = b"
  by (simp add: char_of_byte_def byte_of_char_def unat_byte_less)

lemma string_of_bytes_of_string [simp]: "string_of_bytes (bytes_of_string s) = s"
  by (simp add: string_of_bytes_def bytes_of_string_def comp_def)

lemma bytes_of_string_of_bytes [simp]: "bytes_of_string (string_of_bytes b) = b"
  by (simp add: string_of_bytes_def bytes_of_string_def comp_def)

lemma length_bytes_of_string [simp]: "length (bytes_of_string s) = length s"
  by (simp add: bytes_of_string_def)

lemma length_string_of_bytes [simp]: "length (string_of_bytes b) = length b"
  by (simp add: string_of_bytes_def)

lemma bytes_of_string_inject [simp]: "bytes_of_string s = bytes_of_string t \<longleftrightarrow> s = t"
  by (metis string_of_bytes_of_string)


section \<open>Big-endian integers (encoding/binary)\<close>

definition be_put16 :: "u16 \<Rightarrow> bytes" where
  "be_put16 v = [ucast (drop_bit 8 v), ucast v]"

definition be_put32 :: "u32 \<Rightarrow> bytes" where
  "be_put32 v = [ucast (drop_bit 24 v), ucast (drop_bit 16 v), ucast (drop_bit 8 v), ucast v]"

definition be_put64 :: "u64 \<Rightarrow> bytes" where
  "be_put64 v = [ucast (drop_bit 56 v), ucast (drop_bit 48 v), ucast (drop_bit 40 v),
     ucast (drop_bit 32 v), ucast (drop_bit 24 v), ucast (drop_bit 16 v), ucast (drop_bit 8 v), ucast v]"

text \<open>
  The readers index their argument as Go does; every call site guards the length
  first, as the source does.
\<close>

definition be_get16 :: "bytes \<Rightarrow> u16" where
  "be_get16 b = ucast (b ! 1) OR push_bit 8 (ucast (b ! 0))"

definition be_get32 :: "bytes \<Rightarrow> u32" where
  "be_get32 b = ucast (b ! 3) OR push_bit 8 (ucast (b ! 2))
     OR push_bit 16 (ucast (b ! 1)) OR push_bit 24 (ucast (b ! 0))"

lemma length_be_put [simp]:
  "length (be_put16 v) = 2" "length (be_put32 w) = 4" "length (be_put64 x) = 8"
  by (simp_all add: be_put16_def be_put32_def be_put64_def)

lemma be_get16_put16 [simp]: "be_get16 (be_put16 v) = v"
  by (rule bit_word_eqI) (auto simp: be_get16_def be_put16_def bit_simps)

lemma be_get32_put32 [simp]: "be_get32 (be_put32 v) = v"
proof (rule bit_word_eqI)
  fix n :: nat
  assume "n < LENGTH(32)"
  then consider "n < 8" | "8 \<le> n" "n < 16" | "16 \<le> n" "n < 24" | "24 \<le> n" "n < 32"
    by fastforce
  then show "bit (be_get32 (be_put32 v)) n = bit v n"
    by cases (auto simp: be_get32_def be_put32_def bit_simps)
qed

lemma be_get16_append [simp]: "be_get16 (be_put16 v @ r) = v"
  using be_get16_put16 [of v] by (simp add: be_get16_def be_put16_def nth_append)

lemma be_get32_append [simp]: "be_get32 (be_put32 v @ r) = v"
  using be_get32_put32 [of v] by (simp add: be_get32_def be_put32_def nth_append)


lemma be_put16_get16:
  assumes "length b = 2"
  shows "be_put16 (be_get16 b) = b"
proof -
  from assms obtain x y where "b = [x, y]"
    by (auto simp: length_Suc_conv numeral_2_eq_2)
  moreover have "ucast (drop_bit 8 (ucast y OR push_bit 8 (ucast x) :: u16)) = x"
    "ucast (ucast y OR push_bit 8 (ucast x) :: u16) = y"
    by (rule bit_word_eqI; auto simp: bit_simps dest: bit_imp_le_length)+
  ultimately show ?thesis by (simp add: be_put16_def be_get16_def)
qed

lemma be_put32_get32:
  assumes "length b = 4"
  shows "be_put32 (be_get32 b) = b"
proof -
  from assms obtain x y z u where b: "b = [x, y, z, u]"
    by (auto simp: length_Suc_conv eval_nat_numeral)
  let ?v = "ucast u OR push_bit 8 (ucast z) OR push_bit 16 (ucast y) OR push_bit 24 (ucast x) :: u32"
  have "ucast (drop_bit 24 ?v) = x" "ucast (drop_bit 16 ?v) = y" "ucast (drop_bit 8 ?v) = z" "ucast ?v = u"
    by (rule bit_word_eqI; auto simp: bit_simps dest: bit_imp_le_length)+
  then show ?thesis by (simp add: b be_put32_def be_get32_def)
qed

text \<open>A length that fits the field is read back unchanged.\<close>

lemma unat_word_of_length16: "n < 65536 \<Longrightarrow> unat (word_of_nat n :: u16) = n"
  by (simp add: unat_of_nat)

lemma unat_word_of_length32: "n < 4294967296 \<Longrightarrow> unat (word_of_nat n :: u32) = n"
  by (simp add: unat_of_nat)


section \<open>Signed 64-bit wrap-around\<close>

definition wrap64 :: "int \<Rightarrow> int" where
  "wrap64 x = (x + 2 ^ 63) mod 2 ^ 64 - 2 ^ 63"

lemma wrap64_id: "- (2 ^ 63) \<le> x \<Longrightarrow> x < 2 ^ 63 \<Longrightarrow> wrap64 x = x"
  unfolding wrap64_def by (subst mod_pos_pos_trivial) auto

lemma wrap64_range: "- (2 ^ 63) \<le> wrap64 x \<and> wrap64 x < 2 ^ 63"
  unfolding wrap64_def
  using pos_mod_sign [of "2 ^ 64 :: int" "x + 2 ^ 63"] pos_mod_bound [of "2 ^ 64 :: int" "x + 2 ^ 63"]
  by simp


section \<open>Lists, sums and association lists\<close>

lemma sum_list_update_int:
  fixes f :: "'a \<Rightarrow> int"
  assumes "p < length xs"
  shows "sum_list (map f (xs[p := v])) = sum_list (map f xs) - f (xs ! p) + f v"
  using assms
proof (induction xs arbitrary: p)
  case (Cons a xs)
  then show ?case by (cases p) auto
qed simp

lemma map_of_update [simp]: "map_of (AList.update k v al) = (map_of al)(k \<mapsto> v)"
  by (rule update_conv')

lemma map_of_delete [simp]: "map_of (AList.delete k al) = (map_of al)(k := None)"
  by (rule delete_conv')


section \<open>Reachable states and invariants\<close>

inductive reachable :: "('s \<Rightarrow> bool) \<Rightarrow> ('s \<Rightarrow> 's \<Rightarrow> bool) \<Rightarrow> 's \<Rightarrow> bool"
  for init :: "'s \<Rightarrow> bool" and step :: "'s \<Rightarrow> 's \<Rightarrow> bool" where
  reachable_init: "init s \<Longrightarrow> reachable init step s"
| reachable_step: "reachable init step s \<Longrightarrow> step s t \<Longrightarrow> reachable init step t"

text \<open>
  The contract of an inductive invariant. Each component with a step relation
  interprets it; what it then promises is that the invariant holds of every
  reachable state, and so does anything the invariant implies.
\<close>

locale invariant_system =
  fixes init :: "'s \<Rightarrow> bool"
    and step :: "'s \<Rightarrow> 's \<Rightarrow> bool"
    and inv :: "'s \<Rightarrow> bool"
  assumes inv_init: "init s \<Longrightarrow> inv s"
    and inv_step: "inv s \<Longrightarrow> step s t \<Longrightarrow> inv t"
begin

lemma reachable_inv: "reachable init step s \<Longrightarrow> inv s"
  by (induction rule: reachable.induct) (auto intro: inv_init inv_step)

lemma reachable_safe:
  assumes "\<And>t. inv t \<Longrightarrow> P t"
  shows "reachable init step s \<Longrightarrow> P s"
  using assms reachable_inv by blast

end


section \<open>Self-delimiting byte codecs\<close>

text \<open>
  A decoder run \<open>n\<close> times over a byte string, as the counted \<^verbatim>\<open>for range count\<close>
  loop of the registration parser does.
\<close>

fun decode_n :: "(bytes \<Rightarrow> ('a \<times> bytes) res) \<Rightarrow> nat \<Rightarrow> bytes \<Rightarrow> ('a list \<times> bytes) res" where
  "decode_n dec 0 bs = Inr ([], bs)"
| "decode_n dec (Suc n) bs =
     (case dec bs of
        Inl e \<Rightarrow> Inl e
      | Inr (x, bs') \<Rightarrow>
          (case decode_n dec n bs' of
             Inl e \<Rightarrow> Inl e
           | Inr (xs, r) \<Rightarrow> Inr (x # xs, r)))"

text \<open>
  The contract between the writer and the reader of a byte stream: on the values
  the writer can represent, the reader takes exactly one encoded value off the
  front of whatever follows.
\<close>

locale stream_codec =
  fixes enc :: "'a \<Rightarrow> bytes"
    and dec :: "bytes \<Rightarrow> ('a \<times> bytes) res"
    and ok :: "'a \<Rightarrow> bool"
  assumes dec_enc: "ok x \<Longrightarrow> dec (enc x @ rest) = Inr (x, rest)"
    and dec_nil: "\<exists>e. dec [] = Inl e"
begin

lemma enc_unique:
  assumes "ok x" and "ok y" and "enc x @ r = enc y @ s"
  shows "x = y \<and> r = s"
proof -
  have "Inr (x, r) = dec (enc x @ r)" by (rule dec_enc [OF assms(1), symmetric])
  also have "\<dots> = dec (enc y @ s)" by (simp only: assms(3))
  also have "\<dots> = Inr (y, s)" by (rule dec_enc [OF assms(2)])
  finally show ?thesis by simp
qed

lemma enc_not_nil:
  assumes "ok x"
  shows "enc x \<noteq> []"
proof
  assume "enc x = []"
  with dec_enc [OF assms, of "[]"] have "dec [] = Inr (x, [])" by simp
  with dec_nil show False by auto
qed

lemma decode_n_concat:
  assumes "list_all ok xs"
  shows "decode_n dec (length xs) (concat (map enc xs) @ rest) = Inr (xs, rest)"
  using assms by (induction xs) (auto simp: dec_enc)

lemma stream_head:
  assumes "list_all ok xs" and "dec (concat (map enc xs)) = Inr (x, r)"
  shows "\<exists>ys. xs = x # ys \<and> r = concat (map enc ys)"
proof (cases xs)
  case Nil
  with assms(2) dec_nil show ?thesis by auto
next
  case (Cons y ys)
  with assms show ?thesis by (auto simp: dec_enc)
qed

lemma stream_unique:
  assumes "list_all ok xs" and "list_all ok ys" and "concat (map enc xs) = concat (map enc ys)"
  shows "xs = ys"
  using assms
proof (induction xs arbitrary: ys)
  case Nil
  then show ?case by (cases ys) (auto dest: enc_not_nil)
next
  case (Cons x xs)
  from Cons.prems have "ok x" by simp
  with Cons.prems obtain y zs where ys: "ys = y # zs"
    by (cases ys) (auto dest: enc_not_nil)
  with Cons.prems have "x = y \<and> concat (map enc xs) = concat (map enc zs)"
    by (intro enc_unique) auto
  with Cons ys show ?case by auto
qed

end

end
