(* ===== verification/Net_Conn.thy ===== *)
theory Net_Conn
  imports Tunnel_Prelude
begin

text \<open>
  The model of a \<^verbatim>\<open>net.Conn\<close> as the code of \<^verbatim>\<open>relay/\<close> uses one: the bytes the
  peer has sent and not yet been read, the error the input ends with
  (\<^verbatim>\<open>io.EOF\<close> after an orderly close, a network error after a reset or a
  deadline), the bytes written so far, how many more bytes the transport accepts
  before a write fails (\<open>None\<close> when it never does), and whether this side has
  closed the connection. \<^verbatim>\<open>io.ReadFull\<close> and \<^verbatim>\<open>Write\<close> are the only two accesses the
  protocol code makes. Decimal printing (\<^verbatim>\<open>%d\<close>, \<^verbatim>\<open>strconv.Itoa\<close>) is here too, for
  the error texts.
\<close>

section \<open>Connections\<close>

record net_conn =
  inp :: bytes
  rend :: error
  out :: bytes
  wcap :: "nat option"
  shut :: bool

definition new_conn :: "bytes \<Rightarrow> net_conn" where
  "new_conn i = \<lparr>inp = i, rend = EOF, out = [], wcap = None, shut = False\<rparr>"

lemma new_conn_sel [simp]:
  "inp (new_conn i) = i" "rend (new_conn i) = EOF" "out (new_conn i) = []"
  "wcap (new_conn i) = None" "\<not> shut (new_conn i)" "(new_conn i)\<lparr>inp := j\<rparr> = new_conn j"
  by (simp_all add: new_conn_def)

text \<open>
  \<^verbatim>\<open>io.ReadFull\<close> of \<open>n\<close> bytes: nothing is read for \<open>n = 0\<close>; a stream that ends
  before the first byte returns the error it ends with, one that ends with
  \<^verbatim>\<open>io.EOF\<close> in the middle returns \<^verbatim>\<open>io.ErrUnexpectedEOF\<close>.
\<close>

definition ReadFull :: "net_conn \<Rightarrow> nat \<Rightarrow> bytes res \<times> net_conn" where
  "ReadFull c n =
     (if n = 0 then (Inr [], c)
      else if shut c then (Inl ErrNetClosed, c)
      else if n \<le> length (inp c) then (Inr (take n (inp c)), c\<lparr>inp := drop n (inp c)\<rparr>)
      else (Inl (if inp c \<noteq> [] \<and> rend c = EOF then ErrUnexpectedEOF else rend c),
            c\<lparr>inp := []\<rparr>))"

text \<open>\<^verbatim>\<open>conn.Write\<close>: all bytes, or a prefix of them and an error.\<close>

definition conn_Write :: "net_conn \<Rightarrow> bytes \<Rightarrow> error option \<times> net_conn" where
  "conn_Write c b =
     (if shut c then (Some ErrNetClosed, c)
      else case wcap c of
        None \<Rightarrow> (None, c\<lparr>out := out c @ b\<rparr>)
      | Some k \<Rightarrow>
          if length b \<le> k then (None, c\<lparr>out := out c @ b, wcap := Some (k - length b)\<rparr>)
          else (Some (SysError ''broken pipe''), c\<lparr>out := out c @ take k b, wcap := Some 0\<rparr>))"

definition conn_Close :: "net_conn \<Rightarrow> net_conn" where
  "conn_Close c = c\<lparr>shut := True\<rparr>"

text \<open>A connection on which writes succeed.\<close>

definition writable :: "net_conn \<Rightarrow> bool" where
  "writable c \<longleftrightarrow> \<not> shut c \<and> wcap c = None"

lemma conn_Write_writable [simp]:
  "writable c \<Longrightarrow> conn_Write c b = (None, c\<lparr>out := out c @ b\<rparr>)"
  by (simp add: conn_Write_def writable_def)

lemma writable_update [simp]:
  "writable (c\<lparr>out := x\<rparr>) = writable c" "writable (c\<lparr>inp := y\<rparr>) = writable c"
  by (simp_all add: writable_def)

lemma writable_new_conn [simp]: "writable (new_conn i)"
  by (simp add: writable_def new_conn_def)

lemma conn_Write_ok:
  "conn_Write c b = (None, c') \<Longrightarrow> out c' = out c @ b \<and> inp c' = inp c \<and> \<not> shut c'"
  by (auto simp: conn_Write_def split: if_splits option.splits)

lemma conn_Write_prefix:
  "conn_Write c b = (e, c') \<Longrightarrow> \<exists>s. out c' = out c @ s \<and> prefix s b"
  by (auto simp: conn_Write_def take_is_prefix split: if_splits option.splits)

lemma ReadFull_exact:
  assumes "\<not> shut c" and "inp c = b @ r" and "length b = n"
  shows "ReadFull c n = (Inr b, c\<lparr>inp := r\<rparr>)"
  using assms by (cases b) (auto simp: ReadFull_def)

lemma ReadFull_SomeD:
  "ReadFull c n = (Inr b, c') \<Longrightarrow> length b = n \<and> inp c = b @ inp c' \<and> shut c' = shut c \<and> rend c' = rend c"
  by (auto simp: ReadFull_def split: if_splits)

lemma ReadFull_short:
  assumes "length (inp c) < n"
  shows "\<exists>e c'. ReadFull c n = (Inl e, c')"
  using assms by (auto simp: ReadFull_def)


section \<open>Decimal numbers\<close>

fun itoa :: "nat \<Rightarrow> string" where
  "itoa n = (if n < 10 then [''0123456789'' ! n] else itoa (n div 10) @ [''0123456789'' ! (n mod 10)])"

declare itoa.simps [simp del]

lemma itoa_not_nil [simp]: "itoa n \<noteq> []"
  by (subst itoa.simps) simp

lemma itoa_small: "n < 10 \<Longrightarrow> itoa n = [''0123456789'' ! n]"
  by (subst itoa.simps) simp

lemma itoa_big: "10 \<le> n \<Longrightarrow> itoa n = itoa (n div 10) @ [''0123456789'' ! (n mod 10)]"
  by (subst itoa.simps) simp

lemma digit_in_digits: "n < 10 \<Longrightarrow> ''0123456789'' ! n \<in> set ''0123456789''"
  by (rule nth_mem) simp

lemma itoa_digits: "set (itoa n) \<subseteq> set ''0123456789''"
proof (induction n rule: itoa.induct)
  case (1 n)
  show ?case
  proof (cases "n < 10")
    case True
    then show ?thesis using digit_in_digits [of n] by (simp add: itoa_small)
  next
    case False
    with 1 have "set (itoa (n div 10)) \<subseteq> set ''0123456789''" by simp
    with False show ?thesis
      using digit_in_digits [of "n mod 10"] by (simp add: itoa_big)
  qed
qed

end
