(* ===== verification/Ctrl_Frame.thy ===== *)
theory Ctrl_Frame
  imports Net_Conn
begin

text \<open>
  \<^verbatim>\<open>relay/ctrlframe.go\<close>: the frame layer of the control connection. A frame on the
  wire is a four-byte big-endian payload length, a type byte and the payload.
  The theory shows that the reader inverts the writer on every frame the writer
  accepts, whatever follows it on the wire, and that it refuses truncated and
  oversized frames.
\<close>

section \<open>Frames\<close>

definition FramePing :: byte where "FramePing = 0x01"
definition FramePong :: byte where "FramePong = 0x02"
definition FrameNewChannel :: byte where "FrameNewChannel = 0x03"
definition FrameChannelData :: byte where "FrameChannelData = 0x04"
definition FrameChannelClose :: byte where "FrameChannelClose = 0x05"
definition FrameAuthRequest :: byte where "FrameAuthRequest = 0x06"
definition FrameAuthResponse :: byte where "FrameAuthResponse = 0x07"
definition FrameRegister :: byte where "FrameRegister = 0x08"
definition FrameWindowUpdate :: byte where "FrameWindowUpdate = 0x09"

lemmas frame_type_defs =
  FramePing_def FramePong_def FrameNewChannel_def FrameChannelData_def FrameChannelClose_def
  FrameAuthRequest_def FrameAuthResponse_def FrameRegister_def FrameWindowUpdate_def

definition maxFramePayload :: nat where
  "maxFramePayload = 2 ^ 24"

record frame =
  Typ :: byte
  Payload :: bytes

definition ReadFrame :: "net_conn \<Rightarrow> frame res \<times> net_conn" where
  "ReadFrame r =
     (case ReadFull r 5 of
        (Inl err, r1) \<Rightarrow> (Inl (Wrap ''read frame header'' err), r1)
      | (Inr header, r1) \<Rightarrow>
          (let len = be_get32 (take 4 header); typ = header ! 4 in
           if unat len > maxFramePayload
           then (Inl (Errorf (''frame payload too large: '' @ itoa (unat len))), r1)
           else if len > 0 then
             (case ReadFull r1 (unat len) of
                (Inl err, r2) \<Rightarrow> (Inl (Wrap ''read frame payload'' err), r2)
              | (Inr payload, r2) \<Rightarrow> (Inr \<lparr>Typ = typ, Payload = payload\<rparr>, r2))
           else (Inr \<lparr>Typ = typ, Payload = []\<rparr>, r1)))"

definition WriteFrame :: "net_conn \<Rightarrow> byte \<Rightarrow> bytes \<Rightarrow> error option \<times> net_conn" where
  "WriteFrame w typ payload =
     (if length payload > 2 ^ 24
      then (Some (Errorf (''frame payload too large: '' @ itoa (length payload))), w)
      else
        let header = be_put32 (word_of_nat (length payload)) @ [typ] in
        case conn_Write w header of
          (Some err, w1) \<Rightarrow> (Some (Wrap ''write frame header'' err), w1)
        | (None, w1) \<Rightarrow>
            if length payload > 0 then
              (case conn_Write w1 payload of
                 (Some err, w2) \<Rightarrow> (Some (Wrap ''write frame payload'' err), w2)
               | (None, w2) \<Rightarrow> (None, w2))
            else (None, w1))"


section \<open>The wire form of a frame\<close>

text \<open>
  What a successful \<^verbatim>\<open>WriteFrame\<close> puts on the wire, and the frame a \<^verbatim>\<open>ReadFrame\<close>
  takes off a byte string with what is left of it.
\<close>

definition enc_frame :: "frame \<Rightarrow> bytes" where
  "enc_frame f = be_put32 (word_of_nat (length (Payload f))) @ [Typ f] @ Payload f"

definition dec_frame :: "bytes \<Rightarrow> (frame \<times> bytes) res" where
  "dec_frame bs = (case ReadFrame (new_conn bs) of
     (Inl e, _) \<Rightarrow> Inl e
   | (Inr f, c) \<Rightarrow> Inr (f, inp c))"

definition frame_ok :: "frame \<Rightarrow> bool" where
  "frame_ok f \<longleftrightarrow> length (Payload f) \<le> maxFramePayload"

lemma length_enc_frame [simp]: "length (enc_frame f) = 5 + length (Payload f)"
  by (simp add: enc_frame_def)

lemma ReadFrame_enc_frame:
  assumes "frame_ok f" and "\<not> shut r" and "inp r = enc_frame f @ rest"
  shows "ReadFrame r = (Inr f, r\<lparr>inp := rest\<rparr>)"
proof -
  let ?h = "be_put32 (word_of_nat (length (Payload f))) @ [Typ f]"
  have len: "unat (word_of_nat (length (Payload f)) :: u32) = length (Payload f)"
    using assms(1) by (intro unat_word_of_length32) (simp add: frame_ok_def maxFramePayload_def)
  have hdr: "ReadFull r 5 = (Inr ?h, r\<lparr>inp := Payload f @ rest\<rparr>)"
    using assms(2,3) by (intro ReadFull_exact) (simp_all add: enc_frame_def)
  have ty: "?h ! 4 = Typ f"
    by (simp add: nth_append)
  have pay: "ReadFull (r\<lparr>inp := Payload f @ rest\<rparr>) (length (Payload f)) = (Inr (Payload f), r\<lparr>inp := rest\<rparr>)"
    using assms(2) by (subst ReadFull_exact [where b = "Payload f" and r = rest]) simp_all
  have pos: "(0 :: u32) < word_of_nat (length (Payload f)) \<longleftrightarrow> Payload f \<noteq> []"
    using len by (simp add: word_greater_zero_iff flip: unat_eq_zero)
  show ?thesis
    unfolding ReadFrame_def hdr
    using assms(1) ty by (cases "Payload f = []") (auto simp: len pos pay frame_ok_def Let_def)
qed

lemma WriteFrame_writable:
  assumes "writable w" and "length payload \<le> maxFramePayload"
  shows "WriteFrame w typ payload = (None, w\<lparr>out := out w @ enc_frame \<lparr>Typ = typ, Payload = payload\<rparr>\<rparr>)"
  using assms by (simp add: WriteFrame_def maxFramePayload_def enc_frame_def Let_def)

lemma WriteFrame_ok:
  assumes "WriteFrame w typ payload = (None, w')"
  shows "out w' = out w @ enc_frame \<lparr>Typ = typ, Payload = payload\<rparr>"
    and "length payload \<le> maxFramePayload"
  using assms
  by (auto simp: WriteFrame_def enc_frame_def maxFramePayload_def Let_def
      split: if_splits prod.splits option.splits dest!: conn_Write_ok)

text \<open>The reader is canonical: what it consumed is the encoding of what it returned.\<close>

lemma ReadFrame_consumes:
  assumes "ReadFrame r = (Inr f, r')"
  shows "inp r = enc_frame f @ inp r'" and "\<not> shut r'" and "out r' = out r" and "wcap r' = wcap r"
proof -
  have hd4: "be_put32 (be_get32 (take 4 h)) @ [h ! 4] = h" if "length h = 5" for h :: bytes
    using that be_put32_get32 [of "take 4 h"] by (simp add: take_Suc_conv_app_nth [of 4 h, symmetric])
  have wl: "word_of_nat (unat w) = w" for w :: u32 by simp
  show "inp r = enc_frame f @ inp r'"
    using assms hd4
    by (fastforce simp: ReadFrame_def Let_def enc_frame_def wl word_greater_zero_iff
        split: if_splits prod.splits sum.splits dest!: ReadFull_SomeD)
  show "\<not> shut r'" and "out r' = out r" and "wcap r' = wcap r"
    using assms
    by (auto simp: ReadFrame_def ReadFull_def Let_def split: if_splits prod.splits sum.splits)
qed

lemma ReadFrame_payload_bound:
  assumes "ReadFrame r = (Inr f, r')"
  shows "frame_ok f"
  using assms
  by (auto simp: ReadFrame_def Let_def frame_ok_def split: if_splits prod.splits sum.splits
      dest!: ReadFull_SomeD)

interpretation frame_codec: stream_codec enc_frame dec_frame frame_ok
proof unfold_locales
  fix x :: frame and rest
  assume "frame_ok x"
  then have "ReadFrame (new_conn (enc_frame x @ rest)) = (Inr x, (new_conn (enc_frame x @ rest))\<lparr>inp := rest\<rparr>)"
    by (rule ReadFrame_enc_frame) (simp_all add: new_conn_def)
  then show "dec_frame (enc_frame x @ rest) = Inr (x, rest)"
    by (simp add: dec_frame_def)
next
  show "\<exists>e. dec_frame [] = Inl e"
    by (simp add: dec_frame_def ReadFrame_def ReadFull_def new_conn_def)
qed

lemma ReadFrame_truncated:
  assumes "frame_ok f" and "\<not> shut r" and "strict_prefix (inp r) (enc_frame f)"
  shows "\<exists>e r'. ReadFrame r = (Inl e, r')"
proof (cases "length (inp r) < 5")
  case True
  then show ?thesis
    using ReadFull_short [OF True] by (auto simp: ReadFrame_def)
next
  case False
  let ?h = "be_put32 (word_of_nat (length (Payload f))) @ [Typ f]"
  have len: "unat (word_of_nat (length (Payload f)) :: u32) = length (Payload f)"
    using assms(1) by (intro unat_word_of_length32) (simp add: frame_ok_def maxFramePayload_def)
  from assms(3) obtain s where s: "enc_frame f = inp r @ s" "s \<noteq> []"
    by (auto simp: strict_prefix_def prefix_def)
  define p where "p = drop 5 (inp r)"
  have "take 5 (enc_frame f) = ?h" by (simp add: enc_frame_def)
  with s False have "take 5 (inp r) = ?h" by simp
  then have inp: "inp r = ?h @ p" unfolding p_def by (metis append_take_drop_id)
  have short: "length p < length (Payload f)"
    using arg_cong [OF s(1), of length] s(2) by (cases s) (simp_all add: inp)
  have hdr: "ReadFull r 5 = (Inr ?h, r\<lparr>inp := p\<rparr>)"
    using assms(2) inp by (intro ReadFull_exact) simp_all
  have pos: "(0 :: u32) < word_of_nat (length (Payload f))"
    using len short by (auto simp: word_greater_zero_iff simp flip: unat_eq_zero)
  have "\<exists>e r'. ReadFull (r\<lparr>inp := p\<rparr>) (length (Payload f)) = (Inl e, r')"
    using short by (intro ReadFull_short) simp
  with assms(1) pos show ?thesis
    unfolding ReadFrame_def hdr by (auto simp: len frame_ok_def Let_def)
qed


section \<open>Properties\<close>

text \<open>
  C32: a frame written by \<^verbatim>\<open>WriteFrame\<close> is read back by \<^verbatim>\<open>ReadFrame\<close> exactly, type and
  payload, whatever bytes follow it, and the reader stops right after it.
\<close>

theorem frame_roundtrip:
  assumes "WriteFrame w typ payload = (None, w')"
    and "\<not> shut r" and "inp r = drop (length (out w)) (out w') @ rest"
  shows "ReadFrame r = (Inr \<lparr>Typ = typ, Payload = payload\<rparr>, r\<lparr>inp := rest\<rparr>)"
proof -
  from WriteFrame_ok [OF assms(1)] have "frame_ok \<lparr>Typ = typ, Payload = payload\<rparr>"
    by (simp add: frame_ok_def)
  then show ?thesis
    using assms(2,3) WriteFrame_ok(1) [OF assms(1)] by (intro ReadFrame_enc_frame) simp_all
qed

theorem frame_roundtrip_witness:
  "ReadFrame (new_conn (out (snd (WriteFrame (new_conn []) FramePing [7, 8])) @ [1, 2, 3]))
     = (Inr \<lparr>Typ = FramePing, Payload = [7, 8]\<rparr>, new_conn [1, 2, 3])"
proof -
  let ?w = "new_conn []"
  have w: "WriteFrame ?w FramePing [7, 8] = (None, snd (WriteFrame ?w FramePing [7, 8]))"
    by (simp add: WriteFrame_writable maxFramePayload_def)
  show ?thesis
    using frame_roundtrip [OF w, of "new_conn (out (snd (WriteFrame ?w FramePing [7, 8])) @ [1, 2, 3])" "[1, 2, 3]"]
    by (simp add: new_conn_def)
qed

text \<open>
  C22: A stream that ends inside a frame is never mistaken for a frame: reading any
  proper prefix of an encoded frame is an error.
\<close>

theorem truncated_frame_refused:
  assumes "frame_ok f" and "\<not> shut r" and "strict_prefix (inp r) (enc_frame f)"
  shows "\<exists>e r'. ReadFrame r = (Inl e, r')"
  using assms by (rule ReadFrame_truncated)

theorem truncated_frame_refused_witness:
  "\<exists>e r'. ReadFrame (new_conn [0, 0, 0, 2, 1, 7]) = (Inl e, r')"
proof (rule truncated_frame_refused)
  show "frame_ok \<lparr>Typ = 1, Payload = [7, 8]\<rparr>" by (simp add: frame_ok_def maxFramePayload_def)
  show "\<not> shut (new_conn [0, 0, 0, 2, 1, 7])" by (simp add: new_conn_def)
  show "strict_prefix (inp (new_conn [0, 0, 0, 2, 1, 7])) (enc_frame \<lparr>Typ = 1, Payload = [7, 8]\<rparr>)"
    by (simp add: new_conn_def enc_frame_def be_put32_def)
qed

text \<open>
  No frame the reader returns and no frame the writer sends carries more than
  16 MiB; an oversized write leaves the connection untouched.
\<close>

theorem frame_size_limit:
  "(ReadFrame r = (Inr f, r') \<longrightarrow> length (Payload f) \<le> maxFramePayload) \<and>
   (length payload > maxFramePayload \<longrightarrow>
      (\<exists>e. WriteFrame w typ payload = (Some e, w)))"
  using ReadFrame_payload_bound [of r f r']
  by (auto simp: frame_ok_def WriteFrame_def maxFramePayload_def)

theorem frame_size_limit_witness:
  "length (Payload \<lparr>Typ = FramePong, Payload = [9]\<rparr>) \<le> maxFramePayload \<and>
   (\<exists>e. WriteFrame (new_conn []) FramePong (replicate (2 ^ 24 + 1) 0) = (Some e, new_conn []))"
proof -
  have big: "length (replicate (2 ^ 24 + 1) (0 :: byte)) > maxFramePayload"
    by (simp add: maxFramePayload_def)
  have "ReadFrame (new_conn [0, 0, 0, 1, 2, 9]) = (Inr \<lparr>Typ = FramePong, Payload = [9]\<rparr>, new_conn [])"
    by (simp add: ReadFrame_def ReadFull_def new_conn_def be_get32_def maxFramePayload_def FramePong_def)
  then show ?thesis
    using big frame_size_limit [of "new_conn [0, 0, 0, 1, 2, 9]" "\<lparr>Typ = FramePong, Payload = [9]\<rparr>" "new_conn []"
        "replicate (2 ^ 24 + 1) 0" "new_conn []" FramePong]
    by blast
qed

end
