(* ===== verification/Handshake.thy ===== *)
theory Handshake
  imports Ctrl_Frame
begin

text \<open>
  \<^verbatim>\<open>relay/auth.go\<close> and the registration codec of \<^verbatim>\<open>relay/ctrlconn.go\<close>: what the two
  ends of a control connection exchange before they multiplex channels over it.
  The client sends its token and reads the verdict; it then registers the tunnels
  it wants the server to open.
\<close>

section \<open>Registered tunnels (ctrlconn.go)\<close>

record RemoteTunnel =
  RemotePort :: u16
  BindAddr :: string
  TargetAddr :: string

text \<open>One turn of the loop of \<^verbatim>\<open>packTunnels\<close>, then the whole function.\<close>

definition pack_entry :: "RemoteTunnel \<Rightarrow> bytes" where
  "pack_entry t =
     (let bindBytes = bytes_of_string (BindAddr t); targetBytes = bytes_of_string (TargetAddr t) in
      be_put16 (RemotePort t)
      @ be_put16 (word_of_nat (length bindBytes)) @ bindBytes
      @ be_put16 (word_of_nat (length targetBytes)) @ targetBytes)"

definition packTunnels :: "RemoteTunnel list \<Rightarrow> bytes" where
  "packTunnels tunnels = be_put16 (word_of_nat (length tunnels)) @ concat (map pack_entry tunnels)"

text \<open>One turn of the loop of \<^verbatim>\<open>unpackTunnels\<close>, with its four length checks.\<close>

definition unpack_entry :: "bytes \<Rightarrow> (RemoteTunnel \<times> bytes) res" where
  "unpack_entry data =
     (if length data < 4 then Inl (Errorf ''short tunnel entry'') else
      let port = be_get16 (take 2 data);
          bindLen = be_get16 (take 2 (drop 2 data));
          data1 = drop 4 data in
      if length data1 < unat bindLen then Inl (Errorf ''short bind address'') else
      let bind = string_of_bytes (take (unat bindLen) data1);
          data2 = drop (unat bindLen) data1 in
      if length data2 < 2 then Inl (Errorf ''short target length'') else
      let targetLen = be_get16 (take 2 data2);
          data3 = drop 2 data2 in
      if length data3 < unat targetLen then Inl (Errorf ''short target address'') else
      let target = string_of_bytes (take (unat targetLen) data3);
          data4 = drop (unat targetLen) data3 in
      Inr (\<lparr>RemotePort = port, BindAddr = bind, TargetAddr = target\<rparr>, data4))"

definition unpackTunnels :: "bytes \<Rightarrow> RemoteTunnel list res" where
  "unpackTunnels data =
     (if length data < 2 then Inl (Errorf ''short register payload'') else
      let count = be_get16 (take 2 data) in
      case decode_n unpack_entry (unat count) (drop 2 data) of
        Inl e \<Rightarrow> Inl e
      | Inr (tunnels, _) \<Rightarrow> Inr tunnels)"

text \<open>A tunnel whose two strings fit their 16-bit length fields.\<close>

definition tunnel_ok :: "RemoteTunnel \<Rightarrow> bool" where
  "tunnel_ok t \<longleftrightarrow> length (BindAddr t) < 65536 \<and> length (TargetAddr t) < 65536"

lemma unpack_pack_entry:
  assumes "tunnel_ok t"
  shows "unpack_entry (pack_entry t @ rest) = Inr (t, rest)"
proof -
  have len: "unat (word_of_nat (length (BindAddr t)) :: u16) = length (BindAddr t)"
    "unat (word_of_nat (length (TargetAddr t)) :: u16) = length (TargetAddr t)"
    using assms by (auto simp: tunnel_ok_def intro: unat_word_of_length16)
  have drop4: "drop 4 (be_put16 a @ be_put16 b @ r) = r" for a b r
    by (simp add: be_put16_def)
  show ?thesis
    by (simp add: unpack_entry_def pack_entry_def Let_def len drop4)
qed

interpretation entry_codec: stream_codec pack_entry unpack_entry tunnel_ok
  by unfold_locales (rule unpack_pack_entry, assumption, simp add: unpack_entry_def)

lemma unpack_packTunnels:
  assumes "list_all tunnel_ok ts" and "length ts < 65536"
  shows "unpackTunnels (packTunnels ts) = Inr ts"
  using entry_codec.decode_n_concat [OF assms(1), of "[]"] unat_word_of_length16 [OF assms(2)]
  by (simp add: unpackTunnels_def packTunnels_def Let_def)

lemma decode_n_length:
  "decode_n dec n bs = Inr (xs, r) \<Longrightarrow> length xs = n"
  by (induction n arbitrary: bs xs) (auto split: sum.splits prod.splits)


section \<open>Authentication and registration (auth.go)\<close>

definition boolToByte :: "bool \<Rightarrow> byte" where
  "boolToByte b = (if b then 1 else 0)"

definition AuthClient :: "net_conn \<Rightarrow> string \<Rightarrow> error option \<times> net_conn" where
  "AuthClient conn token =
     (let tokenBytes = bytes_of_string token;
          payload = be_put16 (word_of_nat (length tokenBytes)) @ tokenBytes in
      case WriteFrame conn FrameAuthRequest payload of
        (Some err, c1) \<Rightarrow> (Some (Wrap ''auth send'' err), c1)
      | (None, c1) \<Rightarrow>
          (case ReadFrame c1 of
             (Inl err, c2) \<Rightarrow> (Some (Wrap ''auth response'' err), c2)
           | (Inr frame, c2) \<Rightarrow>
               if Typ frame \<noteq> FrameAuthResponse
               then (Some (Errorf (''unexpected frame type '' @ itoa (unat (Typ frame)) @ '' during auth'')), c2)
               else if length (Payload frame) < 1 \<or> Payload frame ! 0 = 0
               then (Some (Errorf ''auth rejected''), c2)
               else (None, c2)))"

definition AuthServer :: "net_conn \<Rightarrow> string \<Rightarrow> error option \<times> net_conn" where
  "AuthServer conn token =
     (case ReadFrame conn of
        (Inl err, c1) \<Rightarrow> (Some (Wrap ''auth request'' err), c1)
      | (Inr frame, c1) \<Rightarrow>
          if Typ frame \<noteq> FrameAuthRequest
          then (Some (Errorf (''expected auth request, got type '' @ itoa (unat (Typ frame)))), c1)
          else if length (Payload frame) < 2
          then (Some (Errorf ''short auth payload''), c1)
          else
            let tokLen = be_get16 (take 2 (Payload frame)) in
            if unat tokLen \<noteq> length (Payload frame) - 2
            then (Some (Errorf ''auth token length mismatch''), c1)
            else
              let receivedToken = string_of_bytes (drop 2 (Payload frame));
                  ok = (receivedToken = token);
                  resp = [boolToByte ok] in
              case WriteFrame c1 FrameAuthResponse resp of
                (Some err, c2) \<Rightarrow> (Some (Wrap ''auth reply'' err), c2)
              | (None, c2) \<Rightarrow>
                  if \<not> ok then (Some (Errorf ''auth failed: token mismatch''), c2)
                  else (None, c2))"

definition RegisterClient :: "net_conn \<Rightarrow> RemoteTunnel list \<Rightarrow> error option \<times> net_conn" where
  "RegisterClient conn tunnels = WriteFrame conn FrameRegister (packTunnels tunnels)"

definition RegisterServer :: "net_conn \<Rightarrow> RemoteTunnel list res \<times> net_conn" where
  "RegisterServer conn =
     (case ReadFrame conn of
        (Inl err, c1) \<Rightarrow> (Inl (Wrap ''register read'' err), c1)
      | (Inr frame, c1) \<Rightarrow>
          if Typ frame \<noteq> FrameRegister
          then (Inl (Errorf (''expected register, got type '' @ itoa (unat (Typ frame)))), c1)
          else (unpackTunnels (Payload frame), c1))"


lemma ReadFrame_written:
  assumes "length payload \<le> maxFramePayload" and "\<not> shut r"
    and "inp r = enc_frame \<lparr>Typ = ty, Payload = payload\<rparr> @ rest"
  shows "ReadFrame r = (Inr \<lparr>Typ = ty, Payload = payload\<rparr>, r\<lparr>inp := rest\<rparr>)"
  using assms by (intro ReadFrame_enc_frame) (simp_all add: frame_ok_def)

text \<open>
  The whole exchange: the server reads what the client wrote, the client reads
  what the server replied; each end reports its own verdict.
\<close>

definition auth_exchange :: "string \<Rightarrow> string \<Rightarrow> error option \<times> error option" where
  "auth_exchange clientToken serverToken =
     (let request = out (snd (AuthClient (new_conn []) clientToken));
          (serr, sconn) = AuthServer (new_conn request) serverToken;
          (cerr, cconn) = AuthClient (new_conn (out sconn)) clientToken in
      (cerr, serr))"

definition auth_payload :: "string \<Rightarrow> bytes" where
  "auth_payload token = be_put16 (word_of_nat (length token)) @ bytes_of_string token"

lemma AuthClient_request:
  assumes "length token < 65536"
  shows "out (snd (AuthClient (new_conn i) token))
     = enc_frame \<lparr>Typ = FrameAuthRequest, Payload = auth_payload token\<rparr>"
proof -
  have "\<exists>x c. ReadFrame (new_conn i\<lparr>out := o'\<rparr>) = (x, c) \<and> out c = o'" for o'
    by (auto simp: ReadFrame_def ReadFull_def new_conn_def Let_def split: if_splits)
  then obtain x c where
    "ReadFrame (new_conn i\<lparr>out := enc_frame \<lparr>Typ = FrameAuthRequest, Payload = auth_payload token\<rparr>\<rparr>) = (x, c)"
    "out c = enc_frame \<lparr>Typ = FrameAuthRequest, Payload = auth_payload token\<rparr>" by blast
  moreover have "WriteFrame (new_conn i) FrameAuthRequest (auth_payload token)
     = (None, new_conn i\<lparr>out := enc_frame \<lparr>Typ = FrameAuthRequest, Payload = auth_payload token\<rparr>\<rparr>)"
    using assms by (simp add: WriteFrame_writable maxFramePayload_def auth_payload_def)
  ultimately show ?thesis
    by (cases x) (auto simp: AuthClient_def Let_def auth_payload_def)
qed

lemma be_get16_auth_payload [simp]:
  "be_get16 (take 2 (auth_payload token)) = word_of_nat (length token)"
  "drop 2 (auth_payload token) = bytes_of_string token"
  by (simp_all add: auth_payload_def)

lemma AuthServer_request:
  assumes "length ct < 65536"
  shows "AuthServer (new_conn (enc_frame \<lparr>Typ = FrameAuthRequest, Payload = auth_payload ct\<rparr>)) st
     = (if ct = st then None else Some (Errorf ''auth failed: token mismatch''),
        new_conn []\<lparr>out := enc_frame \<lparr>Typ = FrameAuthResponse, Payload = [boolToByte (ct = st)]\<rparr>\<rparr>)"
proof -
  let ?f = "\<lparr>Typ = FrameAuthRequest, Payload = auth_payload ct\<rparr>"
  have rd: "ReadFrame (new_conn (enc_frame ?f)) = (Inr ?f, new_conn [])"
    using assms
    by (subst ReadFrame_written [where rest = "[]"])
       (simp_all add: new_conn_def auth_payload_def maxFramePayload_def)
  have wr: "WriteFrame (new_conn []) FrameAuthResponse [b]
      = (None, new_conn []\<lparr>out := enc_frame \<lparr>Typ = FrameAuthResponse, Payload = [b]\<rparr>\<rparr>)" for b
    by (subst WriteFrame_writable) (simp_all add: maxFramePayload_def)
  have len: "unat (word_of_nat (length ct) :: u16) = length ct"
    using assms by (rule unat_word_of_length16)
  have plen: "length (auth_payload ct) = 2 + length ct" by (simp add: auth_payload_def)
  show ?thesis
    unfolding AuthServer_def rd by (simp add: Let_def wr len plen)
qed

lemma AuthClient_response:
  assumes "length ct < 65536"
  shows "fst (AuthClient (new_conn (enc_frame \<lparr>Typ = FrameAuthResponse, Payload = [boolToByte ok]\<rparr>)) ct)
     = (if ok then None else Some (Errorf ''auth rejected''))"
proof -
  let ?r = "\<lparr>Typ = FrameAuthResponse, Payload = [boolToByte ok]\<rparr>"
  let ?c = "new_conn (enc_frame ?r)\<lparr>out := enc_frame \<lparr>Typ = FrameAuthRequest, Payload = auth_payload ct\<rparr>\<rparr>"
  have wr: "WriteFrame (new_conn (enc_frame ?r)) FrameAuthRequest (auth_payload ct) = (None, ?c)"
    using assms by (subst WriteFrame_writable) (simp_all add: auth_payload_def maxFramePayload_def)
  have rd: "ReadFrame ?c = (Inr ?r, ?c\<lparr>inp := []\<rparr>)"
    by (rule ReadFrame_written [where rest = "[]"]) (simp_all add: new_conn_def maxFramePayload_def)
  have "be_put16 (word_of_nat (length (bytes_of_string ct))) @ bytes_of_string ct = auth_payload ct"
    by (simp add: auth_payload_def)
  then show ?thesis
    by (simp add: AuthClient_def Let_def wr rd) (simp add: boolToByte_def)
qed


section \<open>Properties\<close>

text \<open>
  C33: the two ends agree on the outcome of authentication. With equal tokens both
  report success; with different tokens the client is told \<^verbatim>\<open>auth rejected\<close> and the
  server reports the mismatch. Tokens are those the 16-bit length field can
  describe.
\<close>

theorem auth_agreement:
  assumes "length clientToken < 65536"
  shows "auth_exchange clientToken serverToken =
     (if clientToken = serverToken then (None, None)
      else (Some (Errorf ''auth rejected''), Some (Errorf ''auth failed: token mismatch'')))"
proof -
  have "fst (AuthClient (new_conn (enc_frame
      \<lparr>Typ = FrameAuthResponse, Payload = [boolToByte (clientToken = serverToken)]\<rparr>)) clientToken)
     = (if clientToken = serverToken then None else Some (Errorf ''auth rejected''))"
    by (rule AuthClient_response [OF assms])
  then show ?thesis
    using assms
    by (auto simp: auth_exchange_def AuthClient_request AuthServer_request Let_def split: prod.splits)
qed

theorem auth_agreement_witness:
  "auth_exchange ''secret'' ''secret'' = (None, None)
   \<and> fst (auth_exchange ''guess'' ''secret'') = Some (Errorf ''auth rejected'')"
  using auth_agreement [of "''secret''" "''secret''"] auth_agreement [of "''guess''" "''secret''"]
  by simp

text \<open>
  The server lets a connection through only if the peer, whatever program it is,
  sent an authentication frame whose token is the configured one.
\<close>

lemma AuthServer_sound:
  assumes "AuthServer conn token = (None, conn')"
  shows "\<exists>rest. inp conn = enc_frame \<lparr>Typ = FrameAuthRequest, Payload = auth_payload token\<rparr> @ rest"
proof -
  from assms obtain f c1 where rd: "ReadFrame conn = (Inr f, c1)" and ty: "Typ f = FrameAuthRequest"
    and len: "\<not> length (Payload f) < 2"
    and n: "unat (be_get16 (take 2 (Payload f))) = length (Payload f) - 2"
    and tok: "string_of_bytes (drop 2 (Payload f)) = token"
    by (auto simp: AuthServer_def Let_def split: sum.splits prod.splits if_splits option.splits)
  have "word_of_nat (length token) = be_get16 (take 2 (Payload f))"
  proof -
    have "length token = unat (be_get16 (take 2 (Payload f)))" using tok n by auto
    then show ?thesis by simp
  qed
  then have "auth_payload token = take 2 (Payload f) @ drop 2 (Payload f)"
    using len tok be_put16_get16 [of "take 2 (Payload f)"] by (auto simp: auth_payload_def)
  then have "f = \<lparr>Typ = FrameAuthRequest, Payload = auth_payload token\<rparr>"
    using ty by simp
  with ReadFrame_consumes(1) [OF rd] show ?thesis by auto
qed

text \<open>
  Registration is lossless. The server recovers from a \<^verbatim>\<open>Register\<close> frame exactly
  the tunnels the client registered, in order, for any list of fewer than 65536
  tunnels with addresses shorter than 64 KiB that fits one frame.
\<close>

theorem register_roundtrip:
  assumes "list_all tunnel_ok tunnels" and "length tunnels < 65536"
    and "RegisterClient cl tunnels = (None, cl')"
    and "\<not> shut sv" and "inp sv = drop (length (out cl)) (out cl') @ rest"
  shows "RegisterServer sv = (Inr tunnels, sv\<lparr>inp := rest\<rparr>)"
proof -
  from assms(3) have w: "WriteFrame cl FrameRegister (packTunnels tunnels) = (None, cl')"
    by (simp add: RegisterClient_def)
  have "ReadFrame sv = (Inr \<lparr>Typ = FrameRegister, Payload = packTunnels tunnels\<rparr>, sv\<lparr>inp := rest\<rparr>)"
    using assms(4,5) WriteFrame_ok [OF w] by (intro ReadFrame_written) simp_all
  then show ?thesis
    using unpack_packTunnels [OF assms(1,2)] by (simp add: RegisterServer_def)
qed

theorem register_roundtrip_witness:
  "RegisterServer (new_conn (out (snd (RegisterClient (new_conn [])
      [\<lparr>RemotePort = 9090, BindAddr = ''0.0.0.0'', TargetAddr = ''localhost:8080''\<rparr>]))))
   = (Inr [\<lparr>RemotePort = 9090, BindAddr = ''0.0.0.0'', TargetAddr = ''localhost:8080''\<rparr>], new_conn [])"
proof -
  let ?ts = "[\<lparr>RemotePort = 9090, BindAddr = ''0.0.0.0'', TargetAddr = ''localhost:8080''\<rparr>]"
  have ok: "list_all tunnel_ok ?ts" "length ?ts < 65536" by (simp_all add: tunnel_ok_def)
  have w: "RegisterClient (new_conn []) ?ts = (None, snd (RegisterClient (new_conn []) ?ts))"
    by (simp add: RegisterClient_def WriteFrame_writable maxFramePayload_def packTunnels_def pack_entry_def)
  show ?thesis
    using register_roundtrip [OF ok w, of "new_conn (out (snd (RegisterClient (new_conn []) ?ts)))" "[]"]
    by (simp add: new_conn_def)
qed

end
