(* ===== verification/Mux_Channel.thy ===== *)
theory Mux_Channel
  imports Handshake
begin

text \<open>
  \<^verbatim>\<open>relay/stream.go\<close>: the channels multiplexed over a control connection, with the
  state of \<^verbatim>\<open>CtrlConn\<close> (\<^verbatim>\<open>relay/ctrlconn.go\<close>) they live in. Channel objects are kept
  in a store and named by their index, because a channel that has been dropped
  from the multiplexer's map is still held by the goroutines that read and write
  it. A call that waits on a condition variable is the value \<open>Blocked\<close>; it is
  evaluated again from the same point when the state has changed.
\<close>

section \<open>State\<close>

datatype channelStatus = chOpen | chWriteClosed | chClosed

text \<open>The order of the \<^verbatim>\<open>iota\<close> constants, which the code compares with \<^verbatim>\<open>>=\<close>.\<close>

fun status_rank :: "channelStatus \<Rightarrow> nat" where
  "status_rank chOpen = 0"
| "status_rank chWriteClosed = 1"
| "status_rank chClosed = 2"

instantiation channelStatus :: linorder
begin

definition less_eq_channelStatus :: "channelStatus \<Rightarrow> channelStatus \<Rightarrow> bool" where
  "less_eq_channelStatus a b \<longleftrightarrow> status_rank a \<le> status_rank b"

definition less_channelStatus :: "channelStatus \<Rightarrow> channelStatus \<Rightarrow> bool" where
  "less_channelStatus a b \<longleftrightarrow> status_rank a < status_rank b"

instance
proof
  fix x y z :: channelStatus
  show "x < y \<longleftrightarrow> x \<le> y \<and> \<not> y \<le> x"
    by (auto simp: less_eq_channelStatus_def less_channelStatus_def)
  show "x \<le> x" by (simp add: less_eq_channelStatus_def)
  show "x \<le> y \<Longrightarrow> y \<le> z \<Longrightarrow> x \<le> z" by (simp add: less_eq_channelStatus_def)
  show "x \<le> y \<Longrightarrow> y \<le> x \<Longrightarrow> x = y"
    by (cases x; cases y) (auto simp: less_eq_channelStatus_def)
  show "x \<le> y \<or> y \<le> x" by (auto simp: less_eq_channelStatus_def)
qed

end

lemma chWriteClosed_le [simp]: "chWriteClosed \<le> s \<longleftrightarrow> s \<noteq> chOpen"
  by (cases s) (simp_all add: less_eq_channelStatus_def)

lemma chClosed_le [simp]: "chClosed \<le> s \<longleftrightarrow> s = chClosed"
  by (cases s) (simp_all add: less_eq_channelStatus_def)

definition defaultSendWindow :: int where "defaultSendWindow = 64 * 1024"
definition maxReceiveBuffer :: nat where "maxReceiveBuffer = 256 * 1024"

record channel =
  ch_id :: u32
  ch_target :: string
  rb :: bytes
  status :: channelStatus
  rerr :: "error option"
  sendWindow :: int

text \<open>
  The fields of \<^verbatim>\<open>CtrlConn\<close>: \<open>objs\<close> is the store of channel objects, \<open>channels\<close> the
  map from channel ids to them, \<open>newCh\<close> the buffered Go channel of accepted
  channels, \<open>parked\<close> the channel the read loop is blocked sending to it, \<open>isDone\<close>
  whether \<^verbatim>\<open>done\<close> is closed, and \<open>spawned\<close> the \<^verbatim>\<open>go ch.Close()\<close> goroutines that
  have been started and have not run yet.
\<close>

record ctrl_conn =
  conn :: net_conn
  objs :: "channel list"
  channels :: "(u32 \<times> nat) list"
  nextID :: u32
  newCh :: "nat list"
  parked :: "nat option"
  readErr :: "error option"
  isDone :: bool
  lastActivity :: int
  spawned :: "nat list"

datatype 'a blocking = Blocked | Returned 'a

definition newChannel :: "u32 \<Rightarrow> string \<Rightarrow> channel" where
  "newChannel i target =
     \<lparr>ch_id = i, ch_target = target, rb = [], status = chOpen, rerr = None, sendWindow = defaultSendWindow\<rparr>"

definition upd_ch :: "nat \<Rightarrow> (channel \<Rightarrow> channel) \<Rightarrow> ctrl_conn \<Rightarrow> ctrl_conn" where
  "upd_ch p f cc = cc\<lparr>objs := (objs cc)[p := f (objs cc ! p)]\<rparr>"

text \<open>\<^verbatim>\<open>sendFrame\<close> and \<^verbatim>\<open>removeChannel\<close> of \<^verbatim>\<open>CtrlConn\<close>, which the channel methods call.\<close>

definition sendFrame :: "ctrl_conn \<Rightarrow> byte \<Rightarrow> bytes \<Rightarrow> error option \<times> ctrl_conn" where
  "sendFrame cc ty payload = (case WriteFrame (conn cc) ty payload of (err, c) \<Rightarrow> (err, cc\<lparr>conn := c\<rparr>))"

definition removeChannel :: "ctrl_conn \<Rightarrow> u32 \<Rightarrow> ctrl_conn" where
  "removeChannel cc i = cc\<lparr>channels := AList.delete i (channels cc)\<rparr>"


section \<open>Channel operations\<close>

definition sendWindowUpdate :: "ctrl_conn \<Rightarrow> nat \<Rightarrow> nat \<Rightarrow> ctrl_conn" where
  "sendWindowUpdate cc p delta =
     snd (sendFrame cc FrameWindowUpdate (be_put32 (ch_id (objs cc ! p)) @ be_put32 (word_of_nat delta)))"

text \<open>\<^verbatim>\<open>Read\<close> into a buffer of \<open>n\<close> bytes.\<close>

definition channel_Read :: "ctrl_conn \<Rightarrow> nat \<Rightarrow> nat \<Rightarrow> (bytes \<times> error option) blocking \<times> ctrl_conn" where
  "channel_Read cc p n =
     (let ch = objs cc ! p in
      if rb ch = [] then
        (case rerr ch of
           Some e \<Rightarrow> (Returned ([], Some e), cc)
         | None \<Rightarrow> if status ch \<ge> chClosed then (Returned ([], Some EOF), cc) else (Blocked, cc))
      else
        let b = take n (rb ch);
            cc1 = upd_ch p (\<lambda>ch. ch\<lparr>rb := drop n (rb ch)\<rparr>) cc;
            cc2 = (if length b > 0 then sendWindowUpdate cc1 p (length b) else cc1)
        in (Returned (b, None), cc2))"

text \<open>
  One turn of the loop of \<^verbatim>\<open>Write\<close> on a non-empty rest \<open>b\<close>: wait for credit, give up
  on a closed channel, or take credit for a chunk and send it.
\<close>

datatype turn = TBlocked | TClosed | TFailed error | TSent nat

definition write_turn :: "ctrl_conn \<Rightarrow> nat \<Rightarrow> bytes \<Rightarrow> turn \<times> ctrl_conn" where
  "write_turn cc p b =
     (let ch = objs cc ! p in
      if sendWindow ch \<le> 0 then
        (if status ch \<ge> chWriteClosed then (TClosed, cc) else (TBlocked, cc))
      else
        let chunk = (if int (length b) > sendWindow ch then take (nat (sendWindow ch)) b else b);
            cc1 = upd_ch p (\<lambda>ch. ch\<lparr>sendWindow := sendWindow ch - int (length chunk)\<rparr>) cc in
        case sendFrame cc1 FrameChannelData (be_put32 (ch_id ch) @ chunk) of
          (Some err, cc2) \<Rightarrow> (TFailed err, cc2)
        | (None, cc2) \<Rightarrow> (TSent (length chunk), cc2))"

lemma write_turn_progress:
  "write_turn cc p b = (TSent n, cc') \<Longrightarrow> b \<noteq> [] \<Longrightarrow> 0 < n"
  by (auto simp: write_turn_def Let_def split: if_splits prod.splits option.splits)

lemma write_turn_le: "write_turn cc p b = (TSent n, cc') \<Longrightarrow> n \<le> length b"
  by (auto simp: write_turn_def Let_def split: if_splits prod.splits option.splits)

datatype write_result = WriteBlocked bytes nat | WriteReturned nat "error option"

function write_loop :: "ctrl_conn \<Rightarrow> nat \<Rightarrow> bytes \<Rightarrow> nat \<Rightarrow> write_result \<times> ctrl_conn" where
  "write_loop cc p b sent =
     (if b = [] then (WriteReturned sent None, cc)
      else case write_turn cc p b of
        (TBlocked, cc') \<Rightarrow> (WriteBlocked b sent, cc')
      | (TClosed, cc') \<Rightarrow> (WriteReturned sent (Some ErrClosedPipe), cc')
      | (TFailed err, cc') \<Rightarrow> (WriteReturned sent (Some err), cc')
      | (TSent n, cc') \<Rightarrow> write_loop cc' p (drop n b) (sent + n))"
  by pat_completeness auto
termination
  by (relation "measure (\<lambda>(cc, p, b, sent). length b)")
     (auto dest!: write_turn_progress [OF sym])

declare write_loop.simps [simp del]

definition channel_Write :: "ctrl_conn \<Rightarrow> nat \<Rightarrow> bytes \<Rightarrow> write_result \<times> ctrl_conn" where
  "channel_Write cc p b =
     (if status (objs cc ! p) \<ge> chWriteClosed then (WriteReturned 0 (Some ErrClosedPipe), cc)
      else write_loop cc p b 0)"

definition channel_CloseWrite :: "ctrl_conn \<Rightarrow> nat \<Rightarrow> error option \<times> ctrl_conn" where
  "channel_CloseWrite cc p =
     (let ch = objs cc ! p in
      if status ch \<ge> chWriteClosed then (None, cc)
      else
        let cc1 = upd_ch p (\<lambda>ch. ch\<lparr>status := chWriteClosed\<rparr>) cc in
        sendFrame cc1 FrameChannelClose (be_put32 (ch_id ch)))"

definition channel_Close :: "ctrl_conn \<Rightarrow> nat \<Rightarrow> error option \<times> ctrl_conn" where
  "channel_Close cc p =
     (let ch = objs cc ! p in
      if status ch = chClosed then (None, cc)
      else
        let cc1 = upd_ch p (\<lambda>ch. ch\<lparr>status := chClosed\<rparr>) cc;
            cc2 = removeChannel cc1 (ch_id ch) in
        sendFrame cc2 FrameChannelClose (be_put32 (ch_id ch)))"

definition pushData :: "ctrl_conn \<Rightarrow> nat \<Rightarrow> bytes \<Rightarrow> ctrl_conn" where
  "pushData cc p data =
     (if length (rb (objs cc ! p)) + length data > maxReceiveBuffer then
        (upd_ch p (\<lambda>ch. ch\<lparr>rerr := Some (Errorf ''receive buffer overflow'')\<rparr>) cc)
          \<lparr>spawned := spawned cc @ [p]\<rparr>
      else upd_ch p (\<lambda>ch. ch\<lparr>rb := rb ch @ data\<rparr>) cc)"

definition setError :: "ctrl_conn \<Rightarrow> nat \<Rightarrow> error \<Rightarrow> ctrl_conn" where
  "setError cc p err = upd_ch p (\<lambda>ch. ch\<lparr>rerr := Some err\<rparr>) cc"

definition addSendWindow :: "ctrl_conn \<Rightarrow> nat \<Rightarrow> int \<Rightarrow> ctrl_conn" where
  "addSendWindow cc p delta = upd_ch p (\<lambda>ch. ch\<lparr>sendWindow := wrap64 (sendWindow ch + delta)\<rparr>) cc"

section \<open>The store of channel objects seen by id\<close>

text \<open>
  On a connection whose channel ids are never reused, an id names one object. The
  view of the store by id carries the proofs: updating an object updates the view
  at its id, allocating one extends it.
\<close>

definition view :: "ctrl_conn \<Rightarrow> u32 \<rightharpoonup> channel" where
  "view cc = map_of (map (\<lambda>ch. (ch_id ch, ch)) (objs cc))"

definition uniq :: "ctrl_conn \<Rightarrow> bool" where
  "uniq cc \<longleftrightarrow> distinct (map ch_id (objs cc))"

definition cc_wf :: "ctrl_conn \<Rightarrow> bool" where
  "cc_wf cc \<longleftrightarrow> uniq cc \<and>
     (\<forall>i p. map_of (channels cc) i = Some p \<longrightarrow> p < length (objs cc) \<and> ch_id (objs cc ! p) = i)"

lemma view_None: "view cc i = None \<longleftrightarrow> i \<notin> ch_id ` set (objs cc)"
  by (simp add: view_def map_of_eq_None_iff image_image)

lemma view_nth:
  assumes "uniq cc" and "p < length (objs cc)"
  shows "view cc (ch_id (objs cc ! p)) = Some (objs cc ! p)"
  using assms by (auto simp: view_def uniq_def comp_def intro!: map_of_is_SomeI)

lemma view_SomeD:
  assumes "view cc i = Some ch"
  shows "ch_id ch = i"
  using assms by (auto simp: view_def dest!: map_of_SomeD)

lemma view_cong: "objs cc' = objs cc \<Longrightarrow> view cc' = view cc"
  by (simp add: view_def)

lemma uniq_cong: "objs cc' = objs cc \<Longrightarrow> uniq cc' = uniq cc"
  by (simp add: uniq_def)

lemma ids_upd_ch:
  assumes "\<And>ch. ch_id (f ch) = ch_id ch"
  shows "map ch_id (objs (upd_ch p f cc)) = map ch_id (objs cc)"
  using assms by (cases "p < length (objs cc)") (auto simp: upd_ch_def map_update list_update_beyond
      intro!: nth_equalityI simp: nth_list_update)

lemma uniq_upd_ch:
  assumes "\<And>ch. ch_id (f ch) = ch_id ch"
  shows "uniq (upd_ch p f cc) = uniq cc"
  using ids_upd_ch [OF assms, of p cc] by (simp add: uniq_def)

lemma view_upd_ch:
  assumes "uniq cc" and "p < length (objs cc)" and f: "\<And>ch. ch_id (f ch) = ch_id ch"
  shows "view (upd_ch p f cc) = (view cc)(ch_id (objs cc ! p) \<mapsto> f (objs cc ! p))"
proof
  fix i
  let ?cc = "upd_ch p f cc"
  have u: "uniq ?cc" using assms by (simp add: uniq_upd_ch)
  have len: "length (objs ?cc) = length (objs cc)" by (simp add: upd_ch_def)
  show "view ?cc i = ((view cc)(ch_id (objs cc ! p) \<mapsto> f (objs cc ! p))) i"
  proof (cases "i \<in> ch_id ` set (objs cc)")
    case True
    then obtain q where q: "q < length (objs cc)" "ch_id (objs cc ! q) = i"
      by (auto simp: in_set_conv_nth)
    have "ch_id (objs ?cc ! q) = i"
      using q f assms(2) by (simp add: upd_ch_def nth_list_update)
    then have "view ?cc i = Some (objs ?cc ! q)"
      using view_nth [OF u, of q] q len by simp
    moreover have "q = p" if "i = ch_id (objs cc ! p)"
      using that q assms by (auto simp: uniq_def distinct_conv_nth)
    moreover have "q \<noteq> p" if "i \<noteq> ch_id (objs cc ! p)"
      using that q by auto
    ultimately show ?thesis
      using q assms(2) view_nth [OF assms(1) q(1)]
      by (cases "i = ch_id (objs cc ! p)") (auto simp: upd_ch_def)
  next
    case False
    have "ch_id ` set (objs ?cc) = set (map ch_id (objs ?cc))" by (simp only: set_map)
    also have "\<dots> = ch_id ` set (objs cc)" by (simp only: ids_upd_ch [OF f] set_map)
    finally have "view ?cc i = None" "view cc i = None" using False by (simp_all add: view_None)
    moreover have "i \<noteq> ch_id (objs cc ! p)" using False assms(2) by auto
    ultimately show ?thesis by simp
  qed
qed

lemma cc_wf_upd_ch:
  assumes "cc_wf cc" and "\<And>ch. ch_id (f ch) = ch_id ch"
  shows "cc_wf (upd_ch p f cc)"
  using assms uniq_upd_ch [OF assms(2), of p cc]
  unfolding cc_wf_def
  by (cases "p < length (objs cc)") (auto simp: upd_ch_def nth_list_update list_update_beyond)

lemma view_alloc:
  assumes "objs cc' = objs cc @ [ch]" and "view cc (ch_id ch) = None"
  shows "view cc' = (view cc)(ch_id ch \<mapsto> ch)"
  using assms by (auto simp: view_def map_add_def fun_eq_iff split: option.splits)

lemma uniq_alloc:
  assumes "objs cc' = objs cc @ [ch]" and "view cc (ch_id ch) = None"
  shows "uniq cc' = uniq cc"
  using assms by (auto simp: uniq_def view_None)

lemma upd_ch_other [simp]:
  "conn (upd_ch p f cc) = conn cc" "channels (upd_ch p f cc) = channels cc"
  "nextID (upd_ch p f cc) = nextID cc" "newCh (upd_ch p f cc) = newCh cc"
  "parked (upd_ch p f cc) = parked cc" "readErr (upd_ch p f cc) = readErr cc"
  "isDone (upd_ch p f cc) = isDone cc" "spawned (upd_ch p f cc) = spawned cc"
  "lastActivity (upd_ch p f cc) = lastActivity cc"
  "length (objs (upd_ch p f cc)) = length (objs cc)"
  by (simp_all add: upd_ch_def)

lemma upd_ch_nth [simp]:
  "p < length (objs cc) \<Longrightarrow>
     objs (upd_ch p f cc) ! q = (if q = p then f (objs cc ! p) else objs cc ! q)"
  by (simp add: upd_ch_def nth_list_update)

lemma sendFrame_writable:
  assumes "writable (conn cc)" and "length payload \<le> maxFramePayload"
  shows "sendFrame cc ty payload =
     (None, cc\<lparr>conn := (conn cc)\<lparr>out := out (conn cc) @ enc_frame \<lparr>Typ = ty, Payload = payload\<rparr>\<rparr>\<rparr>)"
  using assms by (simp add: sendFrame_def WriteFrame_writable)

end
