(* ===== verification/Ctrl_Conn.thy ===== *)
theory Ctrl_Conn
  imports Mux_Channel
begin

text \<open>
  \<^verbatim>\<open>relay/ctrlconn.go\<close>: the multiplexer. Its read loop takes frames off the
  connection and dispatches them to the channels; \<^verbatim>\<open>OpenChannel\<close> and
  \<^verbatim>\<open>AcceptChannel\<close> are the two ends of channel creation; \<^verbatim>\<open>closeAll\<close>, \<^verbatim>\<open>Close\<close> and
  \<^verbatim>\<open>KeepAlive\<close> end the connection. A Go run-time panic is a value of the model.
\<close>

section \<open>Frame dispatch\<close>

definition NewCtrlConn :: "net_conn \<Rightarrow> int \<Rightarrow> ctrl_conn" where
  "NewCtrlConn c now =
     \<lparr>conn = c, objs = [], channels = [], nextID = 1, newCh = [], parked = None, readErr = None,
      isDone = False, lastActivity = now, spawned = []\<rparr>"

definition newCh_cap :: nat where "newCh_cap = 64"

datatype new_channel = NoChannel | NewChannel nat ctrl_conn | PanicSlice

text \<open>
  The upper bound of the slice expression \<^verbatim>\<open>payload[6 : 6+targetLen]\<close> is computed in
  \<^verbatim>\<open>uint16\<close>, because \<^verbatim>\<open>targetLen\<close> is one; a bound below the lower bound is a
  run-time panic.
\<close>

definition handleNewChannel :: "ctrl_conn \<Rightarrow> bytes \<Rightarrow> new_channel" where
  "handleNewChannel cc payload =
     (if length payload < 6 then NoChannel
      else
        let chID = be_get32 (take 4 payload);
            targetLen = be_get16 (take 2 (drop 4 payload)) in
        if length payload < 6 + unat targetLen then NoChannel
        else
          let hi = unat (6 + targetLen) in
          if hi < 6 then PanicSlice
          else
            let target = string_of_bytes (take (hi - 6) (drop 6 payload));
                p = length (objs cc) in
            NewChannel p (cc\<lparr>objs := objs cc @ [newChannel chID target],
                             channels := AList.update chID p (channels cc)\<rparr>))"

definition handleChannelData :: "ctrl_conn \<Rightarrow> bytes \<Rightarrow> ctrl_conn" where
  "handleChannelData cc payload =
     (if length payload < 4 then cc
      else case map_of (channels cc) (be_get32 (take 4 payload)) of
        None \<Rightarrow> cc
      | Some p \<Rightarrow> pushData cc p (drop 4 payload))"

definition handleChannelClose :: "ctrl_conn \<Rightarrow> bytes \<Rightarrow> ctrl_conn" where
  "handleChannelClose cc payload =
     (if length payload < 4 then cc
      else case map_of (channels cc) (be_get32 (take 4 payload)) of
        None \<Rightarrow> cc
      | Some p \<Rightarrow> setError cc p EOF)"

definition handleWindowUpdate :: "ctrl_conn \<Rightarrow> bytes \<Rightarrow> ctrl_conn" where
  "handleWindowUpdate cc payload =
     (if length payload < 8 then cc
      else
        let delta = be_get32 (take 4 (drop 4 payload)) in
        case map_of (channels cc) (be_get32 (take 4 payload)) of
          None \<Rightarrow> cc
        | Some p \<Rightarrow> addSendWindow cc p (int (unat delta)))"

definition handlePing :: "ctrl_conn \<Rightarrow> bytes \<Rightarrow> ctrl_conn" where
  "handlePing cc payload = cc\<lparr>conn := snd (WriteFrame (conn cc) FramePong payload)\<rparr>"

text \<open>
  \<^verbatim>\<open>handleFrame\<close>: \<open>None\<close> is the panic. The send \<^verbatim>\<open>cc.newCh <- ch\<close> blocks when the
  buffer of 64 is full: the read loop is then parked on that channel.
\<close>

definition handleFrame :: "ctrl_conn \<Rightarrow> frame \<Rightarrow> ctrl_conn option" where
  "handleFrame cc f =
     (if Typ f = FrameNewChannel then
        (case handleNewChannel cc (Payload f) of
           NoChannel \<Rightarrow> Some cc
         | PanicSlice \<Rightarrow> None
         | NewChannel p cc' \<Rightarrow>
             if length (newCh cc') < newCh_cap then Some (cc'\<lparr>newCh := newCh cc' @ [p]\<rparr>)
             else Some (cc'\<lparr>parked := Some p\<rparr>))
      else if Typ f = FrameChannelData then Some (handleChannelData cc (Payload f))
      else if Typ f = FrameChannelClose then Some (handleChannelClose cc (Payload f))
      else if Typ f = FrameWindowUpdate then Some (handleWindowUpdate cc (Payload f))
      else if Typ f = FramePing then Some (handlePing cc (Payload f))
      else Some cc)"


section \<open>Closing\<close>

text \<open>
  \<^verbatim>\<open>closeAll\<close> visits every entry of the map, deletes it and gives its channel the
  error \<^verbatim>\<open>io.EOF\<close>.
\<close>

fun closeAll_loop :: "(u32 \<times> nat) list \<Rightarrow> ctrl_conn \<Rightarrow> ctrl_conn" where
  "closeAll_loop [] cc = cc"
| "closeAll_loop ((i, p) # rest) cc = closeAll_loop rest (setError (removeChannel cc i) p EOF)"

definition closeAll :: "ctrl_conn \<Rightarrow> ctrl_conn" where
  "closeAll cc = closeAll_loop (channels cc) cc"

definition ctrl_Close :: "ctrl_conn \<Rightarrow> ctrl_conn" where
  "ctrl_Close cc = (let cc1 = closeAll cc in cc1\<lparr>conn := conn_Close (conn cc1)\<rparr>)"

text \<open>
  One turn of \<^verbatim>\<open>readLoop\<close> at time \<open>now\<close>. A turn is taken when the read loop is
  running, that is neither parked nor returned; \<open>None\<close> is the panic.
\<close>

definition readLoop_turn :: "ctrl_conn \<Rightarrow> int \<Rightarrow> ctrl_conn option" where
  "readLoop_turn cc now =
     (case ReadFrame (conn cc) of
        (Inl err, c) \<Rightarrow>
          (let cc1 = cc\<lparr>conn := c\<rparr>;
               cc2 = (if err \<noteq> EOF then cc1\<lparr>readErr := Some (Wrap ''ctrl read'' err)\<rparr> else cc1) in
           Some ((closeAll cc2)\<lparr>isDone := True\<rparr>))
      | (Inr f, c) \<Rightarrow> handleFrame (cc\<lparr>conn := c, lastActivity := now\<rparr>) f)"


section \<open>Opening and accepting channels, keep-alive\<close>

definition OpenChannel :: "ctrl_conn \<Rightarrow> string \<Rightarrow> nat res \<times> ctrl_conn" where
  "OpenChannel cc target =
     (let chID = nextID cc;
          p = length (objs cc);
          cc1 = cc\<lparr>nextID := nextID cc + 1, objs := objs cc @ [newChannel chID target],
                   channels := AList.update chID p (channels cc)\<rparr>;
          targetBytes = bytes_of_string target;
          payload = be_put32 chID @ be_put16 (word_of_nat (length targetBytes)) @ targetBytes in
      case sendFrame cc1 FrameNewChannel payload of
        (Some err, cc2) \<Rightarrow> (Inl err, cc2\<lparr>channels := AList.delete chID (channels cc2)\<rparr>)
      | (None, cc2) \<Rightarrow> (Inr p, cc2))"

text \<open>
  \<^verbatim>\<open>AcceptChannel\<close>: a \<^verbatim>\<open>select\<close> over \<^verbatim>\<open>newCh\<close> and \<^verbatim>\<open>done\<close>. When both are ready Go
  chooses freely; \<open>preferNew\<close> is that choice. Taking a channel off the full buffer
  lets a parked read loop finish its send.
\<close>

definition AcceptChannel :: "bool \<Rightarrow> ctrl_conn \<Rightarrow> nat res blocking \<times> ctrl_conn" where
  "AcceptChannel preferNew cc =
     (case newCh cc of
        p # rest \<Rightarrow>
          if isDone cc \<and> \<not> preferNew
          then (Returned (Inl (case readErr cc of Some e \<Rightarrow> e | None \<Rightarrow> EOF)), cc)
          else (Returned (Inr p),
                (case parked cc of
                   None \<Rightarrow> cc\<lparr>newCh := rest\<rparr>
                 | Some q \<Rightarrow> cc\<lparr>newCh := rest @ [q], parked := None\<rparr>))
      | [] \<Rightarrow>
          if isDone cc
          then (Returned (Inl (case readErr cc of Some e \<Rightarrow> e | None \<Rightarrow> EOF)), cc)
          else (Blocked, cc))"

text \<open>
  One tick of \<^verbatim>\<open>KeepAlive\<close> at time \<open>now\<close> (nanoseconds): \<open>False\<close> when the loop
  returns after closing a dead connection, \<open>True\<close> when it goes on.
\<close>

definition KeepAlive_tick :: "ctrl_conn \<Rightarrow> int \<Rightarrow> int \<Rightarrow> bool \<times> ctrl_conn" where
  "KeepAlive_tick cc timeout now =
     (if timeout > 0 \<and> now - lastActivity cc > timeout then (False, ctrl_Close cc)
      else (True, snd (sendFrame cc FramePing (be_put64 (word_of_int now)))))"

section \<open>Lemmas\<close>

lemma ReadFrame_error_wrapped:
  "ReadFrame r = (Inl err, r') \<Longrightarrow> err \<noteq> EOF"
  by (auto simp: ReadFrame_def Let_def split: sum.splits prod.splits if_splits)

lemma uint16_bound: "unat (x :: u16) < 65536"
  using unsigned_less [of x] by simp

lemma slice_bound:
  fixes n :: u16
  shows "unat (6 + n) = (if unat n < 65530 then 6 + unat n else unat n - 65530)"
  using uint16_bound [of n] by (auto simp: unat_word_ariths le_mod_geq)

lemma handleNewChannel_panic_iff:
  "handleNewChannel cc payload = PanicSlice \<longleftrightarrow>
     6 \<le> length payload \<and> 65530 \<le> unat (be_get16 (take 2 (drop 4 payload)))
     \<and> 6 + unat (be_get16 (take 2 (drop 4 payload))) \<le> length payload"
  using uint16_bound [of "be_get16 (take 2 (drop 4 payload))"]
  by (auto simp: handleNewChannel_def Let_def slice_bound)

lemma setError_other [simp]:
  "conn (setError cc p e) = conn cc" "channels (setError cc p e) = channels cc"
  "length (objs (setError cc p e)) = length (objs cc)" "parked (setError cc p e) = parked cc"
  "newCh (setError cc p e) = newCh cc" "isDone (setError cc p e) = isDone cc"
  "readErr (setError cc p e) = readErr cc" "spawned (setError cc p e) = spawned cc"
  "nextID (setError cc p e) = nextID cc"
  by (simp_all add: setError_def)

lemma removeChannel_other [simp]:
  "conn (removeChannel cc i) = conn cc" "objs (removeChannel cc i) = objs cc"
  "channels (removeChannel cc i) = AList.delete i (channels cc)"
  "parked (removeChannel cc i) = parked cc" "newCh (removeChannel cc i) = newCh cc"
  "isDone (removeChannel cc i) = isDone cc" "readErr (removeChannel cc i) = readErr cc"
  "spawned (removeChannel cc i) = spawned cc" "nextID (removeChannel cc i) = nextID cc"
  by (simp_all add: removeChannel_def)

text \<open>What \<^verbatim>\<open>closeAll\<close> does to every channel object, and to everything else.\<close>

lemma closeAll_loop_other:
  "conn (closeAll_loop es cc) = conn cc" "newCh (closeAll_loop es cc) = newCh cc"
  "parked (closeAll_loop es cc) = parked cc" "readErr (closeAll_loop es cc) = readErr cc"
  "isDone (closeAll_loop es cc) = isDone cc" "spawned (closeAll_loop es cc) = spawned cc"
  "length (objs (closeAll_loop es cc)) = length (objs cc)"
  by (induction es arbitrary: cc) auto

lemma closeAll_loop_channels:
  "map_of (channels (closeAll_loop es cc)) i = (if i \<in> fst ` set es then None else map_of (channels cc) i)"
  by (induction es arbitrary: cc) force+

lemma setError_nth:
  "objs (setError cc p e) ! q = (if q = p \<and> p < length (objs cc) then (objs cc ! q)\<lparr>rerr := Some e\<rparr> else objs cc ! q)"
  by (cases "p < length (objs cc)") (auto simp: setError_def upd_ch_def list_update_beyond)

lemma closeAll_loop_nth:
  "q < length (objs cc) \<Longrightarrow>
   objs (closeAll_loop es cc) ! q =
     (if q \<in> snd ` set es then (objs cc ! q)\<lparr>rerr := Some EOF\<rparr> else objs cc ! q)"
  by (induction es arbitrary: cc) (force simp: setError_nth)+

lemma closeAll_channels [simp]: "map_of (channels (closeAll cc)) i = None"
  by (auto simp: closeAll_def closeAll_loop_channels map_of_eq_None_iff [symmetric])

lemma closeAll_nth:
  "q < length (objs cc) \<Longrightarrow>
   objs (closeAll cc) ! q =
     (if q \<in> snd ` set (channels cc) then (objs cc ! q)\<lparr>rerr := Some EOF\<rparr> else objs cc ! q)"
  by (simp add: closeAll_def closeAll_loop_nth)

lemma closeAll_sends [simp]:
  "q < length (objs cc) \<Longrightarrow> sendWindow (objs (closeAll cc) ! q) = sendWindow (objs cc ! q)"
  "q < length (objs cc) \<Longrightarrow> status (objs (closeAll cc) ! q) = status (objs cc ! q)"
  "q < length (objs cc) \<Longrightarrow> rb (objs (closeAll cc) ! q) = rb (objs cc ! q)"
  by (simp_all add: closeAll_nth)


section \<open>Properties\<close>

text \<open>
  Writing on an open channel of a healthy connection. With enough credit the
  whole buffer goes out as one data frame and the call returns its length; with
  less, exactly the credit is spent on the first bytes and the call waits with the
  rest. In both cases the credit is reduced by what was sent and nothing is lost.
\<close>

theorem write_spends_credit:
  assumes "writable (conn cc)" and "p < length (objs cc)" and "status (objs cc ! p) = chOpen"
    and "b \<noteq> []" and "0 < sendWindow (objs cc ! p)" and "sendWindow (objs cc ! p) \<le> 65536"
  defines "n \<equiv> min (length b) (nat (sendWindow (objs cc ! p)))"
  defines "cc' \<equiv> (upd_ch p (\<lambda>ch. ch\<lparr>sendWindow := sendWindow ch - int n\<rparr>) cc)
     \<lparr>conn := (conn cc)\<lparr>out := out (conn cc) @
        enc_frame \<lparr>Typ = FrameChannelData, Payload = be_put32 (ch_id (objs cc ! p)) @ take n b\<rparr>\<rparr>\<rparr>"
  shows "channel_Write cc p b =
     (if n = length b then WriteReturned (length b) None else WriteBlocked (drop n b) n, cc')"
proof -
  let ?w = "sendWindow (objs cc ! p)"
  have n: "n \<le> 65536" "0 < n" using assms(4-6) by (auto simp: n_def)
  have chunk: "(if int (length b) > ?w then take (nat ?w) b else b) = take n b"
    using assms(5) by (auto simp: n_def min_def)
  have len: "length (take n b) = n" by (simp add: n_def)
  have turn: "write_turn cc p b = (TSent n, cc')"
    using assms(1,2,5) n len
    by (simp add: write_turn_def chunk Let_def sendFrame_writable maxFramePayload_def cc'_def)
  have w': "sendWindow (objs cc' ! p) = ?w - int n" "status (objs cc' ! p) = chOpen"
    using assms(2,3) by (simp_all add: cc'_def)
  have loop: "write_loop cc p b 0 = write_loop cc' p (drop n b) n"
    using assms(4) turn by (subst write_loop.simps) simp
  show ?thesis
  proof (cases "n = length b")
    case True
    then show ?thesis
      using assms(3) loop by (simp add: channel_Write_def write_loop.simps [of cc' p "[]"])
  next
    case False
    then have "drop n b \<noteq> []" "?w - int n \<le> 0" using assms(5) by (auto simp: n_def min_def split: if_splits)
    then have "write_turn cc' p (drop n b) = (TBlocked, cc')"
      using w' by (simp add: write_turn_def)
    with \<open>drop n b \<noteq> []\<close> have "write_loop cc' p (drop n b) n = (WriteBlocked (drop n b) n, cc')"
      by (subst write_loop.simps) simp
    with False show ?thesis
      using assms(3) loop by (simp add: channel_Write_def)
  qed
qed

text \<open>A connection with one open channel and little credit, for the examples.\<close>

definition demo_conn :: ctrl_conn where
  "demo_conn = (NewCtrlConn (new_conn []) 0)
     \<lparr>objs := [(newChannel 1 ''web:80'')\<lparr>sendWindow := 2\<rparr>], channels := [(1, 0)]\<rparr>"

theorem write_spends_credit_witness:
  "fst (channel_Write demo_conn 0 [10, 20, 30]) = WriteBlocked [30] 2"
  using write_spends_credit [of demo_conn 0 "[10, 20, 30]"]
  by (simp add: demo_conn_def NewCtrlConn_def newChannel_def)

text \<open>
  Frames are isolated by channel. Dispatching a data, close or window frame
  touches no channel object other than the one its id is mapped to, keeps the map,
  the accept queue and the connection, and frames for unknown ids change nothing.
\<close>

theorem dispatch_isolated:
  assumes "Typ f \<in> {FrameChannelData, FrameChannelClose, FrameWindowUpdate}"
    and "map_of (channels cc) (be_get32 (take 4 (Payload f))) \<noteq> Some q"
  shows "\<exists>cc'. handleFrame cc f = Some cc' \<and> objs cc' ! q = objs cc ! q
     \<and> channels cc' = channels cc \<and> newCh cc' = newCh cc \<and> conn cc' = conn cc"
  using assms
  by (auto simp: handleFrame_def frame_type_defs handleChannelData_def handleChannelClose_def
      handleWindowUpdate_def pushData_def setError_def addSendWindow_def upd_ch_def Let_def
      split: option.splits)

theorem dispatch_isolated_witness:
  "\<exists>cc'. handleFrame demo_conn \<lparr>Typ = FrameChannelData, Payload = [0, 0, 0, 2, 65]\<rparr> = Some cc'
     \<and> objs cc' ! 0 = objs demo_conn ! 0 \<and> channels cc' = channels demo_conn
     \<and> newCh cc' = newCh demo_conn \<and> conn cc' = conn demo_conn"
  by (rule dispatch_isolated) (simp_all add: demo_conn_def be_get32_def)

text \<open>
  When the connection ends, every mapped channel keeps the bytes it has
  buffered and gets \<^verbatim>\<open>io.EOF\<close> as its read error, no id stays mapped, and objects
  that were already dropped are untouched. So a reader drains its buffer before it
  sees the end of the stream.
\<close>

theorem closeAll_drains:
  assumes "q < length (objs cc)"
  shows "channels (closeAll cc) = [] \<and>
     objs (closeAll cc) ! q =
       (if q \<in> snd ` set (channels cc) then (objs cc ! q)\<lparr>rerr := Some EOF\<rparr> else objs cc ! q) \<and>
     (rb (objs cc ! q) \<noteq> [] \<longrightarrow>
       fst (channel_Read (closeAll cc) q n) = Returned (take n (rb (objs cc ! q)), None))"
proof (intro conjI impI)
  show "channels (closeAll cc) = []"
    using closeAll_channels [of cc "fst (hd (channels (closeAll cc)))"]
    by (cases "channels (closeAll cc)") auto
  show "objs (closeAll cc) ! q =
      (if q \<in> snd ` set (channels cc) then (objs cc ! q)\<lparr>rerr := Some EOF\<rparr> else objs cc ! q)"
    using assms by (rule closeAll_nth)
  show "fst (channel_Read (closeAll cc) q n) = Returned (take n (rb (objs cc ! q)), None)"
    if "rb (objs cc ! q) \<noteq> []"
    using assms that by (simp add: channel_Read_def Let_def)
qed

theorem closeAll_drains_witness:
  "channels (closeAll demo_conn) = [] \<and> rerr (objs (closeAll demo_conn) ! 0) = Some EOF"
  using closeAll_drains [of 0 demo_conn] by (simp add: demo_conn_def)

text \<open>
  The read loop never reports a clean end of stream. \<^verbatim>\<open>ReadFrame\<close> wraps every
  error it returns, so the comparison \<^verbatim>\<open>err != io.EOF\<close> of the read loop is always
  true: also after an orderly close by the peer the connection records a read
  error, and \<^verbatim>\<open>AcceptChannel\<close> then returns that error and not \<^verbatim>\<open>io.EOF\<close>.
\<close>

theorem clean_close_is_reported_as_error:
  assumes "\<not> shut (conn cc)" and "inp (conn cc) = []" and "rend (conn cc) = EOF" and "newCh cc = []"
  shows "\<exists>cc'. readLoop_turn cc now = Some cc' \<and> isDone cc' \<and>
     fst (AcceptChannel pick cc') = Returned (Inl (Wrap ''ctrl read'' (Wrap ''read frame header'' EOF)))"
  using assms
  by (simp add: readLoop_turn_def ReadFrame_def ReadFull_def Let_def AcceptChannel_def
      closeAll_def closeAll_loop_other)

theorem clean_close_is_reported_as_error_witness:
  "\<exists>cc'. readLoop_turn demo_conn 5 = Some cc' \<and> isDone cc' \<and>
     fst (AcceptChannel True cc') = Returned (Inl (Wrap ''ctrl read'' (Wrap ''read frame header'' EOF)))"
  by (rule clean_close_is_reported_as_error) (simp_all add: demo_conn_def NewCtrlConn_def)

text \<open>
  C23: A \<^verbatim>\<open>NewChannel\<close> frame crashes the process exactly when it announces a target
  of 65530 bytes or more and carries that many: the upper slice bound is computed
  in 16 bits and wraps below the lower one. Every other frame is dispatched.
\<close>

theorem new_channel_panics_iff:
  "handleFrame cc f = None \<longleftrightarrow>
     Typ f = FrameNewChannel \<and> 6 \<le> length (Payload f)
     \<and> 65530 \<le> unat (be_get16 (take 2 (drop 4 (Payload f))))
     \<and> 6 + unat (be_get16 (take 2 (drop 4 (Payload f)))) \<le> length (Payload f)"
proof -
  have "handleFrame cc f = None \<longleftrightarrow>
     Typ f = FrameNewChannel \<and> handleNewChannel cc (Payload f) = PanicSlice"
    by (auto simp: handleFrame_def split: new_channel.splits)
  then show ?thesis by (simp add: handleNewChannel_panic_iff)
qed

text \<open>
  A writer that is waiting for credit is not released when the control
  connection ends. The end of the read loop and \<^verbatim>\<open>Close\<close> both give the channel a
  read error but leave its status and its credit alone, so the waiting turn of
  \<^verbatim>\<open>Write\<close> blocks again.
\<close>

theorem waiting_writer_not_released:
  assumes "p < length (objs cc)" and "write_turn cc p b = (TBlocked, cc)"
    and "ReadFrame (conn cc) = (Inl err, c)"
  shows "\<exists>cc'. readLoop_turn cc now = Some cc' \<and> isDone cc' \<and>
     write_turn cc' p b = (TBlocked, cc') \<and>
     write_turn (ctrl_Close cc') p b = (TBlocked, ctrl_Close cc')"
proof -
  have st: "sendWindow (objs cc ! p) \<le> 0" "status (objs cc ! p) = chOpen"
    using assms(2)
    by (auto simp: write_turn_def Let_def split: if_splits prod.splits option.splits)
  define cc1 where "cc1 = cc\<lparr>conn := c, readErr := Some (Wrap ''ctrl read'' err)\<rparr>"
  have r: "readLoop_turn cc now = Some ((closeAll cc1)\<lparr>isDone := True\<rparr>)"
    using assms(3) ReadFrame_error_wrapped [OF assms(3)]
    by (simp add: readLoop_turn_def Let_def cc1_def)
  have p: "p < length (objs cc1)" using assms(1) by (simp add: cc1_def)
  have same: "sendWindow (objs (closeAll x) ! p) \<le> 0 \<and> status (objs (closeAll x) ! p) = chOpen"
    if "p < length (objs x)" "sendWindow (objs x ! p) \<le> 0" "status (objs x ! p) = chOpen" for x
    using that by simp
  have "p < length (objs (closeAll cc1))" using p by (simp add: closeAll_def closeAll_loop_other)
  then show ?thesis
    using r st p same [of cc1] same [of "(closeAll cc1)\<lparr>isDone := True\<rparr>"]
    by (auto simp: write_turn_def ctrl_Close_def Let_def cc1_def)
qed

theorem waiting_writer_not_released_witness:
  "\<exists>cc'. readLoop_turn (upd_ch 0 (\<lambda>ch. ch\<lparr>sendWindow := 0\<rparr>) demo_conn) 9 = Some cc' \<and> isDone cc' \<and>
     write_turn cc' 0 [30] = (TBlocked, cc') \<and>
     write_turn (ctrl_Close cc') 0 [30] = (TBlocked, ctrl_Close cc')"
  by (rule waiting_writer_not_released
      [where err = "Wrap ''read frame header'' EOF" and c = "new_conn []"])
     (simp_all add: demo_conn_def NewCtrlConn_def newChannel_def write_turn_def upd_ch_def
       ReadFrame_def ReadFull_def)

end
