(* ===== verification/Mux_End.thy ===== *)
theory Mux_End
  imports Ctrl_Conn
begin

text \<open>
  One end of a control connection and what its goroutines can do to it: the messages
  the frames of \<^verbatim>\<open>relay/ctrlconn.go\<close> stand for, what is observed of an end (credit,
  buffered bytes, end of stream and target of every channel), the steps of the
  goroutines that use its channels, and the read loop taking a message. Each step is
  summed up by its effect on the observations and by the messages it adds to the
  transport; the link and the relays rest on these effects alone.
\<close>

section \<open>Messages\<close>

text \<open>The frames the two ends send each other, as typed messages.\<close>

datatype msg =
    MNew u32 string
  | MData u32 bytes
  | MClose u32
  | MUpd u32 nat
  | MPing bytes
  | MPong bytes

fun frame_of :: "msg \<Rightarrow> frame" where
  "frame_of (MNew i t) = \<lparr>Typ = FrameNewChannel,
     Payload = be_put32 i @ be_put16 (word_of_nat (length t)) @ bytes_of_string t\<rparr>"
| "frame_of (MData i b) = \<lparr>Typ = FrameChannelData, Payload = be_put32 i @ b\<rparr>"
| "frame_of (MClose i) = \<lparr>Typ = FrameChannelClose, Payload = be_put32 i\<rparr>"
| "frame_of (MUpd i n) = \<lparr>Typ = FrameWindowUpdate, Payload = be_put32 i @ be_put32 (word_of_nat n)\<rparr>"
| "frame_of (MPing b) = \<lparr>Typ = FramePing, Payload = b\<rparr>"
| "frame_of (MPong b) = \<lparr>Typ = FramePong, Payload = b\<rparr>"

fun msg_ok :: "msg \<Rightarrow> bool" where
  "msg_ok (MNew i t) \<longleftrightarrow> length t < 65530"
| "msg_ok (MData i b) \<longleftrightarrow> length b \<le> 65536"
| "msg_ok (MClose i) \<longleftrightarrow> True"
| "msg_ok (MUpd i n) \<longleftrightarrow> n \<le> 65536"
| "msg_ok (MPing b) \<longleftrightarrow> length b = 8"
| "msg_ok (MPong b) \<longleftrightarrow> length b = 8"

lemma frame_of_ok: "msg_ok m \<Longrightarrow> frame_ok (frame_of m)"
  by (cases m) (simp_all add: frame_ok_def maxFramePayload_def)

definition wire :: "ctrl_conn \<Rightarrow> msg list \<Rightarrow> bool" where
  "wire cc ms \<longleftrightarrow> writable (conn cc) \<and> list_all msg_ok ms
     \<and> out (conn cc) = concat (map enc_frame (map frame_of ms))"

lemma wire_frames_ok: "wire cc ms \<Longrightarrow> list_all frame_ok (map frame_of ms)"
  by (auto simp: wire_def list_all_iff frame_of_ok)

text \<open>Sending one message extends the wire by it.\<close>

lemma sendFrame_wire:
  assumes "wire cc ms" and "msg_ok m" and "frame_of m = \<lparr>Typ = ty, Payload = payload\<rparr>"
  shows "\<exists>cc'. sendFrame cc ty payload = (None, cc') \<and> wire cc' (ms @ [m]) \<and> objs cc' = objs cc
     \<and> channels cc' = channels cc \<and> spawned cc' = spawned cc \<and> inp (conn cc') = inp (conn cc)
     \<and> nextID cc' = nextID cc"
proof -
  have "length payload \<le> maxFramePayload"
    using frame_of_ok [OF assms(2)] assms(3) by (simp add: frame_ok_def)
  then show ?thesis
    using assms by (simp add: sendFrame_writable wire_def)
qed


section \<open>What is observed of an endpoint\<close>

definition known :: "u32 \<Rightarrow> ctrl_conn \<Rightarrow> bool" where
  "known x cc \<longleftrightarrow> view cc x \<noteq> None"

definition mapped :: "u32 \<Rightarrow> ctrl_conn \<Rightarrow> bool" where
  "mapped x cc \<longleftrightarrow> map_of (channels cc) x \<noteq> None"

definition wnd :: "u32 \<Rightarrow> ctrl_conn \<Rightarrow> int" where
  "wnd x cc = (case view cc x of None \<Rightarrow> 0 | Some ch \<Rightarrow> sendWindow ch)"

definition buf :: "u32 \<Rightarrow> ctrl_conn \<Rightarrow> bytes" where
  "buf x cc = (case view cc x of None \<Rightarrow> [] | Some ch \<Rightarrow> rb ch)"

text \<open>Whether the reader has been told that the stream ended, and what the channel was opened for.\<close>

definition eof :: "u32 \<Rightarrow> ctrl_conn \<Rightarrow> bool" where
  "eof x cc = (case view cc x of None \<Rightarrow> False | Some ch \<Rightarrow> rerr ch \<noteq> None)"

definition dest :: "u32 \<Rightarrow> ctrl_conn \<Rightarrow> string option" where
  "dest x cc = map_option ch_target (view cc x)"

lemmas obs_defs = known_def wnd_def buf_def eof_def dest_def

lemma obs_cong:
  assumes "objs cc' = objs cc"
  shows "wnd x cc' = wnd x cc" "buf x cc' = buf x cc" "known x cc' = known x cc"
    "eof x cc' = eof x cc" "dest x cc' = dest x cc"
  by (simp_all add: obs_defs view_cong [OF assms])

lemma cc_wf_cong: "objs cc' = objs cc \<Longrightarrow> channels cc' = channels cc \<Longrightarrow> cc_wf cc' = cc_wf cc"
  by (simp add: cc_wf_def uniq_def)

lemma mapped_known: "cc_wf cc \<Longrightarrow> mapped x cc \<Longrightarrow> known x cc"
  using view_nth by (fastforce simp: cc_wf_def mapped_def known_def)

text \<open>Updating the object at \<open>p\<close> with a function that keeps its id.\<close>

lemma obs_nth:
  assumes "cc_wf cc" and "p < length (objs cc)"
  defines "i \<equiv> ch_id (objs cc ! p)"
  shows "wnd i cc = sendWindow (objs cc ! p)" and "buf i cc = rb (objs cc ! p)" and "known i cc"
    and "eof i cc \<longleftrightarrow> rerr (objs cc ! p) \<noteq> None" and "dest i cc = Some (ch_target (objs cc ! p))"
proof -
  have "view cc i = Some (objs cc ! p)"
    using assms(1,2) unfolding i_def by (intro view_nth) (simp_all add: cc_wf_def)
  then show "wnd i cc = sendWindow (objs cc ! p)" "buf i cc = rb (objs cc ! p)" "known i cc"
    "eof i cc \<longleftrightarrow> rerr (objs cc ! p) \<noteq> None" "dest i cc = Some (ch_target (objs cc ! p))"
    by (simp_all add: obs_defs)
qed

lemma obs_upd_ch:
  assumes "cc_wf cc" and "p < length (objs cc)" and "\<And>ch. ch_id (f ch) = ch_id ch"
  shows "wnd x (upd_ch p f cc) = (if x = ch_id (objs cc ! p) then sendWindow (f (objs cc ! p)) else wnd x cc)"
    and "buf x (upd_ch p f cc) = (if x = ch_id (objs cc ! p) then rb (f (objs cc ! p)) else buf x cc)"
    and "known x (upd_ch p f cc) = known x cc"
    and "eof x (upd_ch p f cc) = (if x = ch_id (objs cc ! p) then rerr (f (objs cc ! p)) \<noteq> None else eof x cc)"
    and "dest x (upd_ch p f cc) = (if x = ch_id (objs cc ! p) then Some (ch_target (f (objs cc ! p))) else dest x cc)"
proof -
  have u: "uniq cc" using assms(1) by (simp add: cc_wf_def)
  have v: "view (upd_ch p f cc) = (view cc)(ch_id (objs cc ! p) \<mapsto> f (objs cc ! p))"
    by (rule view_upd_ch [OF u assms(2,3)])
  show "wnd x (upd_ch p f cc) = (if x = ch_id (objs cc ! p) then sendWindow (f (objs cc ! p)) else wnd x cc)"
    "buf x (upd_ch p f cc) = (if x = ch_id (objs cc ! p) then rb (f (objs cc ! p)) else buf x cc)"
    "known x (upd_ch p f cc) = known x cc"
    "eof x (upd_ch p f cc) = (if x = ch_id (objs cc ! p) then rerr (f (objs cc ! p)) \<noteq> None else eof x cc)"
    "dest x (upd_ch p f cc) = (if x = ch_id (objs cc ! p) then Some (ch_target (f (objs cc ! p))) else dest x cc)"
    using view_nth [OF u assms(2)] by (auto simp: obs_defs v)
qed

section \<open>Steps of one endpoint\<close>

text \<open>
  What the goroutines of one endpoint do between two frames: a turn of a writer, a
  read, a half close, a close (also one started by the overflow safety net), an
  accept, a keep-alive tick on a live connection. The event records what the
  application wrote or read.
\<close>

datatype event = EvWrite u32 bytes | EvRead u32 bytes | EvQuiet

inductive local_step :: "ctrl_conn \<Rightarrow> event \<Rightarrow> ctrl_conn \<Rightarrow> bool" where
  ls_write: "p < length (objs cc) \<Longrightarrow> b \<noteq> [] \<Longrightarrow> write_turn cc p b = (TSent n, cc') \<Longrightarrow>
     local_step cc (EvWrite (ch_id (objs cc ! p)) (take n b)) cc'"
| ls_read: "p < length (objs cc) \<Longrightarrow> channel_Read cc p n = (Returned (b, None), cc') \<Longrightarrow>
     local_step cc (EvRead (ch_id (objs cc ! p)) b) cc'"
| ls_closeWrite: "p < length (objs cc) \<Longrightarrow> channel_CloseWrite cc p = (e, cc') \<Longrightarrow>
     local_step cc EvQuiet cc'"
| ls_close: "p < length (objs cc) \<Longrightarrow> channel_Close cc p = (e, cc') \<Longrightarrow>
     local_step cc EvQuiet cc'"
| ls_spawned: "spawned cc = p # ps \<Longrightarrow> p < length (objs cc) \<Longrightarrow>
     channel_Close (cc\<lparr>spawned := ps\<rparr>) p = (e, cc') \<Longrightarrow> local_step cc EvQuiet cc'"
| ls_accept: "AcceptChannel pick cc = (r, cc') \<Longrightarrow> local_step cc EvQuiet cc'"
| ls_ping: "KeepAlive_tick cc timeout now = (True, cc') \<Longrightarrow> local_step cc EvQuiet cc'"

text \<open>
  The effect of a step on what is observed: the messages it sends and the change
  of credit and buffer of the channel concerned.
\<close>

fun effect :: "event \<Rightarrow> ctrl_conn \<Rightarrow> msg list \<Rightarrow> ctrl_conn \<Rightarrow> bool" where
  "effect (EvWrite i c) cc new cc' \<longleftrightarrow>
     new = [MData i c] \<and> int (length c) \<le> wnd i cc \<and> known i cc
     \<and> (\<forall>x. wnd x cc' = (if x = i then wnd i cc - int (length c) else wnd x cc))
     \<and> (\<forall>x. buf x cc' = buf x cc) \<and> (\<forall>x. mapped x cc' = mapped x cc)
     \<and> (\<forall>x. eof x cc' = eof x cc) \<and> (\<forall>x. dest x cc' = dest x cc)"
| "effect (EvRead i c) cc new cc' \<longleftrightarrow>
     new = (if c = [] then [] else [MUpd i (length c)]) \<and> buf i cc = c @ buf i cc' \<and> known i cc
     \<and> (\<forall>x. wnd x cc' = wnd x cc) \<and> (\<forall>x. x \<noteq> i \<longrightarrow> buf x cc' = buf x cc)
     \<and> (\<forall>x. mapped x cc' = mapped x cc) \<and> (\<forall>x. eof x cc' = eof x cc) \<and> (\<forall>x. dest x cc' = dest x cc)"
| "effect EvQuiet cc new cc' \<longleftrightarrow>
     (\<forall>m\<in>set new. (\<exists>i. m = MClose i \<and> known i cc) \<or> (\<exists>b. m = MPing b))
     \<and> (\<forall>x. wnd x cc' = wnd x cc) \<and> (\<forall>x. buf x cc' = buf x cc)
     \<and> (\<forall>x. mapped x cc' \<longrightarrow> mapped x cc) \<and> (\<forall>x. eof x cc' = eof x cc) \<and> (\<forall>x. dest x cc' = dest x cc)"

text \<open>Every channel of the endpoint has its credit and its buffer within one window.\<close>

definition bounded :: "ctrl_conn \<Rightarrow> bool" where
  "bounded cc \<longleftrightarrow> (\<forall>x. 0 \<le> wnd x cc \<and> wnd x cc \<le> 65536 \<and> length (buf x cc) \<le> 65536)"

abbreviation keeps :: "ctrl_conn \<Rightarrow> msg list \<Rightarrow> ctrl_conn \<Rightarrow> msg list \<Rightarrow> bool" where
  "keeps cc ms cc' ms' \<equiv> wire cc' ms' \<and> cc_wf cc' \<and> (\<forall>x. known x cc' = known x cc)
     \<and> inp (conn cc') = inp (conn cc) \<and> nextID cc' = nextID cc"

lemma write_effect:
  assumes "cc_wf cc" "wire cc ms" "bounded cc" "p < length (objs cc)" "write_turn cc p b = (TSent n, cc')"
  shows "\<exists>new. keeps cc ms cc' (ms @ new) \<and> spawned cc' = spawned cc
     \<and> effect (EvWrite (ch_id (objs cc ! p)) (take n b)) cc new cc'"
proof -
  let ?i = "ch_id (objs cc ! p)" and ?w = "sendWindow (objs cc ! p)"
  define c where "c = (if int (length b) > ?w then take (nat ?w) b else b)"
  define cc1 where "cc1 = upd_ch p (\<lambda>ch. ch\<lparr>sendWindow := sendWindow ch - int (length c)\<rparr>) cc"
  have w: "0 < ?w" using assms(5) by (auto simp: write_turn_def Let_def split: if_splits)
  have o: "wnd ?i cc = ?w" "known ?i cc" "buf ?i cc = rb (objs cc ! p)"
    "eof ?i cc \<longleftrightarrow> rerr (objs cc ! p) \<noteq> None" "dest ?i cc = Some (ch_target (objs cc ! p))"
    using obs_nth [OF assms(1,4)] by simp_all
  have c: "int (length c) \<le> ?w" "length c \<le> 65536"
    using w o assms(3) by (auto simp: c_def bounded_def dest: spec [of _ ?i])
  have wf1: "cc_wf cc1" unfolding cc1_def using assms(1) by (rule cc_wf_upd_ch) simp
  have o1: "wnd x cc1 = (if x = ?i then wnd ?i cc - int (length c) else wnd x cc)"
    "buf x cc1 = buf x cc" "known x cc1 = known x cc" "eof x cc1 = eof x cc" "dest x cc1 = dest x cc" for x
    using obs_upd_ch [OF assms(1,4), of "\<lambda>ch. ch\<lparr>sendWindow := sendWindow ch - int (length c)\<rparr>" x] o
    by (auto simp: cc1_def)
  have "wire cc1 ms" using assms(2) by (simp add: wire_def cc1_def)
  from sendFrame_wire [OF this, of "MData ?i c" FrameChannelData "be_put32 ?i @ c"] c
  obtain cc2 where cc2: "sendFrame cc1 FrameChannelData (be_put32 ?i @ c) = (None, cc2)"
    "wire cc2 (ms @ [MData ?i c])" "objs cc2 = objs cc1" "channels cc2 = channels cc1"
    "spawned cc2 = spawned cc1" "inp (conn cc2) = inp (conn cc1)" "nextID cc2 = nextID cc1"
    by auto
  have "cc' = cc2" "n = length c"
    using assms(5) w cc2(1) by (simp_all add: write_turn_def Let_def c_def [symmetric] cc1_def [symmetric])
  moreover have "take (length c) b = c" by (simp add: c_def)
  ultimately show ?thesis
    using cc2 wf1 o o1 c obs_cong [OF cc2(3)] cc_wf_cong [OF cc2(3,4)]
    by (auto simp: mapped_def cc1_def)
qed

lemma read_effect:
  assumes "cc_wf cc" "wire cc ms" "bounded cc" "p < length (objs cc)"
    "channel_Read cc p n = (Returned (b, None), cc')"
  shows "\<exists>new. keeps cc ms cc' (ms @ new) \<and> spawned cc' = spawned cc
     \<and> effect (EvRead (ch_id (objs cc ! p)) b) cc new cc'"
proof -
  let ?i = "ch_id (objs cc ! p)"
  define cc1 where "cc1 = upd_ch p (\<lambda>ch. ch\<lparr>rb := drop n (rb ch)\<rparr>) cc"
  have o: "wnd ?i cc = sendWindow (objs cc ! p)" "known ?i cc" "buf ?i cc = rb (objs cc ! p)"
    "eof ?i cc \<longleftrightarrow> rerr (objs cc ! p) \<noteq> None" "dest ?i cc = Some (ch_target (objs cc ! p))"
    using obs_nth [OF assms(1,4)] by simp_all
  have ne: "rb (objs cc ! p) \<noteq> []" and b: "b = take n (rb (objs cc ! p))"
    and cc': "cc' = (if b \<noteq> [] then sendWindowUpdate cc1 p (length b) else cc1)"
    using assms(5) by (auto simp: channel_Read_def Let_def cc1_def split: if_splits option.splits)
  have wf1: "cc_wf cc1" unfolding cc1_def using assms(1) by (rule cc_wf_upd_ch) simp
  have w1: "wire cc1 ms" using assms(2) by (simp add: wire_def cc1_def)
  have o1: "wnd x cc1 = wnd x cc" "buf x cc1 = (if x = ?i then drop n (buf ?i cc) else buf x cc)"
    "known x cc1 = known x cc" "eof x cc1 = eof x cc" "dest x cc1 = dest x cc" for x
    using obs_upd_ch [OF assms(1,4), of "\<lambda>ch. ch\<lparr>rb := drop n (rb ch)\<rparr>" x] o
    by (auto simp: cc1_def)
  have sp: "b @ drop n (buf ?i cc) = buf ?i cc" by (simp add: b o(3))
  show ?thesis
  proof (cases "b = []")
    case True
    then show ?thesis
      using wf1 w1 o o1 sp cc' by (intro exI [of _ "[]"]) (auto simp: mapped_def cc1_def)
  next
    case False
    have "length (rb (objs cc ! p)) \<le> 65536"
      using assms(3) o(3) by (auto simp: bounded_def dest!: spec [of _ ?i])
    then have "msg_ok (MUpd ?i (length b))" by (simp add: b)
    from sendFrame_wire [OF w1 this, of FrameWindowUpdate "be_put32 ?i @ be_put32 (word_of_nat (length b))"]
    obtain cc2 where cc2: "sendFrame cc1 FrameWindowUpdate (be_put32 ?i @ be_put32 (word_of_nat (length b))) = (None, cc2)"
      "wire cc2 (ms @ [MUpd ?i (length b)])" "objs cc2 = objs cc1" "channels cc2 = channels cc1"
      "spawned cc2 = spawned cc1" "inp (conn cc2) = inp (conn cc1)" "nextID cc2 = nextID cc1"
      by auto
    have "cc' = cc2"
      using cc' False cc2(1) assms(4) by (simp add: sendWindowUpdate_def cc1_def)
    then show ?thesis
      using False cc2 wf1 o o1 sp obs_cong [OF cc2(3)] cc_wf_cong [OF cc2(3,4)]
      by (intro exI [of _ "[MUpd ?i (length b)]"]) (auto simp: mapped_def cc1_def)
  qed
qed

text \<open>The status changes and the close frame of \<^verbatim>\<open>CloseWrite\<close> and \<^verbatim>\<open>Close\<close>.\<close>

lemma cc_wf_removeChannel: "cc_wf cc \<Longrightarrow> cc_wf (removeChannel cc i)"
  by (auto simp: cc_wf_def uniq_def split: if_splits)

lemma send_close_effect:
  assumes "cc_wf cc" "wire cc ms" "p < length (objs cc)"
    and "sendFrame cc FrameChannelClose (be_put32 (ch_id (objs cc ! p))) = (e, cc')"
  shows "keeps cc ms cc' (ms @ [MClose (ch_id (objs cc ! p))]) \<and> spawned cc' = spawned cc
     \<and> effect EvQuiet cc [MClose (ch_id (objs cc ! p))] cc'"
proof -
  let ?i = "ch_id (objs cc ! p)"
  from sendFrame_wire [OF assms(2), of "MClose ?i" FrameChannelClose "be_put32 ?i"] assms(4)
  have cc': "wire cc' (ms @ [MClose ?i])" "objs cc' = objs cc" "channels cc' = channels cc"
    "spawned cc' = spawned cc" "inp (conn cc') = inp (conn cc)" "nextID cc' = nextID cc"
    by auto
  show ?thesis
    using cc' assms(1) obs_nth(3) [OF assms(1,3)] obs_cong [OF cc'(2)] cc_wf_cong [OF cc'(2,3)]
    by (auto simp: mapped_def)
qed

lemma closeWrite_effect:
  assumes "cc_wf cc" "wire cc ms" "p < length (objs cc)" "channel_CloseWrite cc p = (e, cc')"
  shows "\<exists>new. set new \<subseteq> {MClose (ch_id (objs cc ! p))} \<and> keeps cc ms cc' (ms @ new) \<and> spawned cc' = spawned cc \<and> effect EvQuiet cc new cc'"
proof (cases "status (objs cc ! p) = chOpen")
  case False
  with assms show ?thesis by (intro exI [of _ "[]"]) (auto simp: channel_CloseWrite_def)
next
  case True
  let ?cc1 = "upd_ch p (\<lambda>ch. ch\<lparr>status := chWriteClosed\<rparr>) cc"
  have o1: "wnd x ?cc1 = wnd x cc" "buf x ?cc1 = buf x cc" "known x ?cc1 = known x cc"
    "eof x ?cc1 = eof x cc" "dest x ?cc1 = dest x cc" for x
    using obs_upd_ch [OF assms(1,3), of "\<lambda>ch. ch\<lparr>status := chWriteClosed\<rparr>" x] obs_nth [OF assms(1,3)]
    by auto
  have "cc_wf ?cc1" using assms(1) by (rule cc_wf_upd_ch) simp
  moreover have "wire ?cc1 ms" using assms(2) by (simp add: wire_def)
  ultimately have "keeps ?cc1 ms cc' (ms @ [MClose (ch_id (objs ?cc1 ! p))]) \<and> spawned cc' = spawned ?cc1
     \<and> effect EvQuiet ?cc1 [MClose (ch_id (objs ?cc1 ! p))] cc'"
    using assms(3,4) True
    by (intro send_close_effect [where e = e]) (simp_all add: channel_CloseWrite_def)
  then show ?thesis
    using assms(3) by (intro exI [of _ "[MClose (ch_id (objs cc ! p))]"]) (auto simp: o1 mapped_def)
qed

lemma close_effect:
  assumes "cc_wf cc" "wire cc ms" "p < length (objs cc)" "channel_Close cc p = (e, cc')"
  shows "\<exists>new. set new \<subseteq> {MClose (ch_id (objs cc ! p))} \<and> keeps cc ms cc' (ms @ new) \<and> spawned cc' = spawned cc \<and> effect EvQuiet cc new cc'"
proof (cases "status (objs cc ! p) = chClosed")
  case True
  with assms show ?thesis by (intro exI [of _ "[]"]) (auto simp: channel_Close_def)
next
  case False
  let ?cc1 = "upd_ch p (\<lambda>ch. ch\<lparr>status := chClosed\<rparr>) cc"
  let ?cc2 = "removeChannel ?cc1 (ch_id (objs cc ! p))"
  have o1: "wnd x ?cc2 = wnd x cc" "buf x ?cc2 = buf x cc" "known x ?cc2 = known x cc"
    "eof x ?cc2 = eof x cc" "dest x ?cc2 = dest x cc" for x
    using obs_upd_ch [OF assms(1,3), of "\<lambda>ch. ch\<lparr>status := chClosed\<rparr>" x] obs_nth [OF assms(1,3)]
      obs_cong [of ?cc2 ?cc1 x] by auto
  have m1: "mapped x ?cc2 \<Longrightarrow> mapped x cc" for x
    by (auto simp: mapped_def split: if_splits)
  have "cc_wf ?cc2" using assms(1) by (intro cc_wf_removeChannel cc_wf_upd_ch) simp_all
  moreover have "wire ?cc2 ms" using assms(2) by (simp add: wire_def)
  ultimately have "keeps ?cc2 ms cc' (ms @ [MClose (ch_id (objs ?cc2 ! p))]) \<and> spawned cc' = spawned ?cc2
     \<and> effect EvQuiet ?cc2 [MClose (ch_id (objs ?cc2 ! p))] cc'"
    using assms(3,4) False
    by (intro send_close_effect [where e = e]) (simp_all add: channel_Close_def Let_def)
  then show ?thesis
    using assms(3) m1 by (intro exI [of _ "[MClose (ch_id (objs cc ! p))]"]) (auto simp: o1)
qed

lemma accept_effect:
  assumes "cc_wf cc" "wire cc ms" "AcceptChannel pick cc = (r, cc')"
  shows "keeps cc ms cc' ms \<and> spawned cc' = spawned cc \<and> effect EvQuiet cc [] cc'"
proof -
  have "objs cc' = objs cc" "channels cc' = channels cc" "conn cc' = conn cc"
    "spawned cc' = spawned cc" "nextID cc' = nextID cc"
    using assms(3) by (auto simp: AcceptChannel_def split: list.splits if_splits option.splits)
  then show ?thesis
    using assms obs_cong [of cc' cc] cc_wf_cong [of cc' cc] by (auto simp: wire_def mapped_def)
qed

lemma ping_effect:
  assumes "cc_wf cc" "wire cc ms" "KeepAlive_tick cc timeout now = (True, cc')"
  shows "\<exists>b. keeps cc ms cc' (ms @ [MPing b]) \<and> spawned cc' = spawned cc \<and> effect EvQuiet cc [MPing b] cc'"
proof -
  let ?b = "be_put64 (word_of_int now)"
  have cc': "cc' = snd (sendFrame cc FramePing ?b)"
    using assms(3) by (auto simp: KeepAlive_tick_def split: if_splits)
  with sendFrame_wire [OF assms(2), of "MPing ?b" FramePing ?b]
  have "wire cc' (ms @ [MPing ?b])" "objs cc' = objs cc" "channels cc' = channels cc"
    "spawned cc' = spawned cc" "inp (conn cc') = inp (conn cc)" "nextID cc' = nextID cc"
    by auto
  then show ?thesis
    using assms(1) obs_cong [of cc' cc] cc_wf_cong [of cc' cc]
    by (intro exI [of _ ?b]) (auto simp: mapped_def)
qed

lemma local_step_effect:
  assumes "local_step cc ev cc'" and "cc_wf cc" "wire cc ms" "bounded cc" "spawned cc = []"
  shows "\<exists>new. keeps cc ms cc' (ms @ new) \<and> spawned cc' = [] \<and> effect ev cc new cc'"
  using assms
proof (cases rule: local_step.cases)
  case (ls_write p b n)
  then show ?thesis using write_effect [of cc ms p b n cc'] assms by auto
next
  case (ls_read p n b)
  then show ?thesis using read_effect [of cc ms p n b cc'] assms by auto
next
  case (ls_closeWrite p e)
  then show ?thesis using closeWrite_effect [of cc ms p e cc'] assms by auto
next
  case (ls_close p e)
  then show ?thesis using close_effect [of cc ms p e cc'] assms by auto
next
  case (ls_spawned p ps e)
  then show ?thesis using assms by simp
next
  case (ls_accept pick r)
  then show ?thesis
    using accept_effect [of cc ms pick r cc'] assms by (intro exI [of _ "[]"]) auto
next
  case (ls_ping timeout now)
  then show ?thesis using ping_effect [of cc ms timeout now cc'] assms by auto
qed


section \<open>Receiving a message\<close>

fun recv_effect :: "msg \<Rightarrow> ctrl_conn \<Rightarrow> msg list \<Rightarrow> ctrl_conn \<Rightarrow> bool" where
  "recv_effect (MNew i t) cc new cc' \<longleftrightarrow> new = []
     \<and> (\<forall>x. known x cc' \<longleftrightarrow> x = i \<or> known x cc) \<and> (\<forall>x. mapped x cc' \<longleftrightarrow> x = i \<or> mapped x cc)
     \<and> (\<forall>x. wnd x cc' = (if x = i then 65536 else wnd x cc)) \<and> (\<forall>x. buf x cc' = buf x cc)
     \<and> (\<forall>x. eof x cc' = eof x cc) \<and> (\<forall>x. dest x cc' = (if x = i then Some t else dest x cc))"
| "recv_effect (MData i b) cc new cc' \<longleftrightarrow> new = []
     \<and> (\<forall>x. known x cc' = known x cc) \<and> (\<forall>x. mapped x cc' = mapped x cc) \<and> (\<forall>x. wnd x cc' = wnd x cc)
     \<and> (\<forall>x. buf x cc' = (if x = i \<and> mapped i cc then buf x cc @ b else buf x cc))
     \<and> (\<forall>x. eof x cc' = eof x cc) \<and> (\<forall>x. dest x cc' = dest x cc)"
| "recv_effect (MUpd i n) cc new cc' \<longleftrightarrow> new = []
     \<and> (\<forall>x. known x cc' = known x cc) \<and> (\<forall>x. mapped x cc' = mapped x cc) \<and> (\<forall>x. buf x cc' = buf x cc)
     \<and> (\<forall>x. wnd x cc' = (if x = i \<and> mapped i cc then wnd x cc + int n else wnd x cc))
     \<and> (\<forall>x. eof x cc' = eof x cc) \<and> (\<forall>x. dest x cc' = dest x cc)"
| "recv_effect (MClose i) cc new cc' \<longleftrightarrow> new = []
     \<and> (\<forall>x. known x cc' = known x cc) \<and> (\<forall>x. mapped x cc' = mapped x cc)
     \<and> (\<forall>x. wnd x cc' = wnd x cc) \<and> (\<forall>x. buf x cc' = buf x cc)
     \<and> (\<forall>x. eof x cc' \<longleftrightarrow> eof x cc \<or> x = i \<and> mapped i cc) \<and> (\<forall>x. dest x cc' = dest x cc)"
| "recv_effect m cc new cc' \<longleftrightarrow> (\<forall>m\<in>set new. \<exists>b. m = MPong b)
     \<and> (\<forall>x. known x cc' = known x cc) \<and> (\<forall>x. mapped x cc' = mapped x cc)
     \<and> (\<forall>x. wnd x cc' = wnd x cc) \<and> (\<forall>x. buf x cc' = buf x cc)
     \<and> (\<forall>x. eof x cc' = eof x cc) \<and> (\<forall>x. dest x cc' = dest x cc)"

text \<open>The room a message needs at its receiver.\<close>

fun fits :: "msg \<Rightarrow> ctrl_conn \<Rightarrow> bool" where
  "fits (MNew i t) cc \<longleftrightarrow> \<not> known i cc"
| "fits (MData i b) cc \<longleftrightarrow> length (buf i cc) + length b \<le> 65536"
| "fits (MUpd i n) cc \<longleftrightarrow> 0 \<le> wnd i cc \<and> wnd i cc \<le> 65536"
| "fits _ cc \<longleftrightarrow> True"

lemma mapped_nth:
  assumes "cc_wf cc" and "map_of (channels cc) i = Some p"
  shows "p < length (objs cc)" and "ch_id (objs cc ! p) = i"
  using assms by (auto simp: cc_wf_def)

lemma cc_wf_alloc:
  assumes "cc_wf cc" and "objs cc' = objs cc @ [ch]" and "view cc (ch_id ch) = None"
    and "channels cc' = AList.update (ch_id ch) (length (objs cc)) (channels cc)"
  shows "cc_wf cc'"
  using assms(1) uniq_alloc [OF assms(2,3)] assms(2,4)
  by (auto simp: cc_wf_def nth_append split: if_splits intro: less_SucI)

lemma handle_new:
  assumes "cc_wf cc" "wire cc ms" "msg_ok (MNew i t)" "\<not> known i cc"
  shows "\<exists>cc'. handleFrame cc (frame_of (MNew i t)) = Some cc' \<and> wire cc' ms \<and> cc_wf cc'
     \<and> inp (conn cc') = inp (conn cc) \<and> nextID cc' = nextID cc \<and> spawned cc' = spawned cc
     \<and> recv_effect (MNew i t) cc [] cc'"
proof -
  let ?p = "length (objs cc)"
  have len: "unat (word_of_nat (length t) :: u16) = length t"
    using assms(3) by (intro unat_word_of_length16) simp
  define cc1 where "cc1 = cc\<lparr>objs := objs cc @ [newChannel i t], channels := AList.update i ?p (channels cc)\<rparr>"
  have new: "handleNewChannel cc (Payload (frame_of (MNew i t))) = NewChannel ?p cc1"
    using assms(3) by (simp add: handleNewChannel_def Let_def len slice_bound cc1_def)
  define cc' where "cc' = (if length (newCh cc) < newCh_cap then cc1\<lparr>newCh := newCh cc @ [?p]\<rparr> else cc1\<lparr>parked := Some ?p\<rparr>)"
  have h: "handleFrame cc (frame_of (MNew i t)) = Some cc'"
    unfolding handleFrame_def new by (simp add: cc'_def cc1_def)
  have o: "objs cc' = objs cc @ [newChannel i t]" "channels cc' = AList.update i ?p (channels cc)"
    "conn cc' = conn cc" "nextID cc' = nextID cc" "spawned cc' = spawned cc"
    by (simp_all add: cc'_def cc1_def)
  have none: "view cc (ch_id (newChannel i t)) = None"
    using assms(4) by (simp add: known_def newChannel_def)
  have v: "view cc' = (view cc)(i \<mapsto> newChannel i t)"
    using view_alloc [OF o(1) none] by (simp add: newChannel_def)
  have "cc_wf cc'"
    by (rule cc_wf_alloc [OF assms(1) o(1) none]) (simp add: o(2) newChannel_def)
  then show ?thesis
    using h o assms(2) none
    by (auto simp: obs_defs v wire_def mapped_def newChannel_def defaultSendWindow_def)
qed

lemma handle_data:
  assumes "cc_wf cc" "wire cc ms" "fits (MData i b) cc"
  shows "\<exists>cc'. handleFrame cc (frame_of (MData i b)) = Some cc' \<and> wire cc' ms \<and> cc_wf cc'
     \<and> inp (conn cc') = inp (conn cc) \<and> nextID cc' = nextID cc \<and> spawned cc' = spawned cc
     \<and> recv_effect (MData i b) cc [] cc'"
proof (cases "map_of (channels cc) i")
  case None
  then have "handleFrame cc (frame_of (MData i b)) = Some cc"
    by (simp add: handleFrame_def frame_type_defs handleChannelData_def)
  with assms None show ?thesis by (simp add: mapped_def)
next
  case (Some p)
  note pn = mapped_nth [OF assms(1) Some]
  have b: "buf i cc = rb (objs cc ! p)" "wnd i cc = sendWindow (objs cc ! p)"
    "eof i cc \<longleftrightarrow> rerr (objs cc ! p) \<noteq> None" "dest i cc = Some (ch_target (objs cc ! p))"
    using obs_nth [OF assms(1) pn(1)] pn(2) by simp_all
  let ?cc = "upd_ch p (\<lambda>ch. ch\<lparr>rb := rb ch @ b\<rparr>) cc"
  have "handleFrame cc (frame_of (MData i b)) = Some ?cc"
    using Some b assms(3)
    by (simp add: handleFrame_def frame_type_defs handleChannelData_def pushData_def maxReceiveBuffer_def)
  moreover have "cc_wf ?cc" using assms(1) by (rule cc_wf_upd_ch) simp
  ultimately show ?thesis
    using assms(2) Some pn b obs_upd_ch [OF assms(1) pn(1), of "\<lambda>ch. ch\<lparr>rb := rb ch @ b\<rparr>"]
    by (auto simp: wire_def mapped_def)
qed

lemma handle_upd:
  assumes "cc_wf cc" "wire cc ms" "msg_ok (MUpd i n)" "fits (MUpd i n) cc"
  shows "\<exists>cc'. handleFrame cc (frame_of (MUpd i n)) = Some cc' \<and> wire cc' ms \<and> cc_wf cc'
     \<and> inp (conn cc') = inp (conn cc) \<and> nextID cc' = nextID cc \<and> spawned cc' = spawned cc
     \<and> recv_effect (MUpd i n) cc [] cc'"
proof (cases "map_of (channels cc) i")
  case None
  then have "handleFrame cc (frame_of (MUpd i n)) = Some cc"
    by (simp add: handleFrame_def frame_type_defs handleWindowUpdate_def)
  with assms None show ?thesis by (simp add: mapped_def)
next
  case (Some p)
  note pn = mapped_nth [OF assms(1) Some]
  have b: "buf i cc = rb (objs cc ! p)" "wnd i cc = sendWindow (objs cc ! p)"
    "eof i cc \<longleftrightarrow> rerr (objs cc ! p) \<noteq> None" "dest i cc = Some (ch_target (objs cc ! p))"
    using obs_nth [OF assms(1) pn(1)] pn(2) by simp_all
  let ?f = "\<lambda>ch. ch\<lparr>sendWindow := wrap64 (sendWindow ch + int n)\<rparr>"
  have "unat (word_of_nat n :: u32) = n"
    using assms(3) by (intro unat_word_of_length32) simp
  then have "uint (word_of_nat n :: u32) = int n"
    by (metis uint_nat)
  then have "handleFrame cc (frame_of (MUpd i n)) = Some (upd_ch p ?f cc)"
    using Some
    by (simp add: handleFrame_def frame_type_defs handleWindowUpdate_def addSendWindow_def)
  moreover have "wrap64 (sendWindow (objs cc ! p) + int n) = sendWindow (objs cc ! p) + int n"
    using assms(3,4) b by (intro wrap64_id) simp_all
  moreover have "cc_wf (upd_ch p ?f cc)" using assms(1) by (rule cc_wf_upd_ch) simp
  ultimately show ?thesis
    using assms(2) Some pn b obs_upd_ch [OF assms(1) pn(1), of ?f]
    by (auto simp: wire_def mapped_def)
qed

lemma handle_close:
  assumes "cc_wf cc" "wire cc ms"
  shows "\<exists>cc'. handleFrame cc (frame_of (MClose i)) = Some cc' \<and> wire cc' ms \<and> cc_wf cc'
     \<and> inp (conn cc') = inp (conn cc) \<and> nextID cc' = nextID cc \<and> spawned cc' = spawned cc
     \<and> recv_effect (MClose i) cc [] cc'"
proof (cases "map_of (channels cc) i")
  case None
  then have "handleFrame cc (frame_of (MClose i)) = Some cc"
    by (simp add: handleFrame_def frame_type_defs handleChannelClose_def)
  with assms None show ?thesis by (simp add: mapped_def)
next
  case (Some p)
  note pn = mapped_nth [OF assms(1) Some]
  let ?f = "\<lambda>ch. ch\<lparr>rerr := Some EOF\<rparr>"
  have "handleFrame cc (frame_of (MClose i)) = Some (upd_ch p ?f cc)"
    using Some by (simp add: handleFrame_def frame_type_defs handleChannelClose_def setError_def)
  moreover have "cc_wf (upd_ch p ?f cc)" using assms(1) by (rule cc_wf_upd_ch) simp
  ultimately show ?thesis
    using assms(2) Some pn obs_nth [OF assms(1) pn(1)] obs_upd_ch [OF assms(1) pn(1), of ?f]
    by (auto simp: wire_def mapped_def)
qed

lemma handle_ping:
  assumes "cc_wf cc" "wire cc ms" "msg_ok (MPing b)"
  shows "\<exists>cc'. handleFrame cc (frame_of (MPing b)) = Some cc' \<and> wire cc' (ms @ [MPong b]) \<and> cc_wf cc'
     \<and> inp (conn cc') = inp (conn cc) \<and> nextID cc' = nextID cc \<and> spawned cc' = spawned cc
     \<and> recv_effect (MPing b) cc [MPong b] cc'"
proof -
  let ?cc = "handlePing cc b"
  have h: "handleFrame cc (frame_of (MPing b)) = Some ?cc"
    by (simp add: handleFrame_def frame_type_defs)
  have eq: "?cc = snd (sendFrame cc FramePong b)"
    by (simp add: handlePing_def sendFrame_def split: prod.splits)
  with sendFrame_wire [OF assms(2), of "MPong b" FramePong b] assms(3)
  have w: "wire ?cc (ms @ [MPong b])" "inp (conn ?cc) = inp (conn cc)" by auto
  have o: "objs ?cc = objs cc" "channels ?cc = channels cc" "nextID ?cc = nextID cc" "spawned ?cc = spawned cc"
    by (simp_all add: handlePing_def)
  show ?thesis
    using h w o assms(1) obs_cong [OF o(1)] cc_wf_cong [OF o(1,2)] by (auto simp: mapped_def)
qed

lemma handle_effect:
  assumes "cc_wf cc" "wire cc ms" "msg_ok m" "fits m cc"
  shows "\<exists>cc' new. handleFrame cc (frame_of m) = Some cc' \<and> wire cc' (ms @ new) \<and> cc_wf cc'
     \<and> inp (conn cc') = inp (conn cc) \<and> nextID cc' = nextID cc \<and> spawned cc' = spawned cc
     \<and> recv_effect m cc new cc'"
proof (cases m)
  case (MNew i t)
  then show ?thesis using handle_new [OF assms(1,2)] assms(3,4) by (metis append_Nil2 fits.simps(1))
next
  case (MData i b)
  then show ?thesis using handle_data [OF assms(1,2)] assms(4) by (metis append_Nil2)
next
  case (MClose i)
  then show ?thesis using handle_close [OF assms(1,2)] by (metis append_Nil2)
next
  case (MUpd i n)
  then show ?thesis using handle_upd [OF assms(1,2)] assms(3,4) by (metis append_Nil2)
next
  case (MPing b)
  then show ?thesis using handle_ping [OF assms(1,2)] assms(3) by metis
next
  case (MPong b)
  have "handleFrame cc (frame_of (MPong b)) = Some cc"
    by (simp add: handleFrame_def frame_type_defs)
  then show ?thesis using assms MPong by (intro exI [of _ cc] exI [of _ "[]"]) auto
qed

end
