(* ===== verification/Mux_Link.thy ===== *)
theory Mux_Link
  imports Mux_End
begin

text \<open>
  The two ends of a control connection run against each other: the server end,
  which opens channels (\<^verbatim>\<open>sharedListener.dispatch\<close> is the only caller of
  \<^verbatim>\<open>OpenChannel\<close>), and the client end, which accepts them. Each end takes the steps
  its goroutines take, in any order; the transport is the reliable byte stream
  between them, and its bytes are read by the other end's read loop. The theory
  shows that flow control keeps every receive buffer within one send window, that
  the overflow safety net never fires, and that every channel is a FIFO byte
  stream in both directions.
\<close>

section \<open>The transport\<close>

text \<open>
  One turn of the receiver's read loop on the bytes in transit; what the turn does
  not consume stays in transit. \<open>None\<close> is a panic of the receiver.
\<close>

definition deliver :: "ctrl_conn \<Rightarrow> ctrl_conn \<Rightarrow> int \<Rightarrow> (ctrl_conn \<times> ctrl_conn) option" where
  "deliver src dst now =
     (case readLoop_turn (dst\<lparr>conn := (conn dst)\<lparr>inp := out (conn src)\<rparr>\<rparr>) now of
        None \<Rightarrow> None
      | Some dst' \<Rightarrow> Some (src\<lparr>conn := (conn src)\<lparr>out := inp (conn dst')\<rparr>\<rparr>, dst'))"

lemma deliver_head:
  assumes "wire src (m # ms)" and "\<not> shut (conn dst)"
  shows "deliver src dst now =
     map_option (\<lambda>dst'. (src\<lparr>conn := (conn src)\<lparr>out := inp (conn dst')\<rparr>\<rparr>, dst'))
       (handleFrame (dst\<lparr>conn := (conn dst)\<lparr>inp := concat (map enc_frame (map frame_of ms))\<rparr>, lastActivity := now\<rparr>)
          (frame_of m))"
proof -
  have "ReadFrame ((conn dst)\<lparr>inp := out (conn src)\<rparr>)
      = (Inr (frame_of m), (conn dst)\<lparr>inp := concat (map enc_frame (map frame_of ms))\<rparr>)"
    using assms by (subst ReadFrame_enc_frame) (auto simp: wire_def frame_of_ok)
  then show ?thesis
    by (simp add: deliver_def readLoop_turn_def split: option.splits)
qed

lemma deliver_effect:
  assumes "wire src (m # ms)" "wire dst ns" "cc_wf dst" "fits m dst"
  shows "\<exists>src' dst' new. deliver src dst now = Some (src', dst') \<and> wire src' ms \<and> objs src' = objs src
     \<and> channels src' = channels src \<and> spawned src' = spawned src \<and> nextID src' = nextID src
     \<and> wire dst' (ns @ new) \<and> cc_wf dst' \<and> nextID dst' = nextID dst \<and> spawned dst' = spawned dst
     \<and> recv_effect m dst new dst'"
proof -
  define bs where "bs = concat (map enc_frame (map frame_of ms))"
  let ?d = "dst\<lparr>conn := (conn dst)\<lparr>inp := bs\<rparr>, lastActivity := now\<rparr>"
  have o: "objs ?d = objs dst" "channels ?d = channels dst" by simp_all
  have wf: "cc_wf ?d" using assms(3) cc_wf_cong [OF o] by simp
  have w: "wire ?d ns" using assms(2) by (simp add: wire_def)
  have obs: "wnd x ?d = wnd x dst" "buf x ?d = buf x dst" "known x ?d = known x dst"
    "mapped x ?d = mapped x dst" "eof x ?d = eof x dst" "dest x ?d = dest x dst" for x
    using obs_cong [OF o(1)] by (simp_all add: mapped_def)
  have "fits m ?d" using assms(4) by (cases m) (simp_all add: obs)
  moreover have "msg_ok m" using assms(1) by (simp add: wire_def)
  ultimately obtain dst' new where d: "handleFrame ?d (frame_of m) = Some dst'" "wire dst' (ns @ new)"
    "cc_wf dst'" "inp (conn dst') = inp (conn ?d)" "nextID dst' = nextID ?d" "spawned dst' = spawned ?d"
    "recv_effect m ?d new dst'"
    using handle_effect [OF wf w] by blast
  have r: "recv_effect m dst new dst'"
    using d(7) by (cases m) (simp_all add: obs)
  have "\<not> shut (conn dst)" using assms(2) by (simp add: wire_def writable_def)
  from deliver_head [OF assms(1) this, of now, folded bs_def] d(1)
  have "deliver src dst now = Some (src\<lparr>conn := (conn src)\<lparr>out := inp (conn dst')\<rparr>\<rparr>, dst')"
    by simp
  moreover have "wire (src\<lparr>conn := (conn src)\<lparr>out := inp (conn dst')\<rparr>\<rparr>) ms"
    using assms(1) d(4) by (simp add: wire_def bs_def)
  ultimately show ?thesis using d r by fastforce
qed

section \<open>What is in transit on a channel\<close>

fun data1 :: "u32 \<Rightarrow> msg \<Rightarrow> bytes" where
  "data1 x (MData i b) = (if i = x then b else [])"
| "data1 x _ = []"

fun upd1 :: "u32 \<Rightarrow> msg \<Rightarrow> nat" where
  "upd1 x (MUpd i n) = (if i = x then n else 0)"
| "upd1 x _ = 0"

fun msg_id :: "msg \<Rightarrow> u32 option" where
  "msg_id (MNew i _) = Some i"
| "msg_id (MData i _) = Some i"
| "msg_id (MClose i) = Some i"
| "msg_id (MUpd i _) = Some i"
| "msg_id _ = None"

fun is_new :: "msg \<Rightarrow> bool" where
  "is_new (MNew _ _) = True"
| "is_new _ = False"

definition data :: "u32 \<Rightarrow> msg list \<Rightarrow> bytes" where
  "data x ms = concat (map (data1 x) ms)"

definition upds :: "u32 \<Rightarrow> msg list \<Rightarrow> nat" where
  "upds x ms = sum_list (map (upd1 x) ms)"

definition about :: "u32 \<Rightarrow> msg list \<Rightarrow> msg list" where
  "about x ms = filter (\<lambda>m. msg_id m = Some x) ms"

lemma transit_simps [simp]:
  "data x [] = []" "data x (m # ms) = data1 x m @ data x ms" "data x (ms @ ns) = data x ms @ data x ns"
  "upds x [] = 0" "upds x (m # ms) = upd1 x m + upds x ms" "upds x (ms @ ns) = upds x ms + upds x ns"
  "about x [] = []" "about x (m # ms) = (if msg_id m = Some x then m # about x ms else about x ms)"
  "about x (ms @ ns) = about x ms @ about x ns"
  by (simp_all add: data_def upds_def about_def)

lemma about_nil_transit: "about x ms = [] \<Longrightarrow> data x ms = [] \<and> upds x ms = 0"
proof (induction ms)
  case (Cons m ms)
  then show ?case by (cases m) (auto split: if_splits)
qed simp

lemma quiet_transit:
  assumes "\<forall>m\<in>set new. (\<exists>i. m = MClose i \<and> P i) \<or> (\<exists>b. m = MPing b)"
  shows "data x new = []" "upds x new = 0" "\<not> P x \<Longrightarrow> about x new = []"
proof -
  show "data x new = []" "upds x new = 0" using assms by (induction new) auto
  show "about x new = []" if "\<not> P x"
    using assms that by (induction new) auto
qed

lemma pong_transit:
  assumes "\<forall>m\<in>set new. \<exists>b. m = MPong b"
  shows "data x new = []" "upds x new = 0" "about x new = []"
  using assms by (induction new) auto


section \<open>The invariant of one direction of a channel\<close>

text \<open>
  For the direction from \<open>A\<close> to \<open>B\<close>: the credit of the writer, the bytes in
  transit, the bytes buffered at the reader and the credit on its way back never
  exceed one window; what was read and is buffered is a prefix of what was
  written, and as long as the reader has the channel mapped (or has not heard of
  it yet) nothing is missing. While both ends have the channel no credit is lost:
  the four add up to exactly one window.
\<close>

definition dir_inv ::
  "u32 \<Rightarrow> ctrl_conn \<Rightarrow> msg list \<Rightarrow> ctrl_conn \<Rightarrow> msg list \<Rightarrow> bytes \<Rightarrow> bytes \<Rightarrow> bool" where
  "dir_inv x A msA B msB wrote got \<longleftrightarrow>
     0 \<le> wnd x A
     \<and> wnd x A + int (length (data x msA)) + int (length (buf x B)) + int (upds x msB) \<le> 65536
     \<and> prefix (got @ buf x B) wrote
     \<and> (mapped x B \<or> \<not> known x B \<longrightarrow> got @ buf x B @ data x msA = wrote)
     \<and> (mapped x A \<and> (mapped x B \<or> \<not> known x B) \<longrightarrow>
          wnd x A + int (length (data x msA)) + int (length (buf x B)) + int (upds x msB) = 65536)"

fun log_write :: "event \<Rightarrow> (u32 \<Rightarrow> bytes) \<Rightarrow> u32 \<Rightarrow> bytes" where
  "log_write (EvWrite i c) l = l(i := l i @ c)"
| "log_write _ l = l"

fun log_read :: "event \<Rightarrow> (u32 \<Rightarrow> bytes) \<Rightarrow> u32 \<Rightarrow> bytes" where
  "log_read (EvRead i c) l = l(i := l i @ c)"
| "log_read _ l = l"

lemma dir_inv_writer:
  assumes "dir_inv x A msA B msB (wl x) rl" and "effect ev A new A'"
  shows "dir_inv x A' (msA @ new) B msB (log_write ev wl x) rl"
proof (cases ev)
  case EvQuiet
  with assms quiet_transit [of new "\<lambda>i. known i A" x] show ?thesis by (auto simp: dir_inv_def)
qed (use assms in \<open>auto simp: dir_inv_def prefix_def\<close>)

lemma dir_inv_reader:
  assumes "dir_inv x A msA B msB wl (rl x)" and "effect ev B new B'" and "\<forall>x. known x B' = known x B"
  shows "dir_inv x A msA B' (msB @ new) wl (log_read ev rl x)"
proof (cases ev)
  case (EvRead i c)
  define r where "r = (if x = i then c else [])"
  have "buf x B = r @ buf x B'" "upds x new = length r" "data x new = []" "log_read ev rl x = rl x @ r"
    "mapped x B' = mapped x B" "known x B' = known x B"
    using assms(2,3) EvRead by (auto simp: r_def)
  with assms(1) show ?thesis by (auto simp: dir_inv_def)
next
  case EvQuiet
  with assms quiet_transit [of new "\<lambda>i. known i B" x] show ?thesis by (auto simp: dir_inv_def)
qed (use assms in \<open>auto simp: dir_inv_def\<close>)

lemma dir_inv_forward:
  assumes "dir_inv x A (m # msA) B msB wl rl" and "recv_effect m B new B'"
    and "msg_id m = Some x \<Longrightarrow> is_new m = (\<not> known x B)"
  shows "dir_inv x A msA B' (msB @ new) wl rl"
  using assms
proof (cases m)
  case (MData i b)
  with assms show ?thesis by (cases "x = i") (auto simp: dir_inv_def)
qed (auto simp: dir_inv_def pong_transit)

lemma dir_inv_back:
  assumes "dir_inv x A msA B (m # msB) wl rl" and "recv_effect m A new A'"
    and "is_new m \<Longrightarrow> msg_id m = Some x \<Longrightarrow> data x msA = [] \<and> buf x B = [] \<and> upds x msB = 0"
  shows "dir_inv x A' (msA @ new) B msB wl rl"
  using assms
proof (cases m)
  case (MUpd i n)
  with assms show ?thesis by (cases "x = i") (auto simp: dir_inv_def)
qed (auto simp: dir_inv_def pong_transit)

section \<open>The life of a channel id\<close>

text \<open>
  An id is used once: unknown to both ends, then announced by the server with the
  \<^verbatim>\<open>NewChannel\<close> frame ahead of everything else about it, then known to both.
\<close>

definition life ::
  "u32 \<Rightarrow> ctrl_conn \<Rightarrow> msg list \<Rightarrow> ctrl_conn \<Rightarrow> msg list \<Rightarrow> bytes \<Rightarrow> bytes \<Rightarrow> bytes \<Rightarrow> bytes \<Rightarrow> bool" where
  "life x S msS C msC wroteS gotS wroteC gotC \<longleftrightarrow>
     (\<not> known x S \<longrightarrow> \<not> known x C \<and> about x msS = [] \<and> wroteS = [])
     \<and> (\<not> known x C \<longrightarrow> about x msC = [] \<and> buf x S = [] \<and> upds x msS = 0 \<and> wroteC = [] \<and> gotS = [] \<and> gotC = [])
     \<and> (known x S \<and> \<not> known x C \<longrightarrow>
          (\<exists>t r. about x msS = MNew x t # r \<and> (\<forall>m\<in>set r. \<not> is_new m)))
     \<and> (known x C \<longrightarrow> known x S \<and> (\<forall>m\<in>set (about x msS). \<not> is_new m))
     \<and> (\<forall>m\<in>set msC. \<not> is_new m)"

lemma effect_about:
  assumes "effect ev cc new cc'"
  shows "\<forall>m\<in>set new. \<not> is_new m" and "\<not> known x cc \<Longrightarrow> about x new = []"
proof -
  show "\<forall>m\<in>set new. \<not> is_new m"
    using assms by (cases ev) (auto split: if_splits)
  show "about x new = []" if "\<not> known x cc"
  proof (cases ev)
    case EvQuiet
    with assms that quiet_transit(3) [of new "\<lambda>i. known i cc" x] show ?thesis by auto
  qed (use assms that in \<open>auto split: if_splits\<close>)
qed

lemma effect_logs:
  assumes "effect ev cc new cc'" and "\<not> known x cc"
  shows "log_write ev l x = l x" "log_read ev l x = l x"
  using assms by (cases ev; auto)+

lemma about_no_new: "\<forall>m\<in>set ms. \<not> is_new m \<Longrightarrow> \<forall>m\<in>set (about x ms). \<not> is_new m"
  by (auto simp: about_def)

lemma life_srv_local:
  assumes "life x S msS C msC (wS x) (gS x) wC gC" and "effect ev S new S'" and "\<forall>x. known x S' = known x S"
    and "buf x S = [] \<Longrightarrow> buf x S' = [] \<and> upds x new = 0 \<and> log_read ev gS x = gS x"
  shows "life x S' (msS @ new) C msC (log_write ev wS x) (log_read ev gS x) wC gC"
proof -
  note nn = about_no_new [OF effect_about(1) [OF assms(2)], of x]
  show ?thesis
  proof (cases "known x S")
    case False
    then show ?thesis
      using assms(1,3,4) effect_about(2) [OF assms(2) False] effect_logs [OF assms(2) False]
      by (auto simp: life_def)
  next
    case True
    then show ?thesis
      using assms(1,3,4) nn by (fastforce simp: life_def)
  qed
qed

lemma life_cli_local:
  assumes "life x S msS C msC wS gS (wC x) (gC x)" and "effect ev C new C'" and "\<forall>x. known x C' = known x C"
  shows "life x S msS C' (msC @ new) wS gS (log_write ev wC x) (log_read ev gC x)"
proof (cases "known x C")
  case False
  then show ?thesis
    using assms(1,3) effect_about [OF assms(2)] effect_logs [OF assms(2) False]
    by (auto simp: life_def)
next
  case True
  then show ?thesis
    using assms(1,3) effect_about(1) [OF assms(2)] by (auto simp: life_def)
qed

lemma life_to_cli:
  assumes "life x S (m # msS) C msC wS gS wC gC" and "recv_effect m C new C'"
  shows "life x S msS C' (msC @ new) wS gS wC gC"
proof (cases m)
  case (MNew i t)
  then show ?thesis using assms by (cases "x = i") (auto simp: life_def)
qed (use assms in \<open>auto simp: life_def pong_transit split: if_splits\<close>)

lemma life_to_srv:
  assumes "life x S msS C (m # msC) wS gS wC gC" and "recv_effect m S new S'"
  shows "life x S' (msS @ new) C msC wS gS wC gC"
proof (cases m)
  case (MNew i t)
  then show ?thesis using assms by (auto simp: life_def)
qed (use assms in \<open>auto simp: life_def pong_transit split: if_splits\<close>)

lemma effect_empty_buf:
  assumes "effect ev cc new cc'" and "buf x cc = []"
  shows "buf x cc' = [] \<and> upds x new = 0 \<and> log_read ev g x = g x"
proof (cases ev)
  case (EvRead i c)
  with assms show ?thesis by (cases "x = i") (auto split: if_splits)
next
  case EvQuiet
  with assms quiet_transit [of new "\<lambda>i. known i cc" x] show ?thesis by auto
qed (use assms in auto)


section \<open>The link\<close>

record link =
  srv :: ctrl_conn
  cli :: ctrl_conn
  wrote_srv :: "u32 \<Rightarrow> bytes"
  got_srv :: "u32 \<Rightarrow> bytes"
  wrote_cli :: "u32 \<Rightarrow> bytes"
  got_cli :: "u32 \<Rightarrow> bytes"

text \<open>
  The server may open a channel as long as its id counter has not come back to an
  id it has used on this connection (the counter has 32 bits). A frame is taken
  off the transport when it has arrived completely and the receiver's read loop is
  not parked.
\<close>

definition arrived :: "ctrl_conn \<Rightarrow> bool" where
  "arrived src \<longleftrightarrow> (case dec_frame (out (conn src)) of Inl _ \<Rightarrow> False | Inr _ \<Rightarrow> True)"

inductive link_step :: "link \<Rightarrow> link \<Rightarrow> bool" where
  open_channel: "length t < 65530 \<Longrightarrow> \<not> known (nextID (srv s)) (srv s) \<Longrightarrow>
     OpenChannel (srv s) t = (Inr p, S') \<Longrightarrow> link_step s (s\<lparr>srv := S'\<rparr>)"
| srv_local: "local_step (srv s) ev S' \<Longrightarrow>
     link_step s (s\<lparr>srv := S', wrote_srv := log_write ev (wrote_srv s), got_srv := log_read ev (got_srv s)\<rparr>)"
| cli_local: "local_step (cli s) ev C' \<Longrightarrow>
     link_step s (s\<lparr>cli := C', wrote_cli := log_write ev (wrote_cli s), got_cli := log_read ev (got_cli s)\<rparr>)"
| to_cli: "arrived (srv s) \<Longrightarrow> parked (cli s) = None \<Longrightarrow> deliver (srv s) (cli s) now = Some (S', C') \<Longrightarrow>
     link_step s (s\<lparr>srv := S', cli := C'\<rparr>)"
| to_srv: "arrived (cli s) \<Longrightarrow> parked (srv s) = None \<Longrightarrow> deliver (cli s) (srv s) now = Some (C', S') \<Longrightarrow>
     link_step s (s\<lparr>srv := S', cli := C'\<rparr>)"

definition link_init :: "link \<Rightarrow> bool" where
  "link_init s \<longleftrightarrow>
     (\<exists>t1 t2. s = \<lparr>srv = NewCtrlConn (new_conn []) t1, cli = NewCtrlConn (new_conn []) t2,
        wrote_srv = (\<lambda>_. []), got_srv = (\<lambda>_. []), wrote_cli = (\<lambda>_. []), got_cli = (\<lambda>_. [])\<rparr>)"

definition link_rel :: "link \<Rightarrow> msg list \<Rightarrow> msg list \<Rightarrow> bool" where
  "link_rel s msS msC \<longleftrightarrow>
     wire (srv s) msS \<and> wire (cli s) msC \<and> cc_wf (srv s) \<and> cc_wf (cli s)
     \<and> spawned (srv s) = [] \<and> spawned (cli s) = []
     \<and> (\<forall>x. life x (srv s) msS (cli s) msC (wrote_srv s x) (got_srv s x) (wrote_cli s x) (got_cli s x))
     \<and> (\<forall>x. dir_inv x (srv s) msS (cli s) msC (wrote_srv s x) (got_cli s x))
     \<and> (\<forall>x. dir_inv x (cli s) msC (srv s) msS (wrote_cli s x) (got_srv s x))"

definition link_inv :: "link \<Rightarrow> bool" where
  "link_inv s \<longleftrightarrow> (\<exists>msS msC. link_rel s msS msC)"

lemma dir_inv_bounded:
  assumes "\<forall>x. dir_inv x A msA B msB (w x) (g x)" and "\<forall>x. dir_inv x B msB A msA (w' x) (g' x)"
  shows "bounded A" and "bounded B"
proof -
  have "0 \<le> wnd x A \<and> wnd x A \<le> 65536 \<and> length (buf x B) \<le> 65536
     \<and> 0 \<le> wnd x B \<and> wnd x B \<le> 65536 \<and> length (buf x A) \<le> 65536" for x
    using assms(1) [THEN spec, of x] assms(2) [THEN spec, of x] unfolding dir_inv_def by linarith
  then show "bounded A" "bounded B" by (auto simp: bounded_def)
qed

lemma link_init_inv: "link_init s \<Longrightarrow> link_inv s"
  unfolding link_inv_def
  by (intro exI [of _ "[]"])
     (auto simp: link_init_def link_rel_def NewCtrlConn_def wire_def cc_wf_def uniq_def life_def
       dir_inv_def obs_defs view_def mapped_def)

lemma open_effect:
  assumes "cc_wf cc" "wire cc ms" "length t < 65530" "\<not> known (nextID cc) cc"
    "OpenChannel cc t = (Inr p, cc')"
  shows "wire cc' (ms @ [MNew (nextID cc) t]) \<and> cc_wf cc' \<and> spawned cc' = spawned cc
     \<and> recv_effect (MNew (nextID cc) t) cc [] cc'"
proof -
  let ?i = "nextID cc"
  define cc1 where "cc1 = cc\<lparr>nextID := ?i + 1, objs := objs cc @ [newChannel ?i t],
      channels := AList.update ?i (length (objs cc)) (channels cc)\<rparr>"
  have "wire cc1 ms" using assms(2) by (simp add: wire_def cc1_def)
  from sendFrame_wire [OF this, of "MNew ?i t" FrameNewChannel
      "be_put32 ?i @ be_put16 (word_of_nat (length t)) @ bytes_of_string t"] assms(3)
  have cc': "wire cc' (ms @ [MNew ?i t])" "objs cc' = objs cc1" "channels cc' = channels cc1"
    "spawned cc' = spawned cc1"
    using assms(5) by (auto simp: OpenChannel_def Let_def cc1_def [symmetric])
  then have o: "objs cc' = objs cc @ [newChannel ?i t]"
    "channels cc' = AList.update ?i (length (objs cc)) (channels cc)" "spawned cc' = spawned cc"
    by (simp_all add: cc1_def)
  have none: "view cc (ch_id (newChannel ?i t)) = None"
    using assms(4) by (simp add: known_def newChannel_def)
  have v: "view cc' = (view cc)(?i \<mapsto> newChannel ?i t)"
    using view_alloc [OF o(1) none] by (simp add: newChannel_def)
  have "cc_wf cc'"
    by (rule cc_wf_alloc [OF assms(1) o(1) none]) (simp add: o(2) newChannel_def)
  then show ?thesis
    using cc'(1) o none
    by (auto simp: obs_defs v mapped_def newChannel_def defaultSendWindow_def)
qed

lemma link_open_inv:
  assumes "link_rel s msS msC" "length t < 65530" "\<not> known (nextID (srv s)) (srv s)"
    "OpenChannel (srv s) t = (Inr p, S')"
  shows "link_rel (s\<lparr>srv := S'\<rparr>) (msS @ [MNew (nextID (srv s)) t]) msC"
proof -
  let ?i = "nextID (srv s)"
  note R = assms(1) [unfolded link_rel_def]
  have e: "wire S' (msS @ [MNew ?i t]) \<and> cc_wf S' \<and> spawned S' = spawned (srv s)
      \<and> recv_effect (MNew ?i t) (srv s) [] S'"
    using R assms(2-4) by (intro open_effect) auto
  have i: "\<not> known ?i (cli s)" "about ?i msS = []" "about ?i msC = []" "wrote_srv s ?i = []"
    "wrote_cli s ?i = []" "got_srv s ?i = []" "got_cli s ?i = []" "buf ?i (srv s) = []"
    using R assms(3) by (auto simp: life_def dest!: spec [of _ ?i])
  have um: "\<not> mapped ?i (cli s)" using i(1) R mapped_known by blast
  have b: "buf ?i (cli s) = []" using i(1) by (simp add: obs_defs)
  have life: "life x S' (msS @ [MNew ?i t]) (cli s) msC (wrote_srv s x) (got_srv s x) (wrote_cli s x) (got_cli s x)" for x
  proof (cases "x = ?i")
    case True
    with R e i show ?thesis by (auto simp: life_def)
  next
    case False
    with R e show ?thesis by (auto simp: life_def)
  qed
  have sc: "dir_inv x S' (msS @ [MNew ?i t]) (cli s) msC (wrote_srv s x) (got_cli s x)" for x
  proof (cases "x = ?i")
    case True
    with i b e about_nil_transit [OF i(2)] about_nil_transit [OF i(3)] show ?thesis
      by (auto simp: dir_inv_def)
  next
    case False
    with R e show ?thesis by (auto simp: dir_inv_def)
  qed
  have cs: "dir_inv x (cli s) msC S' (msS @ [MNew ?i t]) (wrote_cli s x) (got_srv s x)" for x
  proof (cases "x = ?i")
    case True
    have "dir_inv x (cli s) msC (srv s) msS (wrote_cli s x) (got_srv s x)" using R by blast
    then show ?thesis
      using True i um e about_nil_transit [OF i(3)] by (auto simp: dir_inv_def)
  next
    case False
    with R e show ?thesis by (auto simp: dir_inv_def)
  qed
  show ?thesis using R e life sc cs by (auto simp: link_rel_def)
qed

lemma link_srv_effect:
  assumes "link_rel s msS msC"
    and e: "keeps (srv s) msS S' (msS @ new)" "spawned S' = []" "effect ev (srv s) new S'"
  shows "link_rel (s\<lparr>srv := S', wrote_srv := log_write ev (wrote_srv s),
     got_srv := log_read ev (got_srv s)\<rparr>) (msS @ new) msC"
proof -
  note R = assms(1) [unfolded link_rel_def]
  have "life x S' (msS @ new) (cli s) msC (log_write ev (wrote_srv s) x) (log_read ev (got_srv s) x)
      (wrote_cli s x) (got_cli s x)" for x
    using R e effect_empty_buf [OF e(3)] by (intro life_srv_local [of _ "srv s"]) auto
  moreover have "dir_inv x S' (msS @ new) (cli s) msC (log_write ev (wrote_srv s) x) (got_cli s x)" for x
    using R e by (intro dir_inv_writer) auto
  moreover have "dir_inv x (cli s) msC S' (msS @ new) (wrote_cli s x) (log_read ev (got_srv s) x)" for x
    using R e by (intro dir_inv_reader [of _ _ _ "srv s"]) auto
  ultimately show ?thesis using R e by (simp add: link_rel_def)
qed

lemma link_srv_local_inv:
  assumes "link_rel s msS msC" "local_step (srv s) ev S'"
  shows "\<exists>new. link_rel (s\<lparr>srv := S', wrote_srv := log_write ev (wrote_srv s),
     got_srv := log_read ev (got_srv s)\<rparr>) (msS @ new) msC"
proof -
  note R = assms(1) [unfolded link_rel_def]
  have "bounded (srv s)" using R dir_inv_bounded(1) by blast
  with local_step_effect [OF assms(2)] R link_srv_effect [OF assms(1)] show ?thesis by blast
qed

lemma link_cli_effect:
  assumes "link_rel s msS msC"
    and e: "keeps (cli s) msC C' (msC @ new)" "spawned C' = []" "effect ev (cli s) new C'"
  shows "link_rel (s\<lparr>cli := C', wrote_cli := log_write ev (wrote_cli s),
     got_cli := log_read ev (got_cli s)\<rparr>) msS (msC @ new)"
proof -
  note R = assms(1) [unfolded link_rel_def]
  have "life x (srv s) msS C' (msC @ new) (wrote_srv s x) (got_srv s x)
      (log_write ev (wrote_cli s) x) (log_read ev (got_cli s) x)" for x
    using R e by (intro life_cli_local [of _ _ _ "cli s"]) auto
  moreover have "dir_inv x C' (msC @ new) (srv s) msS (log_write ev (wrote_cli s) x) (got_srv s x)" for x
    using R e by (intro dir_inv_writer) auto
  moreover have "dir_inv x (srv s) msS C' (msC @ new) (wrote_srv s x) (log_read ev (got_cli s) x)" for x
    using R e by (intro dir_inv_reader [of _ _ _ "cli s"]) auto
  ultimately show ?thesis using R e by (simp add: link_rel_def)
qed

lemma link_cli_local_inv:
  assumes "link_rel s msS msC" "local_step (cli s) ev C'"
  shows "\<exists>new. link_rel (s\<lparr>cli := C', wrote_cli := log_write ev (wrote_cli s),
     got_cli := log_read ev (got_cli s)\<rparr>) msS (msC @ new)"
proof -
  note R = assms(1) [unfolded link_rel_def]
  have "bounded (cli s)" using R dir_inv_bounded(2) by blast
  with local_step_effect [OF assms(2)] R link_cli_effect [OF assms(1)] show ?thesis by blast
qed

text \<open>The first message in transit fits at its receiver.\<close>

lemma head_in_transit:
  assumes "wire src ms" and "arrived src"
  shows "\<exists>m ms'. ms = m # ms'"
proof -
  from assms(2) obtain f r where "dec_frame (concat (map enc_frame (map frame_of ms))) = Inr (f, r)"
    using assms(1) by (auto simp: arrived_def wire_def split: sum.splits)
  then show ?thesis
    using frame_codec.stream_head [OF wire_frames_ok [OF assms(1)]] by blast
qed

lemma dir_inv_room:
  "dir_inv x A (MData x b # ms) B msB w g \<Longrightarrow> length (buf x B) + length b \<le> 65536"
  by (auto simp: dir_inv_def)

lemma fits_cli:
  assumes "link_rel s (m # msS) msC"
  shows "fits m (cli s)" and "\<And>x. msg_id m = Some x \<Longrightarrow> is_new m = (\<not> known x (cli s))"
    and "\<And>x. is_new m \<Longrightarrow> msg_id m = Some x \<Longrightarrow>
       data x msC = [] \<and> buf x (srv s) = [] \<and> upds x msS = 0"
proof -
  note R = assms [unfolded link_rel_def]
  have l: "life x (srv s) (m # msS) (cli s) msC (wrote_srv s x) (got_srv s x) (wrote_cli s x) (got_cli s x)"
    and d: "dir_inv x (srv s) (m # msS) (cli s) msC (wrote_srv s x) (got_cli s x)"
    and b: "0 \<le> wnd x (cli s) \<and> wnd x (cli s) \<le> 65536" for x
    using R dir_inv_bounded(2) [of "srv s" "m # msS" "cli s" msC] unfolding bounded_def by blast+
  show n: "is_new m = (\<not> known x (cli s))" if "msg_id m = Some x" for x
    using l [of x] that by (cases "known x (srv s)") (auto simp: life_def)
  show "fits m (cli s)"
    using n d b by (cases m) (auto intro: dir_inv_room)
  show "data x msC = [] \<and> buf x (srv s) = [] \<and> upds x msS = 0" if "is_new m" "msg_id m = Some x" for x
    using that n [OF that(2)] l [of x] about_nil_transit [of x msC] by (auto simp: life_def)
qed

lemma fits_srv:
  assumes "link_rel s msS (m # msC)"
  shows "fits m (srv s)" and "\<not> is_new m" and "\<And>x. msg_id m = Some x \<Longrightarrow> known x (srv s)"
proof -
  note R = assms [unfolded link_rel_def]
  have l: "life x (srv s) msS (cli s) (m # msC) (wrote_srv s x) (got_srv s x) (wrote_cli s x) (got_cli s x)"
    and d: "dir_inv x (cli s) (m # msC) (srv s) msS (wrote_cli s x) (got_srv s x)"
    and b: "0 \<le> wnd x (srv s) \<and> wnd x (srv s) \<le> 65536" for x
    using R dir_inv_bounded(1) [of "srv s" msS "cli s" "m # msC"] unfolding bounded_def by blast+
  show nn: "\<not> is_new m" using l by (auto simp: life_def)
  show "known x (srv s)" if "msg_id m = Some x" for x
    using l [of x] that by (auto simp: life_def)
  show "fits m (srv s)"
    using nn d b by (cases m) (auto intro: dir_inv_room)
qed

lemma dir_inv_cong:
  assumes "objs A' = objs A" "channels A' = channels A" "objs B' = objs B" "channels B' = channels B"
  shows "dir_inv x A' msA B' msB w g = dir_inv x A msA B msB w g"
  using obs_cong [OF assms(1)] obs_cong [OF assms(3)] assms(2,4) by (simp add: dir_inv_def mapped_def)

lemma life_cong:
  assumes "objs S' = objs S" "objs C' = objs C"
  shows "life x S' msS C' msC a b c d = life x S msS C msC a b c d"
  using obs_cong [OF assms(1)] obs_cong [OF assms(2)] by (simp add: life_def)

lemma link_to_cli_inv:
  assumes "link_rel s (m # msS) msC"
  shows "\<exists>S' C' new. deliver (srv s) (cli s) now = Some (S', C')
     \<and> link_rel (s\<lparr>srv := S', cli := C'\<rparr>) msS (msC @ new)
     \<and> recv_effect m (cli s) new C' \<and> objs S' = objs (srv s) \<and> channels S' = channels (srv s)"
proof -
  note R = assms [unfolded link_rel_def]
  obtain S' C' new where e: "deliver (srv s) (cli s) now = Some (S', C')" "wire S' msS"
    "objs S' = objs (srv s)" "channels S' = channels (srv s)" "spawned S' = spawned (srv s)"
    "wire C' (msC @ new)" "cc_wf C'" "spawned C' = spawned (cli s)" "recv_effect m (cli s) new C'"
    using deliver_effect [of "srv s" m msS "cli s" msC now] R fits_cli(1) [OF assms] by blast
  have "life x S' msS C' (msC @ new) (wrote_srv s x) (got_srv s x) (wrote_cli s x) (got_cli s x)" for x
    using R e(9) life_to_cli [of x "srv s" m msS "cli s" msC] life_cong [OF e(3) refl] by blast
  moreover have "dir_inv x S' msS C' (msC @ new) (wrote_srv s x) (got_cli s x)" for x
    using R e(9) fits_cli(2) [OF assms] dir_inv_forward [of x "srv s" m msS "cli s" msC]
      dir_inv_cong [OF e(3,4) refl refl] by blast
  moreover have "dir_inv x C' (msC @ new) S' msS (wrote_cli s x) (got_srv s x)" for x
    using R e(9) fits_cli(3) [OF assms, of x] dir_inv_back [of x "cli s" msC "srv s" m msS]
      dir_inv_cong [OF refl refl e(3,4)] by blast
  ultimately show ?thesis
    using R e cc_wf_cong [OF e(3,4)]
    by (intro exI [of _ S'] exI [of _ C'] exI [of _ new]) (simp add: link_rel_def)
qed

lemma link_to_srv_inv:
  assumes "link_rel s msS (m # msC)"
  shows "\<exists>C' S' new. deliver (cli s) (srv s) now = Some (C', S')
     \<and> link_rel (s\<lparr>srv := S', cli := C'\<rparr>) (msS @ new) msC
     \<and> recv_effect m (srv s) new S' \<and> objs C' = objs (cli s) \<and> channels C' = channels (cli s)"
proof -
  note R = assms [unfolded link_rel_def]
  obtain C' S' new where e: "deliver (cli s) (srv s) now = Some (C', S')" "wire C' msC"
    "objs C' = objs (cli s)" "channels C' = channels (cli s)" "spawned C' = spawned (cli s)"
    "wire S' (msS @ new)" "cc_wf S'" "spawned S' = spawned (srv s)" "recv_effect m (srv s) new S'"
    using deliver_effect [of "cli s" m msC "srv s" msS now] R fits_srv(1) [OF assms] by blast
  have "life x S' (msS @ new) C' msC (wrote_srv s x) (got_srv s x) (wrote_cli s x) (got_cli s x)" for x
    using R e(9) life_to_srv [of x "srv s" msS "cli s" m msC] life_cong [OF refl e(3)] by blast
  moreover have "dir_inv x C' msC S' (msS @ new) (wrote_cli s x) (got_srv s x)" for x
    using R e(9) fits_srv(2,3) [OF assms] dir_inv_forward [of x "cli s" m msC "srv s" msS]
      dir_inv_cong [OF e(3,4) refl refl] by blast
  moreover have "dir_inv x S' (msS @ new) C' msC (wrote_srv s x) (got_cli s x)" for x
    using R e(9) fits_srv(2) [OF assms] dir_inv_back [of x "srv s" msS "cli s" m msC]
      dir_inv_cong [OF refl refl e(3,4)] by blast
  ultimately show ?thesis
    using R e cc_wf_cong [OF e(3,4)]
    by (intro exI [of _ C'] exI [of _ S'] exI [of _ new]) (simp add: link_rel_def)
qed

lemma link_step_inv:
  assumes "link_step s s'" and "link_inv s"
  shows "link_inv s'"
proof -
  from assms(2) obtain msS msC where R: "link_rel s msS msC" by (auto simp: link_inv_def)
  note w = R [unfolded link_rel_def]
  from assms(1) show ?thesis
  proof cases
    case (open_channel t p S')
    then show ?thesis using link_open_inv [OF R] unfolding link_inv_def by blast
  next
    case (srv_local ev S')
    then show ?thesis using link_srv_local_inv [OF R] unfolding link_inv_def by blast
  next
    case (cli_local ev C')
    then show ?thesis using link_cli_local_inv [OF R] unfolding link_inv_def by blast
  next
    case (to_cli now S' C')
    then obtain m ms where "msS = m # ms" using head_in_transit w by blast
    with R link_to_cli_inv [of s m ms msC now] to_cli show ?thesis
      unfolding link_inv_def by auto
  next
    case (to_srv now C' S')
    then obtain m ms where "msC = m # ms" using head_in_transit w by blast
    with R link_to_srv_inv [of s msS m ms now] to_srv show ?thesis
      unfolding link_inv_def by auto
  qed
qed

interpretation mux: invariant_system link_init link_step link_inv
  by unfold_locales (auto intro: link_init_inv link_step_inv)

abbreviation link_reachable :: "link \<Rightarrow> bool" where
  "link_reachable \<equiv> reachable link_init link_step"

section \<open>A run\<close>

text \<open>
  The first steps of a connection: the server opens channel 1, writes three bytes
  on it, the client learns of the channel and receives them. Used to show that the
  properties below are about states that occur.
\<close>

definition demo_init :: link where
  "demo_init = \<lparr>srv = NewCtrlConn (new_conn []) 0, cli = NewCtrlConn (new_conn []) 0,
     wrote_srv = (\<lambda>_. []), got_srv = (\<lambda>_. []), wrote_cli = (\<lambda>_. []), got_cli = (\<lambda>_. [])\<rparr>"

definition demo_open :: link where
  "demo_open = demo_init\<lparr>srv := snd (OpenChannel (srv demo_init) ''web:80'')\<rparr>"

definition demo_known :: link where
  "demo_known = (case deliver (srv demo_open) (cli demo_open) 1 of
     None \<Rightarrow> demo_open | Some (S', C') \<Rightarrow> demo_open\<lparr>srv := S', cli := C'\<rparr>)"

lemma demo_open_srv:
  "srv demo_open = (NewCtrlConn (new_conn [] \<lparr>out := enc_frame (frame_of (MNew 1 ''web:80''))\<rparr>) 0)
     \<lparr>nextID := 2, objs := [newChannel 1 ''web:80''], channels := [(1, 0)]\<rparr>"
  "fst (OpenChannel (srv demo_init) ''web:80'') = Inr 0"
  by (simp_all add: demo_open_def demo_init_def OpenChannel_def NewCtrlConn_def sendFrame_writable
      maxFramePayload_def)

lemma demo_open_reachable: "link_reachable demo_open"
proof -
  have "link_init demo_init" by (auto simp: link_init_def demo_init_def)
  moreover have "link_step demo_init (demo_init\<lparr>srv := snd (OpenChannel (srv demo_init) ''web:80'')\<rparr>)"
  proof (rule link_step.open_channel)
    show "OpenChannel (srv demo_init) ''web:80'' = (Inr 0, snd (OpenChannel (srv demo_init) ''web:80''))"
      using demo_open_srv(2) by (metis prod.collapse)
  qed (simp_all add: demo_init_def NewCtrlConn_def known_def view_def)
  ultimately show ?thesis
    unfolding demo_open_def by (blast intro: reachable_init reachable_step)
qed

lemma demo_wire: "wire (srv demo_open) [MNew 1 ''web:80'']"
  by (simp add: wire_def demo_open_srv NewCtrlConn_def)

lemma demo_deliver:
  "deliver (srv demo_open) (cli demo_open) 1 =
     Some (NewCtrlConn (new_conn []) 0 \<lparr>nextID := 2, objs := [newChannel 1 ''web:80''], channels := [(1, 0)]\<rparr>,
           NewCtrlConn (new_conn []) 1 \<lparr>objs := [newChannel 1 ''web:80''], channels := [(1, 0)], newCh := [0]\<rparr>)"
proof -
  let ?d = "NewCtrlConn (new_conn []) 1"
  have "cli demo_open = NewCtrlConn (new_conn []) 0" by (simp add: demo_open_def demo_init_def)
  then have "deliver (srv demo_open) (cli demo_open) 1 =
      map_option (\<lambda>d. ((srv demo_open)\<lparr>conn := (conn (srv demo_open))\<lparr>out := inp (conn d)\<rparr>\<rparr>, d))
        (handleFrame ?d (frame_of (MNew 1 ''web:80'')))"
    by (subst deliver_head [OF demo_wire]) (simp_all add: NewCtrlConn_def)
  also have "handleFrame ?d (frame_of (MNew 1 ''web:80'')) =
      Some (?d\<lparr>objs := [newChannel 1 ''web:80''], channels := [(1, 0)], newCh := [0]\<rparr>)"
    by (simp add: handleFrame_def handleNewChannel_def NewCtrlConn_def newCh_cap_def Let_def unat_of_nat)
  finally show ?thesis by (simp add: demo_open_srv NewCtrlConn_def new_conn_def)
qed

lemma demo_known_reachable: "link_reachable demo_known"
proof (rule reachable_step [OF demo_open_reachable])
  have "arrived (srv demo_open)"
  proof -
    have "dec_frame (enc_frame (frame_of (MNew 1 ''web:80'')) @ []) = Inr (frame_of (MNew 1 ''web:80''), [])"
      by (rule frame_codec.dec_enc) (rule frame_of_ok, simp)
    then show ?thesis by (simp add: arrived_def demo_open_srv NewCtrlConn_def)
  qed
  moreover have "parked (cli demo_open) = None"
    by (simp add: demo_open_def demo_init_def NewCtrlConn_def)
  ultimately show "link_step demo_open demo_known"
    unfolding demo_known_def using demo_deliver by (auto intro: link_step.to_cli)
qed

lemma demo_known_ends:
  "srv demo_known = NewCtrlConn (new_conn []) 0 \<lparr>nextID := 2, objs := [newChannel 1 ''web:80''], channels := [(1, 0)]\<rparr>"
  "cli demo_known = NewCtrlConn (new_conn []) 1 \<lparr>objs := [newChannel 1 ''web:80''], channels := [(1, 0)], newCh := [0]\<rparr>"
  by (simp_all add: demo_known_def demo_deliver)

text \<open>Three bytes are written by the server and delivered to the client's buffer.\<close>

definition demo_sent :: link where
  "demo_sent = demo_known
     \<lparr>srv := snd (write_turn (srv demo_known) 0 [1, 2, 3]), wrote_srv := (wrote_srv demo_known)(1 := [1, 2, 3]),
        got_srv := got_srv demo_known\<rparr>"

definition demo_got :: link where
  "demo_got = (case deliver (srv demo_sent) (cli demo_sent) 2 of
     None \<Rightarrow> demo_sent | Some (S', C') \<Rightarrow> demo_sent\<lparr>srv := S', cli := C'\<rparr>)"

lemma demo_sent_srv:
  "srv demo_sent = NewCtrlConn (new_conn [] \<lparr>out := enc_frame (frame_of (MData 1 [1, 2, 3]))\<rparr>) 0
     \<lparr>nextID := 2, objs := [newChannel 1 ''web:80'' \<lparr>sendWindow := 65533\<rparr>], channels := [(1, 0)]\<rparr>"
  "fst (write_turn (srv demo_known) 0 [1, 2, 3]) = TSent 3"
  by (simp_all add: demo_sent_def demo_known_ends write_turn_def newChannel_def defaultSendWindow_def
      NewCtrlConn_def sendFrame_writable maxFramePayload_def upd_ch_def Let_def)

lemma demo_logs:
  "wrote_srv demo_known = (\<lambda>_. [])" "wrote_srv demo_sent 1 = [1, 2, 3]"
proof -
  have "wrote_srv demo_open = (\<lambda>_. [])" by (simp add: demo_open_def demo_init_def)
  then show "wrote_srv demo_known = (\<lambda>_. [])" by (simp add: demo_known_def demo_deliver)
  then show "wrote_srv demo_sent 1 = [1, 2, 3]" by (simp add: demo_sent_def)
qed

lemma demo_sent_reachable: "link_reachable demo_sent"
proof (rule reachable_step [OF demo_known_reachable])
  have "local_step (srv demo_known) (EvWrite (ch_id (objs (srv demo_known) ! 0)) (take 3 [1, 2, 3]))
      (snd (write_turn (srv demo_known) 0 [1, 2, 3]))"
    by (rule ls_write) (simp_all add: prod_eq_iff demo_sent_srv(2), simp add: demo_known_ends)
  from link_step.srv_local [OF this] show "link_step demo_known demo_sent"
    by (simp add: demo_sent_def demo_known_ends newChannel_def demo_logs)
qed

lemma demo_sent_wire: "wire (srv demo_sent) [MData 1 [1, 2, 3]]"
  by (simp add: wire_def demo_sent_srv NewCtrlConn_def)

lemma demo_sent_arrived: "arrived (srv demo_sent)"
proof -
  have "dec_frame (enc_frame (frame_of (MData 1 [1, 2, 3])) @ []) = Inr (frame_of (MData 1 [1, 2, 3]), [])"
    by (rule frame_codec.dec_enc) (rule frame_of_ok, simp)
  then show ?thesis by (simp add: arrived_def demo_sent_srv NewCtrlConn_def)
qed

lemma demo_got_deliver:
  "deliver (srv demo_sent) (cli demo_sent) 2 =
     Some (NewCtrlConn (new_conn []) 0
             \<lparr>nextID := 2, objs := [newChannel 1 ''web:80'' \<lparr>sendWindow := 65533\<rparr>], channels := [(1, 0)]\<rparr>,
           NewCtrlConn (new_conn []) 2
             \<lparr>objs := [newChannel 1 ''web:80'' \<lparr>rb := [1, 2, 3]\<rparr>], channels := [(1, 0)], newCh := [0]\<rparr>)"
proof -
  let ?d = "NewCtrlConn (new_conn []) 2 \<lparr>objs := [newChannel 1 ''web:80''], channels := [(1, 0)], newCh := [0]\<rparr>"
  have "cli demo_sent = NewCtrlConn (new_conn []) 1
      \<lparr>objs := [newChannel 1 ''web:80''], channels := [(1, 0)], newCh := [0]\<rparr>"
    by (simp add: demo_sent_def demo_known_ends)
  then have "deliver (srv demo_sent) (cli demo_sent) 2 =
      map_option (\<lambda>d. ((srv demo_sent)\<lparr>conn := (conn (srv demo_sent))\<lparr>out := inp (conn d)\<rparr>\<rparr>, d))
        (handleFrame ?d (frame_of (MData 1 [1, 2, 3])))"
    by (subst deliver_head [OF demo_sent_wire]) (simp_all add: NewCtrlConn_def)
  also have "handleFrame ?d (frame_of (MData 1 [1, 2, 3])) =
      Some (?d\<lparr>objs := [newChannel 1 ''web:80'' \<lparr>rb := [1, 2, 3]\<rparr>]\<rparr>)"
    by (simp add: handleFrame_def frame_type_defs handleChannelData_def pushData_def NewCtrlConn_def
        maxReceiveBuffer_def upd_ch_def newChannel_def)
  finally show ?thesis by (simp add: demo_sent_srv NewCtrlConn_def new_conn_def)
qed

lemma demo_got_reachable: "link_reachable demo_got"
proof (rule reachable_step [OF demo_sent_reachable])
  have "parked (cli demo_sent) = None"
    by (simp add: demo_sent_def demo_known_ends NewCtrlConn_def)
  with demo_sent_arrived show "link_step demo_sent demo_got"
    unfolding demo_got_def using demo_got_deliver by (auto intro: link_step.to_cli)
qed

lemma demo_got_ends:
  "srv demo_got = NewCtrlConn (new_conn []) 0
     \<lparr>nextID := 2, objs := [newChannel 1 ''web:80'' \<lparr>sendWindow := 65533\<rparr>], channels := [(1, 0)]\<rparr>"
  "cli demo_got = NewCtrlConn (new_conn []) 2
     \<lparr>objs := [newChannel 1 ''web:80'' \<lparr>rb := [1, 2, 3]\<rparr>], channels := [(1, 0)], newCh := [0]\<rparr>"
  "wrote_srv demo_got 1 = [1, 2, 3]"
  using demo_logs(2) by (simp_all add: demo_got_def demo_got_deliver)

section \<open>Properties of every run\<close>

lemma enc_frames_nil: "wire cc ms \<Longrightarrow> out (conn cc) = [] \<longleftrightarrow> ms = []"
  by (cases ms) (auto simp: wire_def enc_frame_def)

lemma link_rel_reachable: "link_reachable s \<Longrightarrow> \<exists>msS msC. link_rel s msS msC"
  using mux.reachable_inv link_inv_def by blast

lemma bounded_nth:
  assumes "cc_wf cc" "bounded cc" "ch \<in> set (objs cc)"
  shows "0 \<le> sendWindow ch \<and> sendWindow ch \<le> 65536 \<and> length (rb ch) \<le> 65536"
proof -
  from assms(3) obtain p where p: "p < length (objs cc)" "ch = objs cc ! p"
    by (auto simp: in_set_conv_nth)
  then show ?thesis
    using obs_nth(1,2) [OF assms(1) p(1)] assms(2) unfolding bounded_def by metis
qed

text \<open>
  C4: Flow control is safe. In every state two endpoints can reach, however their
  goroutines interleave, each channel's send window is between zero and
  \<^verbatim>\<open>defaultSendWindow\<close>, its receive buffer holds at most one window of bytes, and
  the overflow safety net of \<^verbatim>\<open>pushData\<close> has closed no channel.
\<close>

theorem flow_control_safe:
  assumes "link_reachable s" and "cc \<in> {srv s, cli s}" and "ch \<in> set (objs cc)"
  shows "0 \<le> sendWindow ch \<and> sendWindow ch \<le> defaultSendWindow
     \<and> int (length (rb ch)) \<le> defaultSendWindow \<and> length (rb ch) \<le> maxReceiveBuffer \<and> spawned cc = []"
proof -
  obtain msS msC where R: "link_rel s msS msC" using link_rel_reachable [OF assms(1)] by blast
  then have "cc_wf cc" "spawned cc = []" using assms(2) by (auto simp: link_rel_def)
  moreover have "bounded cc"
    using R assms(2) dir_inv_bounded [of "srv s" msS "cli s" msC] unfolding link_rel_def by blast
  ultimately show ?thesis
    using bounded_nth assms(3) by (fastforce simp: defaultSendWindow_def maxReceiveBuffer_def)
qed

theorem flow_control_safe_witness:
  "link_reachable demo_sent \<and> (\<exists>ch\<in>set (objs (srv demo_sent)). 0 \<le> sendWindow ch
     \<and> sendWindow ch \<le> defaultSendWindow \<and> length (rb ch) \<le> maxReceiveBuffer)"
proof -
  let ?ch = "newChannel 1 ''web:80'' \<lparr>sendWindow := 65533\<rparr>"
  have ch: "?ch \<in> set (objs (srv demo_sent))" by (simp add: demo_sent_srv)
  show ?thesis
    using flow_control_safe [OF demo_sent_reachable _ ch] demo_sent_reachable ch by blast
qed

text \<open>
  C2: Every channel is a FIFO byte stream in both directions. In every reachable
  state, what one end's application has read on a channel is a prefix of what the
  other end's application has written on it: nothing is reordered, duplicated,
  invented or delivered to another channel.
\<close>

theorem channel_fifo:
  assumes "link_reachable s"
  shows "prefix (got_cli s x) (wrote_srv s x) \<and> prefix (got_srv s x) (wrote_cli s x)"
  using link_rel_reachable [OF assms] unfolding link_rel_def dir_inv_def
  by (meson append_prefixD)

theorem channel_fifo_witness:
  "link_reachable demo_got \<and> prefix (got_cli demo_got 1) (wrote_srv demo_got 1) \<and> wrote_srv demo_got 1 \<noteq> []"
  using channel_fifo [OF demo_got_reachable, of 1] demo_got_reachable demo_got_ends(3) by simp

text \<open>
  C6: Nothing is lost. Once the transport towards a reader that still has the
  channel in its table is empty, the bytes its application has read followed by the
  bytes in its buffer are exactly the bytes the other application wrote.
\<close>

theorem channel_no_loss:
  assumes "link_reachable s"
  shows "(mapped x (cli s) \<and> out (conn (srv s)) = [] \<longrightarrow> got_cli s x @ buf x (cli s) = wrote_srv s x)
     \<and> (mapped x (srv s) \<and> out (conn (cli s)) = [] \<longrightarrow> got_srv s x @ buf x (srv s) = wrote_cli s x)"
proof -
  obtain msS msC where "link_rel s msS msC" using link_rel_reachable [OF assms] by blast
  then show ?thesis
    using enc_frames_nil [of "srv s" msS] enc_frames_nil [of "cli s" msC]
    by (auto simp: link_rel_def dir_inv_def)
qed

theorem channel_no_loss_witness: "got_cli demo_got 1 @ buf 1 (cli demo_got) = [1, 2, 3]"
  using channel_no_loss [OF demo_got_reachable, of 1]
  by (simp add: demo_got_ends mapped_def NewCtrlConn_def new_conn_def)





end
