(* ===== verification/Relay_Copy.thy ===== *)
theory Relay_Copy
  imports Net_Conn
begin

text \<open>
  Copying between two connections (\<^verbatim>\<open>relay/relay.go\<close>): one goroutine per direction,
  each a loop of \<^verbatim>\<open>io.CopyBuffer\<close> that ends with closing the write side of its
  destination. A turn of a loop is a function; the two goroutines are a step
  relation.
\<close>

section \<open>Connections with a write side\<close>

text \<open>
  \<^verbatim>\<open>closeWrite\<close> looks at the dynamic type: a TCP connection or anything else with a
  \<^verbatim>\<open>CloseWrite\<close> method is half closed, everything else is closed.
\<close>

datatype conn_kind = TCPConn | HalfCloser | OtherConn

record endpoint =
  ep_conn :: net_conn
  ep_kind :: conn_kind
  ep_wclosed :: bool

definition closeWrite :: "endpoint \<Rightarrow> endpoint" where
  "closeWrite c =
     (case ep_kind c of
        TCPConn \<Rightarrow> c\<lparr>ep_wclosed := True\<rparr>
      | HalfCloser \<Rightarrow> c\<lparr>ep_wclosed := True\<rparr>
      | OtherConn \<Rightarrow> c\<lparr>ep_conn := conn_Close (ep_conn c)\<rparr>)"

definition ep_Write :: "endpoint \<Rightarrow> bytes \<Rightarrow> error option \<times> endpoint" where
  "ep_Write c b =
     (if ep_wclosed c then (Some (SysError ''broken pipe''), c)
      else case conn_Write (ep_conn c) b of (e, c') \<Rightarrow> (e, c\<lparr>ep_conn := c'\<rparr>))"

text \<open>One \<^verbatim>\<open>Read\<close> into a buffer, of which the network fills \<open>k\<close> bytes at most.\<close>

definition ep_Read :: "endpoint \<Rightarrow> nat \<Rightarrow> (bytes \<times> error option) \<times> endpoint" where
  "ep_Read c k =
     (let n = ep_conn c in
      if shut n then (([], Some ErrNetClosed), c)
      else if inp n = [] then (([], Some (rend n)), c)
      else ((take k (inp n), None), c\<lparr>ep_conn := n\<lparr>inp := drop k (inp n)\<rparr>\<rparr>))"


section \<open>One direction\<close>

definition bufferSize :: nat where "bufferSize = 32 * 1024"

record half =
  h_n :: int
  h_err :: "error option"
  h_done :: bool

definition start_half :: half where
  "start_half = \<lparr>h_n = 0, h_err = None, h_done = False\<rparr>"

text \<open>
  One turn of \<^verbatim>\<open>io.CopyBuffer(dst, src, buf)\<close> inside a goroutine of \<^verbatim>\<open>Relay\<close>: a read
  and the write of what was read. When the loop ends, the goroutine records the
  count and the error and closes the write side of \<open>dst\<close>.
\<close>

definition copy_turn :: "nat \<Rightarrow> endpoint \<Rightarrow> endpoint \<Rightarrow> half \<Rightarrow> endpoint \<times> endpoint \<times> half" where
  "copy_turn k dst src h =
     (case ep_Read src (min k bufferSize) of
        ((b, Some err), src1) \<Rightarrow>
          (closeWrite dst, src1, h\<lparr>h_err := (if err = EOF then None else Some err), h_done := True\<rparr>)
      | ((b, None), src1) \<Rightarrow>
          (case ep_Write dst b of
             (None, dst1) \<Rightarrow> (dst1, src1, h\<lparr>h_n := wrap64 (h_n h + int (length b))\<rparr>)
           | (Some err, dst1) \<Rightarrow>
               let nw = length (out (ep_conn dst1)) - length (out (ep_conn dst)) in
               (closeWrite dst1, src1, h\<lparr>h_n := wrap64 (h_n h + int nw), h_err := Some err, h_done := True\<rparr>)))"


section \<open>Relay\<close>

record Stats =
  SentBytes :: int
  RecvBytes :: int
  SentErr :: "error option"
  RecvErr :: "error option"

definition zero_Stats :: Stats where
  "zero_Stats = \<lparr>SentBytes = 0, RecvBytes = 0, SentErr = None, RecvErr = None\<rparr>"

record relay_state =
  end_a :: endpoint
  end_b :: endpoint
  half_s :: half
  half_r :: half

definition Relay_start :: "endpoint \<Rightarrow> endpoint \<Rightarrow> relay_state" where
  "Relay_start a b = \<lparr>end_a = a, end_b = b, half_s = start_half, half_r = start_half\<rparr>"

inductive relay_step :: "relay_state \<Rightarrow> relay_state \<Rightarrow> bool" where
  rl_send: "\<not> h_done (half_s s) \<Longrightarrow> 0 < k \<Longrightarrow> copy_turn k (end_b s) (end_a s) (half_s s) = (b, a, h) \<Longrightarrow>
    relay_step s (s\<lparr>end_a := a, end_b := b, half_s := h\<rparr>)"
| rl_recv: "\<not> h_done (half_r s) \<Longrightarrow> 0 < k \<Longrightarrow> copy_turn k (end_a s) (end_b s) (half_r s) = (a, b, h) \<Longrightarrow>
    relay_step s (s\<lparr>end_a := a, end_b := b, half_r := h\<rparr>)"

text \<open>What \<^verbatim>\<open>Relay\<close> returns once both goroutines are done; \<open>None\<close> while it waits.\<close>

definition Relay_result :: "relay_state \<Rightarrow> Stats option" where
  "Relay_result s =
     (if h_done (half_s s) \<and> h_done (half_r s)
      then Some \<lparr>SentBytes = h_n (half_s s), RecvBytes = h_n (half_r s),
                 SentErr = h_err (half_s s), RecvErr = h_err (half_r s)\<rparr>
      else None)"


section \<open>Termination\<close>

definition half_left :: "endpoint \<Rightarrow> half \<Rightarrow> nat" where
  "half_left src h = (if h_done h then 0 else Suc (length (inp (ep_conn src))))"

definition relay_left :: "relay_state \<Rightarrow> nat" where
  "relay_left s = half_left (end_a s) (half_s s) + half_left (end_b s) (half_r s)"

lemma closeWrite_inp [simp]: "inp (ep_conn (closeWrite c)) = inp (ep_conn c)"
  by (simp add: closeWrite_def conn_Close_def split: conn_kind.split)

lemma ep_Write_inp: "ep_Write c b = (e, c') \<Longrightarrow> inp (ep_conn c') = inp (ep_conn c)"
  by (auto simp: ep_Write_def conn_Write_def split: if_splits prod.splits option.splits)

text \<open>A turn makes its own direction shorter and leaves what the other one has to read.\<close>

lemma copy_turn_left:
  assumes "copy_turn k dst src h = (dst', src', h')" and "0 < k" and "\<not> h_done h"
  shows "half_left src' h' < half_left src h" and "inp (ep_conn dst') = inp (ep_conn dst)"
  using assms
  by (auto simp: copy_turn_def ep_Read_def half_left_def bufferSize_def Let_def dest: ep_Write_inp
      split: prod.splits if_splits option.splits)

lemma relay_step_left: "relay_step s t \<Longrightarrow> relay_left t < relay_left s"
proof (induction rule: relay_step.induct)
  case (rl_send s k b a h)
  from copy_turn_left [OF rl_send(3,2,1)] show ?case by (simp add: relay_left_def half_left_def [of b] half_left_def [of "end_b s"])
next
  case (rl_recv s k a b h)
  from copy_turn_left [OF rl_recv(3,2,1)] show ?case by (simp add: relay_left_def half_left_def [of a] half_left_def [of "end_a s"])
qed

lemma relay_steps_left: "(relay_step ^^ n) s t \<Longrightarrow> n + relay_left t \<le> relay_left s"
proof (induction n arbitrary: t)
  case (Suc n)
  then obtain u where "(relay_step ^^ n) s u" "relay_step u t" by auto
  with Suc.IH [of u] relay_step_left [of u t] show ?case by simp
qed simp



section \<open>Nothing is lost\<close>

text \<open>
  A connection that ends in order, accepts writes and can be half closed; with fewer
  than \<open>2 ^ 63\<close> bytes to read.
\<close>

definition healthy :: "endpoint \<Rightarrow> bool" where
  "healthy c \<longleftrightarrow> writable (ep_conn c) \<and> rend (ep_conn c) = EOF \<and> ep_kind c \<noteq> OtherConn \<and> \<not> ep_wclosed c
     \<and> length (inp (ep_conn c)) < 2 ^ 63"

text \<open>
  What holds of one direction at every moment, in terms of the streams at the start:
  what was written is what was read, and the count says how much that is.
\<close>

definition half_ok :: "endpoint \<Rightarrow> endpoint \<Rightarrow> endpoint \<Rightarrow> endpoint \<Rightarrow> half \<Rightarrow> bool" where
  "half_ok src0 dst0 src dst h \<longleftrightarrow>
     (\<exists>moved. inp (ep_conn src0) = moved @ inp (ep_conn src) \<and> out (ep_conn dst) = out (ep_conn dst0) @ moved
        \<and> h_n h = int (length moved)) \<and> h_err h = None \<and> (h_done h \<longrightarrow> inp (ep_conn src) = [])
     \<and> ep_wclosed dst = h_done h"

definition end_ok :: "endpoint \<Rightarrow> bool" where
  "end_ok c \<longleftrightarrow> writable (ep_conn c) \<and> rend (ep_conn c) = EOF \<and> ep_kind c \<noteq> OtherConn"

lemma copy_turn_ok:
  assumes "copy_turn k dst src h = (dst', src', h')" and "\<not> h_done h" and "half_ok src0 dst0 src dst h"
    and "end_ok src" and "end_ok dst" and "length (inp (ep_conn src0)) < 2 ^ 63"
  shows "half_ok src0 dst0 src' dst' h' \<and> end_ok src' \<and> end_ok dst' \<and> inp (ep_conn dst') = inp (ep_conn dst)
     \<and> out (ep_conn src') = out (ep_conn src) \<and> ep_wclosed src' = ep_wclosed src"
proof -
  obtain moved where m: "inp (ep_conn src0) = moved @ inp (ep_conn src)"
      "out (ep_conn dst) = out (ep_conn dst0) @ moved" "h_n h = int (length moved)"
      "h_err h = None" "\<not> ep_wclosed dst"
    using assms(2,3) by (auto simp: half_ok_def)
  have ok: "\<not> shut (ep_conn src)" "rend (ep_conn src) = EOF" "writable (ep_conn dst)" "ep_kind dst \<noteq> OtherConn"
    using assms(4,5) by (auto simp: end_ok_def writable_def)
  let ?b = "take (min k bufferSize) (inp (ep_conn src))"
  show ?thesis
  proof (cases "inp (ep_conn src) = []")
    case True
    then have "copy_turn k dst src h = (closeWrite dst, src, h\<lparr>h_err := None, h_done := True\<rparr>)"
      using ok by (simp add: copy_turn_def ep_Read_def)
    with assms(1,4,5) True m ok show ?thesis
      by (cases "ep_kind dst") (auto simp: half_ok_def end_ok_def closeWrite_def)
  next
    case False
    have "length (moved @ ?b) \<le> length (inp (ep_conn src0))" unfolding m(1) by simp
    then have n: "wrap64 (h_n h + int (length ?b)) = int (length (moved @ ?b))"
      using assms(6) m(3) by (subst wrap64_id) simp_all
    have "copy_turn k dst src h =
        (dst\<lparr>ep_conn := (ep_conn dst)\<lparr>out := out (ep_conn dst) @ ?b\<rparr>\<rparr>,
         src\<lparr>ep_conn := (ep_conn src)\<lparr>inp := drop (min k bufferSize) (inp (ep_conn src))\<rparr>\<rparr>,
         h\<lparr>h_n := int (length (moved @ ?b))\<rparr>)"
      using False ok m(5) n by (simp add: copy_turn_def ep_Read_def ep_Write_def Let_def)
    with assms(1,2,4,5) m show ?thesis
      by (auto simp: half_ok_def end_ok_def intro!: exI [of _ "moved @ ?b"])
  qed
qed

definition relay_ok :: "endpoint \<Rightarrow> endpoint \<Rightarrow> relay_state \<Rightarrow> bool" where
  "relay_ok a b s \<longleftrightarrow> half_ok a b (end_a s) (end_b s) (half_s s) \<and> half_ok b a (end_b s) (end_a s) (half_r s)
     \<and> end_ok (end_a s) \<and> end_ok (end_b s)"

lemma half_ok_cong:
  "inp (ep_conn src') = inp (ep_conn src) \<Longrightarrow> out (ep_conn dst') = out (ep_conn dst) \<Longrightarrow>
     ep_wclosed dst' = ep_wclosed dst \<Longrightarrow> half_ok src0 dst0 src' dst' h = half_ok src0 dst0 src dst h"
  by (simp add: half_ok_def)

lemma relay_ok_step:
  assumes "healthy a" and "healthy b" and "relay_step s t" and "relay_ok a b s"
  shows "relay_ok a b t"
  using assms(3)
proof (cases rule: relay_step.cases)
  case (rl_send k b' a' h)
  with assms copy_turn_ok [OF rl_send(4,2), of a b] half_ok_cong [of b' "end_b s" a' "end_a s" b a "half_r s"]
  show ?thesis by (simp add: relay_ok_def healthy_def)
next
  case (rl_recv k a' b' h)
  with assms copy_turn_ok [OF rl_recv(4,2), of b a] half_ok_cong [of a' "end_a s" b' "end_b s" a b "half_s s"]
  show ?thesis by (simp add: relay_ok_def healthy_def)
qed

text \<open>
  C9: A relay between two healthy connections loses and invents nothing. Whatever the
  schedule, what one end received so far is a prefix of what the other sent; when
  Relay returns, it is all of it in both directions, the statistics count the bytes,
  no error is reported and both write sides are closed.
\<close>

theorem relay_delivers:
  assumes "healthy a" and "healthy b" and "relay_step\<^sup>*\<^sup>* (Relay_start a b) t"
  shows "(\<exists>m. out (ep_conn (end_b t)) = out (ep_conn b) @ m \<and> prefix m (inp (ep_conn a)))
     \<and> (\<exists>m. out (ep_conn (end_a t)) = out (ep_conn a) @ m \<and> prefix m (inp (ep_conn b)))
     \<and> (Relay_result t \<noteq> None \<longrightarrow>
          out (ep_conn (end_b t)) = out (ep_conn b) @ inp (ep_conn a)
          \<and> out (ep_conn (end_a t)) = out (ep_conn a) @ inp (ep_conn b)
          \<and> Relay_result t = Some \<lparr>SentBytes = int (length (inp (ep_conn a))),
               RecvBytes = int (length (inp (ep_conn b))), SentErr = None, RecvErr = None\<rparr>
          \<and> ep_wclosed (end_a t) \<and> ep_wclosed (end_b t))"
proof -
  have "relay_ok a b (Relay_start a b)"
    using assms(1,2) by (simp add: relay_ok_def half_ok_def end_ok_def healthy_def Relay_start_def start_half_def)
  with assms(3) have "relay_ok a b t"
    by (induction rule: rtranclp_induct) (auto intro: relay_ok_step [OF assms(1,2)])
  then show ?thesis by (auto simp: relay_ok_def half_ok_def Relay_result_def)
qed

definition demo_end :: "bytes \<Rightarrow> endpoint" where
  "demo_end i = \<lparr>ep_conn = new_conn i, ep_kind = TCPConn, ep_wclosed = False\<rparr>"

theorem relay_delivers_witness:
  "\<exists>t. relay_step\<^sup>*\<^sup>* (Relay_start (demo_end [1, 2]) (demo_end [])) t
     \<and> out (ep_conn (end_b t)) = [1, 2] \<and> Relay_result t \<noteq> None"
proof -
  let ?s0 = "Relay_start (demo_end [1, 2]) (demo_end [])"
  obtain b1 a1 h1 where t1: "copy_turn 5 (end_b ?s0) (end_a ?s0) (half_s ?s0) = (b1, a1, h1)" by (rule prod_cases3)
  let ?s1 = "?s0\<lparr>end_a := a1, end_b := b1, half_s := h1\<rparr>"
  obtain b2 a2 h2 where t2: "copy_turn 5 (end_b ?s1) (end_a ?s1) (half_s ?s1) = (b2, a2, h2)" by (rule prod_cases3)
  let ?s2 = "?s1\<lparr>end_a := a2, end_b := b2, half_s := h2\<rparr>"
  obtain a3 b3 h3 where t3: "copy_turn 5 (end_a ?s2) (end_b ?s2) (half_r ?s2) = (a3, b3, h3)" by (rule prod_cases3)
  let ?s3 = "?s2\<lparr>end_a := a3, end_b := b3, half_r := h3\<rparr>"
  note defs = Relay_start_def demo_end_def copy_turn_def ep_Read_def ep_Write_def bufferSize_def Let_def
    start_half_def wrap64_id
  have d1: "\<not> h_done h1" using t1 by (auto simp: defs)
  have d2: "h_done h2" using t1 t2 by (auto simp: defs)
  have d3: "h_done h3" using t1 t2 t3 by (auto simp: defs closeWrite_def)
  have st: "relay_step ?s0 ?s1" "relay_step ?s1 ?s2" "relay_step ?s2 ?s3"
    using rl_send [OF _ _ t1] rl_send [OF _ _ t2] rl_recv [OF _ _ t3] d1
    by (simp_all add: Relay_start_def start_half_def)
  then have run: "relay_step\<^sup>*\<^sup>* ?s0 ?s3" by (meson r_into_rtranclp rtranclp.rtrancl_into_rtrancl)
  have res: "Relay_result ?s3 \<noteq> None" using d2 d3 by (simp add: Relay_result_def)
  have "healthy (demo_end [1, 2])" "healthy (demo_end [])" by (simp_all add: healthy_def demo_end_def)
  from relay_delivers [OF this run] res have "out (ep_conn (end_b ?s3)) = [1, 2]" by (simp add: demo_end_def)
  with run res show ?thesis by blast
qed


end
