(* ===== verification/Relay_Side.thy ===== *)
theory Relay_Side
  imports Mux_Link Relay_Copy
begin

text \<open>
  One end of a remotely forwarded connection: \<^verbatim>\<open>Relay\<close> (\<^verbatim>\<open>relay/relay.go\<close>) between a
  TCP connection and a channel of a control connection, its two copying goroutines at
  their single steps. The theory shows what a step of a relay moves and how it
  changes the control connection it shares with every other relay, and how the end
  of a stream travels over the link: a channel reports the end of the stream only
  when all that was written at the other end has been read.
\<close>

section \<open>One relay between a connection and a channel\<close>

text \<open>
  Where the goroutine that copies from the connection to the channel is: at its
  read, at the status check at the head of \<^verbatim>\<open>channel.Write\<close>, in the loop of that
  \<^verbatim>\<open>Write\<close> with the bytes not yet sent, or past \<^verbatim>\<open>io.CopyBuffer\<close> with its error.
  The other goroutine is at its \<^verbatim>\<open>channel.Read\<close>, at the write of what it has read,
  or past the copy.
\<close>

datatype up_pc = UpReading | UpChecking bytes | UpWriting bytes | UpEnded "error option"

datatype down_pc = DownReading | DownWriting bytes | DownEnded "error option"

text \<open>
  \<open>sd_addr\<close> is the target the channel was opened for (server) or that was dialed
  (client); \<open>sd_start\<close> remembers the connection as it was when the relay began.
\<close>

record relay_side =
  sd_ch :: nat
  sd_addr :: string
  sd_ep :: endpoint
  sd_up :: up_pc
  sd_down :: down_pc
  sd_closed :: bool
  sd_start :: endpoint

definition new_side :: "nat \<Rightarrow> string \<Rightarrow> endpoint \<Rightarrow> relay_side" where
  "new_side p t c = \<lparr>sd_ch = p, sd_addr = t, sd_ep = c, sd_up = UpReading, sd_down = DownReading,
     sd_closed = False, sd_start = c\<rparr>"

text \<open>The error \<^verbatim>\<open>io.CopyBuffer\<close> returns when its source ends with \<open>err\<close>.\<close>

definition copy_err :: "error \<Rightarrow> error option" where
  "copy_err err = (if err = EOF then None else Some err)"

inductive side_step :: "ctrl_conn \<Rightarrow> relay_side \<Rightarrow> event \<Rightarrow> ctrl_conn \<Rightarrow> relay_side \<Rightarrow> bool" where
  up_read: "sd_up e = UpReading \<Longrightarrow> 0 < k \<Longrightarrow> ep_Read (sd_ep e) (min k bufferSize) = ((b, None), c) \<Longrightarrow>
     side_step cc e EvQuiet cc (e\<lparr>sd_ep := c, sd_up := UpChecking b\<rparr>)"
| up_eof: "sd_up e = UpReading \<Longrightarrow> ep_Read (sd_ep e) (min k bufferSize) = ((b, Some err), c) \<Longrightarrow>
     channel_CloseWrite cc (sd_ch e) = (r, cc') \<Longrightarrow>
     side_step cc e EvQuiet cc' (e\<lparr>sd_ep := c, sd_up := UpEnded (copy_err err)\<rparr>)"
| up_open: "sd_up e = UpChecking b \<Longrightarrow> status (objs cc ! sd_ch e) < chWriteClosed \<Longrightarrow>
     side_step cc e EvQuiet cc (e\<lparr>sd_up := UpWriting b\<rparr>)"
| up_refused: "sd_up e = UpChecking b \<Longrightarrow> status (objs cc ! sd_ch e) \<ge> chWriteClosed \<Longrightarrow>
     channel_CloseWrite cc (sd_ch e) = (r, cc') \<Longrightarrow>
     side_step cc e EvQuiet cc' (e\<lparr>sd_up := UpEnded (Some ErrClosedPipe)\<rparr>)"
| up_sent: "sd_up e = UpWriting b \<Longrightarrow> b \<noteq> [] \<Longrightarrow> write_turn cc (sd_ch e) b = (TSent n, cc') \<Longrightarrow>
     side_step cc e (EvWrite (ch_id (objs cc ! sd_ch e)) (take n b)) cc' (e\<lparr>sd_up := UpWriting (drop n b)\<rparr>)"
| up_written: "sd_up e = UpWriting [] \<Longrightarrow> side_step cc e EvQuiet cc (e\<lparr>sd_up := UpReading\<rparr>)"
| up_closed: "sd_up e = UpWriting b \<Longrightarrow> b \<noteq> [] \<Longrightarrow> write_turn cc (sd_ch e) b = (TClosed, cc1) \<Longrightarrow>
     channel_CloseWrite cc1 (sd_ch e) = (r, cc') \<Longrightarrow>
     side_step cc e EvQuiet cc' (e\<lparr>sd_up := UpEnded (Some ErrClosedPipe)\<rparr>)"
| up_failed: "sd_up e = UpWriting b \<Longrightarrow> b \<noteq> [] \<Longrightarrow> write_turn cc (sd_ch e) b = (TFailed err, cc1) \<Longrightarrow>
     channel_CloseWrite cc1 (sd_ch e) = (r, cc') \<Longrightarrow>
     side_step cc e EvQuiet cc' (e\<lparr>sd_up := UpEnded (Some err)\<rparr>)"
| down_read: "sd_down e = DownReading \<Longrightarrow>
     channel_Read cc (sd_ch e) bufferSize = (Returned (b, None), cc') \<Longrightarrow>
     side_step cc e (EvRead (ch_id (objs cc ! sd_ch e)) b) cc' (e\<lparr>sd_down := DownWriting b\<rparr>)"
| down_eof: "sd_down e = DownReading \<Longrightarrow>
     channel_Read cc (sd_ch e) bufferSize = (Returned (b, Some err), cc') \<Longrightarrow>
     side_step cc e EvQuiet cc' (e\<lparr>sd_ep := closeWrite (sd_ep e), sd_down := DownEnded (copy_err err)\<rparr>)"
| down_wrote: "sd_down e = DownWriting b \<Longrightarrow> ep_Write (sd_ep e) b = (None, c) \<Longrightarrow>
     side_step cc e EvQuiet cc (e\<lparr>sd_ep := c, sd_down := DownReading\<rparr>)"
| down_failed: "sd_down e = DownWriting b \<Longrightarrow> ep_Write (sd_ep e) b = (Some err, c) \<Longrightarrow>
     side_step cc e EvQuiet cc (e\<lparr>sd_ep := closeWrite c, sd_down := DownEnded (Some err)\<rparr>)"
| side_close: "sd_up e = UpEnded u \<Longrightarrow> sd_down e = DownEnded d \<Longrightarrow> \<not> sd_closed e \<Longrightarrow>
     channel_Close cc (sd_ch e) = (r, cc') \<Longrightarrow>
     side_step cc e EvQuiet cc'
       (e\<lparr>sd_ep := (sd_ep e)\<lparr>ep_conn := conn_Close (ep_conn (sd_ep e))\<rparr>, sd_closed := True\<rparr>)"


section \<open>What a side has moved\<close>

fun up_pending :: "up_pc \<Rightarrow> bytes" where
  "up_pending (UpChecking b) = b"
| "up_pending (UpWriting b) = b"
| "up_pending _ = []"

fun down_pending :: "down_pc \<Rightarrow> bytes" where
  "down_pending (DownWriting b) = b"
| "down_pending _ = []"

fun up_live :: "up_pc \<Rightarrow> bool" where
  "up_live (UpEnded _) = False"
| "up_live _ = True"

text \<open>
  The bytes read off the connection are those written to the channel and those in
  hand, apart from bytes lost when a write on the channel failed; what was written
  to the connection is what was read off the channel, apart from what the failing
  write lost.
\<close>

definition up_ok :: "relay_side \<Rightarrow> bytes \<Rightarrow> bool" where
  "up_ok e wrote \<longleftrightarrow>
     (\<exists>lost. inp (ep_conn (sd_start e)) = wrote @ up_pending (sd_up e) @ lost @ inp (ep_conn (sd_ep e))
        \<and> (up_live (sd_up e) \<or> sd_up e = UpEnded None \<longrightarrow> lost = [])
        \<and> (sd_up e = UpEnded None \<longrightarrow> inp (ep_conn (sd_ep e)) = []))"

definition down_ok :: "relay_side \<Rightarrow> bytes \<Rightarrow> bool" where
  "down_ok e got \<longleftrightarrow>
     (\<exists>w. out (ep_conn (sd_ep e)) = out (ep_conn (sd_start e)) @ w \<and> prefix w got
        \<and> ((\<nexists>err. sd_down e = DownEnded (Some err)) \<longrightarrow> got = w @ down_pending (sd_down e)))"

text \<open>The channel of a relay belongs to it: it stays mapped and open until the relay closes it.\<close>

definition owns :: "u32 \<Rightarrow> ctrl_conn \<Rightarrow> relay_side \<Rightarrow> bool" where
  "owns x cc e \<longleftrightarrow> sd_ch e < length (objs cc) \<and> ch_id (objs cc ! sd_ch e) = x
     \<and> ch_target (objs cc ! sd_ch e) = sd_addr e
     \<and> (if sd_closed e then \<not> up_live (sd_up e) \<and> (\<exists>d. sd_down e = DownEnded d)
        else mapped x cc \<and> status (objs cc ! sd_ch e) \<noteq> chClosed)"

lemma streams_new: "up_ok (new_side p t c) []" "down_ok (new_side p t c) []"
  by (simp_all add: up_ok_def down_ok_def new_side_def)

lemma ep_Read_streams:
  assumes "ep_Read c k = ((b, r), c')"
  shows "inp (ep_conn c) = b @ inp (ep_conn c')" and "out (ep_conn c') = out (ep_conn c)"
    and "r = Some EOF \<Longrightarrow> inp (ep_conn c') = []" and "r \<noteq> None \<Longrightarrow> b = []"
  using assms by (auto simp: ep_Read_def Let_def split: if_splits)

lemma ep_Write_streams:
  assumes "ep_Write c b = (r, c')"
  shows "inp (ep_conn c') = inp (ep_conn c)" and "\<exists>w. out (ep_conn c') = out (ep_conn c) @ w \<and> prefix w b"
    and "r = None \<Longrightarrow> out (ep_conn c') = out (ep_conn c) @ b"
  using assms ep_Write_inp [OF assms]
  by (auto simp: ep_Write_def dest: conn_Write_prefix conn_Write_ok split: if_splits prod.splits)

lemma closeWrite_out [simp]: "out (ep_conn (closeWrite c)) = out (ep_conn c)"
  by (simp add: closeWrite_def conn_Close_def split: conn_kind.split)

lemma copy_err_None [simp]: "copy_err err = None \<longleftrightarrow> err = EOF"
  by (simp add: copy_err_def)

lemma streams_step:
  assumes "side_step cc e ev cc' e'" and "ch_id (objs cc ! sd_ch e) = x"
    and "up_ok e (w x)" and "down_ok e (g x)"
  shows "up_ok e' (log_write ev w x) \<and> down_ok e' (log_read ev g x)"
  using assms(1)
proof (cases rule: side_step.cases)
  case (up_read k b c)
  with assms(3,4) ep_Read_streams [OF up_read(6)] show ?thesis
    by (simp add: up_ok_def down_ok_def)
next
  case (up_eof k b err c r)
  with assms(3,4) ep_Read_streams [OF up_eof(4)] show ?thesis
    by (auto simp: up_ok_def down_ok_def)
next
  case (up_sent b n)
  then have "take n b @ drop n b = b" by simp
  with up_sent assms(2-4) show ?thesis
    by (auto simp: up_ok_def down_ok_def)
next
  case (down_read b)
  with assms(2-4) show ?thesis by (auto simp: up_ok_def down_ok_def)
next
  case (down_wrote b c)
  with assms(3,4) ep_Write_streams [OF down_wrote(5)] show ?thesis
    by (auto simp: up_ok_def down_ok_def)
next
  case (down_failed b err c)
  with assms(3,4) ep_Write_streams [OF down_failed(5)] show ?thesis
    by (auto simp: up_ok_def down_ok_def prefix_def)
qed (use assms in \<open>auto simp: up_ok_def down_ok_def conn_Close_def\<close>)

section \<open>What a relay does to its control connection\<close>

text \<open>A step of a relay touches the channel object it holds and no other.\<close>

definition touches :: "nat \<Rightarrow> ctrl_conn \<Rightarrow> ctrl_conn \<Rightarrow> bool" where
  "touches p cc cc' \<longleftrightarrow> length (objs cc') = length (objs cc) \<and> (\<forall>q. q \<noteq> p \<longrightarrow> objs cc' ! q = objs cc ! q)
     \<and> ch_id (objs cc' ! p) = ch_id (objs cc ! p) \<and> ch_target (objs cc' ! p) = ch_target (objs cc ! p)
     \<and> (\<forall>y. y \<noteq> ch_id (objs cc ! p) \<longrightarrow> mapped y cc' = mapped y cc)
     \<and> newCh cc' = newCh cc \<and> parked cc' = parked cc"

lemma touches_refl [simp]: "touches p cc cc"
  by (simp add: touches_def)

lemma touches_trans [trans]:
  assumes "touches p a b" and "touches p b c"
  shows "touches p a c"
  using assms by (simp add: touches_def)

lemma touches_upd_ch:
  assumes "p < length (objs cc)" and "\<And>ch. ch_id (f ch) = ch_id ch" and "\<And>ch. ch_target (f ch) = ch_target ch"
  shows "touches p cc (upd_ch p f cc)"
  using assms by (simp add: touches_def mapped_def)

lemma sendFrame_keeps [simp]:
  "objs (snd (sendFrame cc ty b)) = objs cc" "channels (snd (sendFrame cc ty b)) = channels cc"
  "touches p cc (snd (sendFrame cc ty b))"
  by (auto simp: sendFrame_def touches_def mapped_def split: prod.splits)

lemma touches_removeChannel: "p < length (objs cc) \<Longrightarrow> touches p cc (removeChannel cc (ch_id (objs cc ! p)))"
  by (auto simp: touches_def mapped_def)

text \<open>The operations that change one object, keep the table and may then send a frame.\<close>

definition changes :: "nat \<Rightarrow> ctrl_conn \<Rightarrow> (channel \<Rightarrow> channel) \<Rightarrow> ctrl_conn \<Rightarrow> bool" where
  "changes p cc f cc' \<longleftrightarrow> cc' = cc \<or> cc' = upd_ch p f cc \<or> (\<exists>ty b. cc' = snd (sendFrame (upd_ch p f cc) ty b))"

lemma changes_touches:
  assumes "changes p cc f cc'" and "p < length (objs cc)"
    and "\<And>ch. ch_id (f ch) = ch_id ch" and "\<And>ch. ch_target (f ch) = ch_target ch"
  shows "touches p cc cc'" and "channels cc' = channels cc"
    and "objs cc' ! p = objs cc ! p \<or> objs cc' ! p = f (objs cc ! p)"
proof -
  note t = touches_upd_ch [of p cc f, OF assms(2-4)]
  from assms(1) show "touches p cc cc'"
    unfolding changes_def using t touches_trans [OF t sendFrame_keeps(3)] touches_refl by blast
  from assms(1) show "channels cc' = channels cc" by (auto simp: changes_def)
  from assms(1,2) show "objs cc' ! p = objs cc ! p \<or> objs cc' ! p = f (objs cc ! p)"
    by (auto simp: changes_def)
qed

lemma CloseWrite_changes:
  assumes "channel_CloseWrite cc p = (r, cc')"
  shows "changes p cc (\<lambda>ch. ch\<lparr>status := chWriteClosed\<rparr>) cc'"
proof (cases "status (objs cc ! p) = chOpen")
  case True
  with assms show ?thesis
    unfolding changes_def channel_CloseWrite_def by (metis chWriteClosed_le snd_conv)
next
  case False
  with assms show ?thesis by (simp add: changes_def channel_CloseWrite_def)
qed

lemma write_turn_changes:
  assumes "write_turn cc p b = (t, cc')"
  shows "\<exists>n. changes p cc (\<lambda>ch. ch\<lparr>sendWindow := sendWindow ch - int n\<rparr>) cc'"
proof (cases "sendWindow (objs cc ! p) \<le> 0")
  case True
  with assms show ?thesis by (auto simp: changes_def write_turn_def Let_def split: if_splits)
next
  case False
  define c where "c = (if int (length b) > sendWindow (objs cc ! p) then take (nat (sendWindow (objs cc ! p))) b else b)"
  have "cc' = snd (sendFrame (upd_ch p (\<lambda>ch. ch\<lparr>sendWindow := sendWindow ch - int (length c)\<rparr>) cc)
      FrameChannelData (be_put32 (ch_id (objs cc ! p)) @ c))"
    using False assms
    by (simp add: write_turn_def Let_def c_def [symmetric] split: prod.splits option.splits)
  then show ?thesis unfolding changes_def by blast
qed

lemma Read_changes:
  assumes "channel_Read cc p n = (Returned (b, r), cc')"
  shows "changes p cc (\<lambda>ch. ch\<lparr>rb := drop n (rb ch)\<rparr>) cc'"
proof (cases "rb (objs cc ! p) = []")
  case True
  with assms show ?thesis
    by (auto simp: changes_def channel_Read_def Let_def split: if_splits option.splits)
next
  case False
  let ?cc1 = "upd_ch p (\<lambda>ch. ch\<lparr>rb := drop n (rb ch)\<rparr>) cc"
  have "cc' = ?cc1 \<or> cc' = sendWindowUpdate ?cc1 p (length b)"
    using False assms by (auto simp: channel_Read_def Let_def split: if_splits)
  then show ?thesis unfolding changes_def sendWindowUpdate_def by blast
qed

lemma Close_touches:
  assumes "channel_Close cc p = (r, cc')" and "p < length (objs cc)"
  shows "touches p cc cc'"
proof (cases "status (objs cc ! p) = chClosed")
  case True
  with assms show ?thesis by (simp add: channel_Close_def)
next
  case False
  let ?cc1 = "upd_ch p (\<lambda>ch. ch\<lparr>status := chClosed\<rparr>) cc"
  let ?cc2 = "removeChannel ?cc1 (ch_id (objs cc ! p))"
  have "touches p cc ?cc1" using assms(2) by (rule touches_upd_ch) simp_all
  also have "touches p ?cc1 ?cc2" using touches_removeChannel [of p ?cc1] assms(2) by simp
  also have "touches p ?cc2 (snd (sendFrame ?cc2 FrameChannelClose (be_put32 (ch_id (objs cc ! p)))))"
    by (rule sendFrame_keeps)
  finally show ?thesis using False assms(1) by (simp add: channel_Close_def Let_def)
qed

lemma changes_owns:
  assumes "changes (sd_ch e) cc f cc'" and "owns x cc e"
    and "\<And>ch. ch_id (f ch) = ch_id ch" and "\<And>ch. ch_target (f ch) = ch_target ch"
    and "\<And>ch. status ch \<noteq> chClosed \<Longrightarrow> status (f ch) \<noteq> chClosed"
    and "sd_ch e' = sd_ch e" and "sd_addr e' = sd_addr e" and "sd_closed e' = sd_closed e"
    and "sd_closed e \<Longrightarrow> \<not> up_live (sd_up e') \<and> (\<exists>d. sd_down e' = DownEnded d)"
  shows "touches (sd_ch e) cc cc' \<and> owns x cc' e'"
proof -
  have p: "sd_ch e < length (objs cc)" using assms(2) by (simp add: owns_def)
  note t = changes_touches [OF assms(1) p assms(3,4)]
  have "touches (sd_ch e) cc cc'" by (rule t)
  moreover have "status (objs cc' ! sd_ch e) \<noteq> chClosed" if "status (objs cc ! sd_ch e) \<noteq> chClosed"
    using t(3) assms(5) [OF that] that by auto
  ultimately show ?thesis
    using assms(2,6-9) t(2) by (auto simp: owns_def touches_def mapped_def)
qed

lemma changes_refl: "changes p cc (\<lambda>ch. ch) cc"
  by (simp add: changes_def)

text \<open>A write on a wire that works does not fail.\<close>

lemma write_turn_not_failed:
  assumes "wire cc ms" and "bounded cc" and "cc_wf cc" and "p < length (objs cc)"
  shows "write_turn cc p b \<noteq> (TFailed err, cc')"
proof
  assume f: "write_turn cc p b = (TFailed err, cc')"
  let ?w = "sendWindow (objs cc ! p)"
  define c where "c = (if int (length b) > ?w then take (nat ?w) b else b)"
  have "wnd (ch_id (objs cc ! p)) cc \<le> 65536" using assms(2) by (simp add: bounded_def)
  then have "?w \<le> 65536" using obs_nth(1) [OF assms(3,4)] by simp
  then have "length c \<le> 65536" by (auto simp: c_def)
  then show False
    using f assms(1)
    by (simp add: write_turn_def Let_def c_def [symmetric] sendFrame_writable wire_def maxFramePayload_def
        split: if_splits)
qed

text \<open>
  The owner's view of a step of its relay: the channel stays its own, and no other
  object is touched.
\<close>

lemma side_step_owns:
  assumes "side_step cc e ev cc' e'" and "owns x cc e"
  shows "touches (sd_ch e) cc cc' \<and> owns x cc' e' \<and> sd_ch e' = sd_ch e"
  using assms(1)
proof (cases rule: side_step.cases)
  case (up_eof k b err c r)
  with assms(2) changes_owns [OF CloseWrite_changes [OF up_eof(5)] assms(2), of e'] show ?thesis
    by (auto simp: owns_def split: if_splits)
next
  case (up_refused b r)
  with assms(2) changes_owns [OF CloseWrite_changes [OF up_refused(5)] assms(2), of e'] show ?thesis
    by (auto simp: owns_def split: if_splits)
next
  case (up_sent b n)
  from write_turn_changes [OF up_sent(5)] obtain m
    where "changes (sd_ch e) cc (\<lambda>ch. ch\<lparr>sendWindow := sendWindow ch - int m\<rparr>) cc'" by blast
  from changes_owns [OF this assms(2), of e'] up_sent assms(2) show ?thesis
    by (auto simp: owns_def split: if_splits)
next
  case (up_closed b cc1 r)
  then have "cc1 = cc"
    by (auto simp: write_turn_def Let_def split: if_splits prod.splits option.splits)
  with up_closed assms(2) changes_owns [OF CloseWrite_changes [of cc "sd_ch e" r cc'] assms(2), of e'] show ?thesis
    by (auto simp: owns_def split: if_splits)
next
  case (up_failed b err cc1 r)
  have p: "sd_ch e < length (objs cc)" using assms(2) by (simp add: owns_def)
  from write_turn_changes [OF up_failed(5)] obtain m
    where "changes (sd_ch e) cc (\<lambda>ch. ch\<lparr>sendWindow := sendWindow ch - int m\<rparr>) cc1" by blast
  from changes_owns [OF this assms(2), of e] assms(2)
  have o: "touches (sd_ch e) cc cc1" "owns x cc1 e" by (auto simp: owns_def split: if_splits)
  have "touches (sd_ch e) cc1 cc' \<and> owns x cc' e'"
    using up_failed assms(2) changes_owns [OF CloseWrite_changes [OF up_failed(6)] o(2), of e']
    by (auto simp: owns_def split: if_splits)
  with o up_failed show ?thesis by (auto intro: touches_trans)
next
  case (down_read b)
  with assms(2) changes_owns [OF Read_changes [OF down_read(4)] assms(2), of e'] show ?thesis
    by (auto simp: owns_def split: if_splits)
next
  case (down_eof b err)
  with assms(2) changes_owns [OF Read_changes [OF down_eof(4)] assms(2), of e'] show ?thesis
    by (auto simp: owns_def split: if_splits)
next
  case (side_close u d r)
  with assms(2) Close_touches [OF side_close(6)] show ?thesis by (simp add: owns_def touches_def)
qed (use assms(2) in \<open>auto simp: owns_def\<close>)

text \<open>
  The frames a step of a relay sends: data only while the copy to the channel runs,
  a close only once that copy has ended, nothing about other channels.
\<close>

definition relay_frames :: "u32 \<Rightarrow> relay_side \<Rightarrow> relay_side \<Rightarrow> msg list \<Rightarrow> bool" where
  "relay_frames x e e' new \<longleftrightarrow>
     (\<forall>y. MClose y \<in> set new \<longrightarrow> y = x \<and> \<not> up_live (sd_up e') \<and> data y new = [])
     \<and> (\<forall>y. data y new \<noteq> [] \<longrightarrow> y = x \<and> up_live (sd_up e))"

lemma relay_frames_nil: "relay_frames x e e' []"
  by (simp add: relay_frames_def)

lemma relay_frames_close:
  assumes "set new \<subseteq> {MClose x}" and "\<not> up_live (sd_up e')"
  shows "relay_frames x e e' new"
proof -
  have "data y new = []" for y using assms(1) by (induction new) auto
  with assms show ?thesis by (auto simp: relay_frames_def)
qed

lemma side_step_effect:
  assumes "side_step cc e ev cc' e'" and "owns x cc e"
    and "cc_wf cc" "wire cc ms" "bounded cc" "spawned cc = []"
  shows "\<exists>new. keeps cc ms cc' (ms @ new) \<and> spawned cc' = [] \<and> effect ev cc new cc' \<and> relay_frames x e e' new"
proof -
  let ?p = "sd_ch e"
  have p: "?p < length (objs cc)" "ch_id (objs cc ! ?p) = x" using assms(2) by (simp_all add: owns_def)
  have idle: ?thesis if "cc' = cc" "ev = EvQuiet"
    using that assms(3-6) by (intro exI [of _ "[]"]) (auto simp: relay_frames_nil)
  have shutdown: ?thesis if "channel_CloseWrite cc ?p = (r, cc')" "ev = EvQuiet" "\<not> up_live (sd_up e')" for r
  proof -
    from closeWrite_effect [OF assms(3,4) p(1) that(1)] p(2) obtain new where
      "set new \<subseteq> {MClose x}" "keeps cc ms cc' (ms @ new)" "spawned cc' = spawned cc" "effect EvQuiet cc new cc'"
      by auto
    with relay_frames_close [OF _ that(3)] that(2) assms(6) show ?thesis by metis
  qed
  from assms(1) show ?thesis
  proof (cases rule: side_step.cases)
    case (up_sent b n)
    from write_effect [OF assms(3-5) p(1) up_sent(5)] p(2) up_sent assms(6) show ?thesis
      by (auto simp: relay_frames_def)
  next
    case (up_closed b cc1 r)
    then have "cc1 = cc"
      by (auto simp: write_turn_def Let_def split: if_splits prod.splits option.splits)
    with up_closed show ?thesis by (intro shutdown [of r]) simp_all
  next
    case (up_failed b err cc1 r)
    with write_turn_not_failed [OF assms(4,5,3) p(1)] show ?thesis by blast
  next
    case (down_read b)
    from read_effect [OF assms(3-5) p(1) down_read(4)] p(2) down_read assms(6) show ?thesis
      by (auto simp: relay_frames_def split: if_splits)
  next
    case (down_eof b err)
    then have "cc' = cc" by (auto simp: channel_Read_def Let_def split: if_splits option.splits)
    with down_eof show ?thesis by (intro idle) simp_all
  next
    case (side_close u d r)
    from close_effect [OF assms(3,4) p(1) side_close(6)] p(2) obtain new where
      "set new \<subseteq> {MClose x}" "keeps cc ms cc' (ms @ new)" "spawned cc' = spawned cc" "effect EvQuiet cc new cc'"
      by auto
    with relay_frames_close [of new x e' e] side_close assms(6) show ?thesis by auto
  next
    case (up_eof k b err c r)
    then show ?thesis by (intro shutdown [of r]) simp_all
  next
    case (up_refused b r)
    then show ?thesis by (intro shutdown [of r]) simp_all
  qed (rule idle; assumption)+
qed


section \<open>The end of a stream\<close>

text \<open>No data follows a close in transit.\<close>

fun closed_last :: "u32 \<Rightarrow> msg list \<Rightarrow> bool" where
  "closed_last x [] \<longleftrightarrow> True"
| "closed_last x (m # ms) \<longleftrightarrow> (m = MClose x \<longrightarrow> data x ms = []) \<and> closed_last x ms"

lemma closed_last_append:
  "closed_last x (ms @ ns) \<longleftrightarrow> closed_last x ms \<and> closed_last x ns \<and> (MClose x \<in> set ms \<longrightarrow> data x ns = [])"
  by (induction ms) auto

lemma closed_last_trivial:
  "MClose x \<notin> set ms \<Longrightarrow> closed_last x ms" "data x ms = [] \<Longrightarrow> closed_last x ms"
  by (induction ms) auto

text \<open>
  The direction from \<open>A\<close> to \<open>B\<close> of channel \<open>x\<close>: as long as something may still be
  written (\<open>live\<close>) no close is under way and \<open>B\<close> has seen none; a close is the last
  thing sent; and when \<open>B\<close> has seen it, all data has arrived.
\<close>

definition eof_inv :: "bool \<Rightarrow> u32 \<Rightarrow> msg list \<Rightarrow> ctrl_conn \<Rightarrow> bool" where
  "eof_inv live x msA B \<longleftrightarrow>
     (live \<longrightarrow> MClose x \<notin> set msA \<and> \<not> eof x B) \<and> closed_last x msA \<and> (eof x B \<longrightarrow> data x msA = [])"

lemma eof_inv_send:
  assumes "eof_inv L x msA B" and "L' \<Longrightarrow> L" and "MClose x \<in> set new \<Longrightarrow> \<not> L' \<and> data x new = []"
    and "data x new \<noteq> [] \<Longrightarrow> L" and "eof x B' = eof x B"
  shows "eof_inv L' x (msA @ new) B'"
  using assms closed_last_trivial [where x = x and ms = new] unfolding eof_inv_def closed_last_append
  by (cases "data x new = []") auto

lemma eof_inv_cong: "eof x B' = eof x B \<Longrightarrow> eof_inv L x ms B' = eof_inv L x ms B"
  by (simp add: eof_inv_def)

lemma eof_inv_recv:
  assumes "eof_inv L x (m # msA) B" and "recv_effect m B new B'"
  shows "eof_inv L x msA B'"
  using assms by (cases m) (auto simp: eof_inv_def)

lemma recv_quiet:
  assumes "recv_effect m cc new cc'"
  shows "MClose x \<notin> set new" and "data x new = []"
  using assms pong_transit(1) by (cases m; auto)+

section \<open>One end of the path\<close>

text \<open>
  The invariant of one end \<open>A\<close> towards the other end \<open>B\<close>: \<open>L\<close> says on which channels
  \<open>A\<close> may still write, \<open>L'\<close> on which \<open>B\<close> may. A relay whose copy from the channel has
  ended in order has read everything the other end ever writes.
\<close>

definition half_inv :: "(u32 \<Rightarrow> bool) \<Rightarrow> (u32 \<Rightarrow> bool) \<Rightarrow> msg list \<Rightarrow> ctrl_conn \<Rightarrow> ctrl_conn \<Rightarrow>
    (u32 \<rightharpoonup> relay_side) \<Rightarrow> (u32 \<Rightarrow> bytes) \<Rightarrow> (u32 \<Rightarrow> bytes) \<Rightarrow> (u32 \<Rightarrow> bytes) \<Rightarrow> bool" where
  "half_inv L L' msA A B side wA gA wB \<longleftrightarrow>
     (\<forall>x. eof_inv (L x) x msA B)
     \<and> (\<forall>x e. side x = Some e \<longrightarrow> owns x A e \<and> up_ok e (wA x) \<and> down_ok e (gA x)
          \<and> (sd_down e = DownEnded None \<longrightarrow> gA x = wB x \<and> \<not> L' x))"

lemma owns_touches:
  assumes "touches p A A'" and "owns y A d" and "ch_id (objs A ! p) \<noteq> y"
  shows "owns y A' d"
  using assms by (auto simp: touches_def owns_def)

lemma owns_known: "cc_wf cc \<Longrightarrow> owns x cc e \<Longrightarrow> known x cc"
  using obs_nth(3) by (auto simp: owns_def)

text \<open>The facts about a step of a relay that its logs and its peer depend on.\<close>

lemma side_step_live:
  assumes "side_step cc e ev cc' e'"
  shows "up_live (sd_up e') \<Longrightarrow> up_live (sd_up e)" and "\<not> up_live (sd_up e) \<Longrightarrow> log_write ev w = w"
  using assms by (auto elim!: side_step.cases)

lemma side_step_logs:
  assumes "side_step cc e ev cc' e'" and "owns x cc e" and "y \<noteq> x"
  shows "log_write ev w y = w y" and "log_read ev g y = g y"
  using assms by (auto simp: owns_def elim!: side_step.cases)

lemma side_step_ended:
  assumes "side_step cc e ev cc' e'" and "owns x cc e" and "cc_wf cc" and "sd_down e' = DownEnded None"
  shows "log_read ev g = g \<and> (sd_down e = DownEnded None \<or> eof x cc \<and> buf x cc = [] \<and> mapped x cc)"
  using assms(1)
proof (cases rule: side_step.cases)
  case (down_eof b err)
  then have err: "err = EOF" using assms(4) by simp
  have o: "eof x cc \<longleftrightarrow> rerr (objs cc ! sd_ch e) \<noteq> None" "buf x cc = rb (objs cc ! sd_ch e)"
    using obs_nth [OF assms(3)] assms(2) by (auto simp: owns_def)
  have "\<not> sd_closed e" "mapped x cc" "status (objs cc ! sd_ch e) \<noteq> chClosed"
    using assms(2) down_eof by (auto simp: owns_def split: if_splits)
  with down_eof o err show ?thesis
    by (auto simp: channel_Read_def Let_def split: if_splits option.splits)
qed (use assms in auto)

lemma half_relay:
  assumes "half_inv L L' msA A B side wA gA wB" and "side x = Some e" and st: "side_step A e ev A' e'"
    and "cc_wf A" and rf: "relay_frames x e e' new" and L: "L x = up_live (sd_up e)"
    and d: "dir_inv x B msB A msA (wB x) (gA x)" and z: "eof_inv (L' x) x msB A"
  shows "half_inv (L(x := up_live (sd_up e'))) L' (msA @ new) A' B (side(x \<mapsto> e'))
     (log_write ev wA) (log_read ev gA) wB"
proof -
  note H = assms(1) [unfolded half_inv_def]
  have o: "owns x A e" "up_ok e (wA x)" "down_ok e (gA x)" using H assms(2) by blast+
  note so = side_step_owns [OF st o(1)]
  have "eof_inv ((L(x := up_live (sd_up e'))) y) y (msA @ new) B" for y
    using H rf L side_step_live(1) [OF st]
    by (intro eof_inv_send [of "L y" y msA B]) (auto simp: relay_frames_def split: if_splits)
  moreover have "owns y A' d" if "side y = Some d" "y \<noteq> x" for y d
    using that H so o(1) owns_touches [of "sd_ch e" A A' y d] by (simp add: owns_def [of x A e])
  moreover have "up_ok e' (log_write ev wA x) \<and> down_ok e' (log_read ev gA x)"
    using o by (intro streams_step [OF st]) (auto simp: owns_def)
  moreover have "log_read ev gA x = wB x \<and> \<not> L' x" if "sd_down e' = DownEnded None"
  proof -
    from side_step_ended [OF st o(1) assms(4) that, of gA]
    consider "sd_down e = DownEnded None" | "eof x A" "buf x A = []" "mapped x A" by blast
    then show ?thesis
    proof cases
      case 1
      with H assms(2) side_step_ended [OF st o(1) assms(4) that, of gA] show ?thesis by simp
    next
      case 2
      with z have "data x msB = []" "\<not> L' x" by (auto simp: eof_inv_def)
      with 2 d side_step_ended [OF st o(1) assms(4) that, of gA] show ?thesis by (simp add: dir_inv_def)
    qed
  qed
  ultimately show ?thesis
    using H so side_step_logs [OF st o(1)] unfolding half_inv_def by auto
qed

lemma half_peer:
  assumes "half_inv L' L msB B A side wB gB wA" and "\<And>y. eof y A' = eof y A"
    and "\<And>y. \<not> L y \<Longrightarrow> wA' y = wA y \<and> \<not> L2 y"
  shows "half_inv L' L2 msB B A' side wB gB wA'"
  using assms eof_inv_cong [OF assms(2)] unfolding half_inv_def by auto

text \<open>Steps that leave the owned channels to their owners, whatever else they do.\<close>

definition keeps_objs :: "ctrl_conn \<Rightarrow> ctrl_conn \<Rightarrow> bool" where
  "keeps_objs cc cc' \<longleftrightarrow> (\<forall>q < length (objs cc). q < length (objs cc') \<and> ch_id (objs cc' ! q) = ch_id (objs cc ! q)
     \<and> ch_target (objs cc' ! q) = ch_target (objs cc ! q) \<and> status (objs cc' ! q) = status (objs cc ! q))"

lemma keeps_objs_eq: "objs cc' = objs cc \<Longrightarrow> keeps_objs cc cc'"
  by (simp add: keeps_objs_def)

lemma keeps_objs_alloc: "objs cc' = objs cc @ [ch] \<Longrightarrow> keeps_objs cc cc'"
  by (simp add: keeps_objs_def nth_append)

lemma keeps_objs_upd_ch:
  assumes "\<And>ch. ch_id (f ch) = ch_id ch" and "\<And>ch. ch_target (f ch) = ch_target ch" and "\<And>ch. status (f ch) = status ch"
  shows "keeps_objs cc (upd_ch p f cc)"
  using assms by (cases "p < length (objs cc)") (auto simp: keeps_objs_def upd_ch_def nth_list_update list_update_beyond)

lemma owns_keeps:
  assumes "keeps_objs cc cc'" and "mapped x cc \<Longrightarrow> mapped x cc'" and "owns x cc e"
  shows "owns x cc' e"
  using assms by (auto simp: keeps_objs_def owns_def)

lemma half_quiet:
  assumes "half_inv L L' msA A B side wA gA wB" and "keeps_objs A A'" and "\<And>y. mapped y A \<Longrightarrow> mapped y A'"
    and "\<And>y. MClose y \<notin> set new \<and> data y new = []" and "\<And>y. eof y B' = eof y B"
  shows "half_inv L L' (msA @ new) A' B' side wA gA wB"
  using assms(1) eof_inv_send [of "L x" x msA B "L x" new B' for x] assms(4,5) owns_keeps [OF assms(2,3)]
  unfolding half_inv_def by auto

lemma half_taken:
  assumes "half_inv L L' (m # msA) A B side wA gA wB" and "recv_effect m B new B'"
    and "objs A' = objs A" and "channels A' = channels A"
  shows "half_inv L L' msA A' B' side wA gA wB"
proof -
  have "owns y A' e = owns y A e" for y e using assms(3,4) by (simp add: owns_def mapped_def)
  then show ?thesis
    using assms(1) eof_inv_recv [OF _ assms(2)] unfolding half_inv_def by auto
qed


section \<open>Channels on their way to a relay\<close>

text \<open>The channels the read loop has created and \<^verbatim>\<open>AcceptChannel\<close> has not handed out.\<close>

definition waits :: "ctrl_conn \<Rightarrow> nat list" where
  "waits cc = newCh cc @ (case parked cc of None \<Rightarrow> [] | Some q \<Rightarrow> [q])"

lemma handleFrame_keeps_objs:
  assumes "handleFrame cc f = Some cc'"
  shows "keeps_objs cc cc'"
proof -
  have "keeps_objs cc (pushData cc p b)" for p b
    using keeps_objs_upd_ch [of "\<lambda>ch. ch\<lparr>rb := rb ch @ b\<rparr>" cc p]
      keeps_objs_upd_ch [of "\<lambda>ch. ch\<lparr>rerr := Some (Errorf ''receive buffer overflow'')\<rparr>" cc p]
    by (simp add: pushData_def keeps_objs_def)
  moreover have "keeps_objs cc (setError cc p err)" for p err
    unfolding setError_def by (rule keeps_objs_upd_ch) simp_all
  moreover have "keeps_objs cc (addSendWindow cc p n)" for p n
    unfolding addSendWindow_def by (rule keeps_objs_upd_ch) simp_all
  moreover have "keeps_objs cc cc1" "keeps_objs cc (cc1\<lparr>newCh := l\<rparr>)" "keeps_objs cc (cc1\<lparr>parked := q\<rparr>)"
    if "handleNewChannel cc b = NewChannel p cc1" for b p cc1 l q
    using that by (auto simp: handleNewChannel_def Let_def keeps_objs_def nth_append split: if_splits)
  ultimately show ?thesis
    using assms keeps_objs_eq [of cc cc] keeps_objs_eq [of "handlePing cc (Payload f)" cc]
    by (auto simp: handleFrame_def handleChannelData_def handleChannelClose_def handleWindowUpdate_def handlePing_def
        Let_def split: if_splits option.splits new_channel.splits)
qed

lemma handleFrame_waits:
  assumes "handleFrame cc (frame_of m) = Some cc'" and "msg_ok m" and "parked cc = None"
  shows "waits cc' = waits cc @ (if is_new m then [length (objs cc)] else [])"
    and "m = MNew i t \<Longrightarrow> objs cc' = objs cc @ [newChannel i t]"
proof -
  have new: "waits cc' = waits cc @ [length (objs cc)] \<and> objs cc' = objs cc @ [newChannel i t]"
    if "m = MNew i t" for i t
  proof -
    have "unat (word_of_nat (length t) :: u16) = length t"
      using assms(2) that by (intro unat_word_of_length16) simp
    then have "handleNewChannel cc (Payload (frame_of m)) = NewChannel (length (objs cc))
        (cc\<lparr>objs := objs cc @ [newChannel i t], channels := AList.update i (length (objs cc)) (channels cc)\<rparr>)"
      using assms(2) that by (simp add: handleNewChannel_def Let_def slice_bound)
    with assms(1,3) that show ?thesis
      unfolding handleFrame_def waits_def by (auto split: if_splits)
  qed
  then show "m = MNew i t \<Longrightarrow> objs cc' = objs cc @ [newChannel i t]" by blast
  show "waits cc' = waits cc @ (if is_new m then [length (objs cc)] else [])"
  proof (cases m)
    case (MNew i t)
    with new show ?thesis by simp
  qed (use assms in \<open>auto simp: handleFrame_def frame_type_defs waits_def handleChannelData_def pushData_def
      handleChannelClose_def handleWindowUpdate_def addSendWindow_def handlePing_def split: option.splits if_splits\<close>)
qed

lemma deliver_handles:
  assumes "wire src (m # ms)" and "\<not> shut (conn dst)" and "deliver src dst now = Some (src', dst')"
  shows "\<exists>d. objs d = objs dst \<and> newCh d = newCh dst \<and> parked d = parked dst \<and> handleFrame d (frame_of m) = Some dst'"
  using assms deliver_head [OF assms(1,2), of now]
  by (intro exI [of _ "dst\<lparr>conn := (conn dst)\<lparr>inp := concat (map enc_frame (map frame_of ms))\<rparr>, lastActivity := now\<rparr>"])
     auto

lemma deliver_keeps_objs:
  assumes "wire src (m # ms)" and "\<not> shut (conn dst)" and "deliver src dst now = Some (src', dst')"
  shows "keeps_objs dst dst'"
    and "parked dst = None \<Longrightarrow> waits dst' = waits dst @ (if is_new m then [length (objs dst)] else [])"
    and "parked dst = None \<Longrightarrow> m = MNew i t \<Longrightarrow> objs dst' = objs dst @ [newChannel i t]"
proof -
  have ok: "msg_ok m" using assms(1) by (simp add: wire_def)
  obtain d where d: "objs d = objs dst" "newCh d = newCh dst" "parked d = parked dst"
      "handleFrame d (frame_of m) = Some dst'"
    using deliver_handles [OF assms] by blast
  from handleFrame_keeps_objs [OF d(4)] d(1) show "keeps_objs dst dst'" by (simp add: keeps_objs_def)
  from handleFrame_waits(1) [OF d(4) ok] d
  show "parked dst = None \<Longrightarrow> waits dst' = waits dst @ (if is_new m then [length (objs dst)] else [])"
    by (simp add: waits_def)
  from handleFrame_waits(2) [OF d(4) ok] d
  show "parked dst = None \<Longrightarrow> m = MNew i t \<Longrightarrow> objs dst' = objs dst @ [newChannel i t]" by simp
qed

end
