(* ===== verification/Remote_Path.thy ===== *)
theory Remote_Path
  imports Relay_Side
begin

text \<open>
  The whole path of a remotely forwarded connection: a public client connected to
  the server's listener, the server's \<^verbatim>\<open>Relay(conn, ch)\<close> (\<^verbatim>\<open>sharedListener.dispatch\<close>),
  the multiplexed channel, the client's \<^verbatim>\<open>Relay(local, ch)\<close> (\<^verbatim>\<open>relayChannel\<close>) and the
  target it dialed. The two relays are the four copying goroutines at their single
  steps, any number of channels share the two control connections, and all of it
  interleaves freely with the read loops. The theory shows that what arrives at
  either end is what was sent at the other, from the first byte on, and all of it
  once the copies have ended in order; and that the target dialed is the one the
  server opened the channel for.
\<close>

section \<open>The path\<close>

text \<open>
  The two control connections with the logs of what was written and read on every
  channel, the relays of the server and of the client by channel id, and the
  channels the client has accepted and not dialed yet.
\<close>

record path =
  lk :: link
  pub :: "u32 \<rightharpoonup> relay_side"
  tgt :: "u32 \<rightharpoonup> relay_side"
  dialing :: "nat list"

definition srv_moves :: "link \<Rightarrow> event \<Rightarrow> ctrl_conn \<Rightarrow> link" where
  "srv_moves l ev S' = l\<lparr>srv := S', wrote_srv := log_write ev (wrote_srv l), got_srv := log_read ev (got_srv l)\<rparr>"

definition cli_moves :: "link \<Rightarrow> event \<Rightarrow> ctrl_conn \<Rightarrow> link" where
  "cli_moves l ev C' = l\<lparr>cli := C', wrote_cli := log_write ev (wrote_cli l), got_cli := log_read ev (got_cli l)\<rparr>"

lemma moves_sel [simp]:
  "srv (srv_moves l ev S') = S'" "cli (srv_moves l ev S') = cli l"
  "srv (cli_moves l ev C') = srv l" "cli (cli_moves l ev C') = C'"
  by (simp_all add: srv_moves_def cli_moves_def)

text \<open>
  \<open>dispatched\<close> is \<^verbatim>\<open>dispatch\<close> on a connection \<open>c\<close> of the listener for target \<open>t\<close>;
  \<open>got_channel\<close> a turn of \<^verbatim>\<open>handleChannels\<close>; \<open>dial_ok\<close> and \<open>dial_failed\<close> are the two
  answers \<^verbatim>\<open>net.DialTimeout\<close> can give \<^verbatim>\<open>relayChannel\<close>.
\<close>

inductive path_step :: "path \<Rightarrow> path \<Rightarrow> bool" where
  dispatched: "length t < 65530 \<Longrightarrow> \<not> known (nextID (srv (lk s))) (srv (lk s)) \<Longrightarrow>
     OpenChannel (srv (lk s)) t = (Inr p, S') \<Longrightarrow>
     path_step s (s\<lparr>lk := (lk s)\<lparr>srv := S'\<rparr>, pub := (pub s)(nextID (srv (lk s)) \<mapsto> new_side p t c)\<rparr>)"
| got_channel: "AcceptChannel pick (cli (lk s)) = (Returned (Inr p), C') \<Longrightarrow>
     path_step s (s\<lparr>lk := cli_moves (lk s) EvQuiet C', dialing := dialing s @ [p]\<rparr>)"
| dial_ok: "p \<in> set (dialing s) \<Longrightarrow> ch = objs (cli (lk s)) ! p \<Longrightarrow>
     path_step s (s\<lparr>tgt := (tgt s)(ch_id ch \<mapsto> new_side p (ch_target ch) c), dialing := remove1 p (dialing s)\<rparr>)"
| dial_failed: "p \<in> set (dialing s) \<Longrightarrow> channel_Close (cli (lk s)) p = (r, C') \<Longrightarrow>
     path_step s (s\<lparr>lk := cli_moves (lk s) EvQuiet C', dialing := remove1 p (dialing s)\<rparr>)"
| pub_relay: "pub s x = Some e \<Longrightarrow> side_step (srv (lk s)) e ev S' e' \<Longrightarrow>
     path_step s (s\<lparr>lk := srv_moves (lk s) ev S', pub := (pub s)(x \<mapsto> e')\<rparr>)"
| tgt_relay: "tgt s x = Some e \<Longrightarrow> side_step (cli (lk s)) e ev C' e' \<Longrightarrow>
     path_step s (s\<lparr>lk := cli_moves (lk s) ev C', tgt := (tgt s)(x \<mapsto> e')\<rparr>)"
| srv_reads: "arrived (cli (lk s)) \<Longrightarrow> parked (srv (lk s)) = None \<Longrightarrow>
     deliver (cli (lk s)) (srv (lk s)) now = Some (C', S') \<Longrightarrow>
     path_step s (s\<lparr>lk := (lk s)\<lparr>srv := S', cli := C'\<rparr>\<rparr>)"
| cli_reads: "arrived (srv (lk s)) \<Longrightarrow> parked (cli (lk s)) = None \<Longrightarrow>
     deliver (srv (lk s)) (cli (lk s)) now = Some (S', C') \<Longrightarrow>
     path_step s (s\<lparr>lk := (lk s)\<lparr>srv := S', cli := C'\<rparr>\<rparr>)"
| srv_ping: "KeepAlive_tick (srv (lk s)) timeout now = (True, S') \<Longrightarrow>
     path_step s (s\<lparr>lk := srv_moves (lk s) EvQuiet S'\<rparr>)"
| cli_ping: "KeepAlive_tick (cli (lk s)) timeout now = (True, C') \<Longrightarrow>
     path_step s (s\<lparr>lk := cli_moves (lk s) EvQuiet C'\<rparr>)"
| srv_safety_net: "spawned (srv (lk s)) = p # ps \<Longrightarrow>
     channel_Close ((srv (lk s))\<lparr>spawned := ps\<rparr>) p = (r, S') \<Longrightarrow>
     path_step s (s\<lparr>lk := srv_moves (lk s) EvQuiet S'\<rparr>)"
| cli_safety_net: "spawned (cli (lk s)) = p # ps \<Longrightarrow>
     channel_Close ((cli (lk s))\<lparr>spawned := ps\<rparr>) p = (r, C') \<Longrightarrow>
     path_step s (s\<lparr>lk := cli_moves (lk s) EvQuiet C'\<rparr>)"

definition path_init :: "path \<Rightarrow> bool" where
  "path_init s \<longleftrightarrow> link_init (lk s) \<and> pub s = Map.empty \<and> tgt s = Map.empty \<and> dialing s = []"

abbreviation path_reachable :: "path \<Rightarrow> bool" where
  "path_reachable \<equiv> reachable path_init path_step"


section \<open>The invariant of the path\<close>

definition live_srv :: "path \<Rightarrow> u32 \<Rightarrow> bool" where
  "live_srv s x = (case pub s x of None \<Rightarrow> \<not> known x (srv (lk s)) | Some e \<Rightarrow> up_live (sd_up e))"

definition waiting :: "path \<Rightarrow> nat list" where
  "waiting s = dialing s @ waits (cli (lk s))"

definition live_cli :: "path \<Rightarrow> u32 \<Rightarrow> bool" where
  "live_cli s x =
     (case tgt s x of
        None \<Rightarrow> \<not> known x (cli (lk s)) \<or> (\<exists>p\<in>set (waiting s). ch_id (objs (cli (lk s)) ! p) = x)
      | Some e \<Rightarrow> up_live (sd_up e))"

text \<open>
  A channel waiting for its relay waits once, is open and has carried nothing the
  client wrote or read.
\<close>

definition waiting_ok :: "path \<Rightarrow> bool" where
  "waiting_ok s \<longleftrightarrow> distinct (waiting s)
     \<and> (\<forall>p\<in>set (waiting s). p < length (objs (cli (lk s))) \<and> tgt s (ch_id (objs (cli (lk s)) ! p)) = None
          \<and> mapped (ch_id (objs (cli (lk s)) ! p)) (cli (lk s)) \<and> status (objs (cli (lk s)) ! p) \<noteq> chClosed)
     \<and> (\<forall>x. tgt s x = None \<longrightarrow> wrote_cli (lk s) x = [] \<and> got_cli (lk s) x = [])"

text \<open>The client knows a channel under the target the server opened it for.\<close>

definition dest_ok :: "link \<Rightarrow> msg list \<Rightarrow> bool" where
  "dest_ok l msS \<longleftrightarrow> (\<forall>x t. MNew x t \<in> set msS \<longrightarrow> dest x (srv l) = Some t)
     \<and> (\<forall>x. known x (cli l) \<longrightarrow> dest x (cli l) = dest x (srv l))"

definition srv_half :: "path \<Rightarrow> msg list \<Rightarrow> bool" where
  "srv_half s msS \<longleftrightarrow> half_inv (live_srv s) (live_cli s) msS (srv (lk s)) (cli (lk s)) (pub s)
     (wrote_srv (lk s)) (got_srv (lk s)) (wrote_cli (lk s))"

definition cli_half :: "path \<Rightarrow> msg list \<Rightarrow> bool" where
  "cli_half s msC \<longleftrightarrow> half_inv (live_cli s) (live_srv s) msC (cli (lk s)) (srv (lk s)) (tgt s)
     (wrote_cli (lk s)) (got_cli (lk s)) (wrote_srv (lk s))"

definition path_rel :: "path \<Rightarrow> msg list \<Rightarrow> msg list \<Rightarrow> bool" where
  "path_rel s msS msC \<longleftrightarrow> link_rel (lk s) msS msC \<and> srv_half s msS \<and> cli_half s msC \<and> waiting_ok s \<and> dest_ok (lk s) msS"

definition path_inv :: "path \<Rightarrow> bool" where
  "path_inv s \<longleftrightarrow> (\<exists>msS msC. path_rel s msS msC)"

lemma path_relD:
  assumes "path_rel s msS msC"
  shows "link_rel (lk s) msS msC" "srv_half s msS" "cli_half s msC" "waiting_ok s" "dest_ok (lk s) msS"
    "cc_wf (srv (lk s))" "cc_wf (cli (lk s))" "wire (srv (lk s)) msS" "wire (cli (lk s)) msC"
    "spawned (srv (lk s)) = []" "spawned (cli (lk s)) = []" "bounded (srv (lk s))" "bounded (cli (lk s))"
    "dir_inv x (srv (lk s)) msS (cli (lk s)) msC (wrote_srv (lk s) x) (got_cli (lk s) x)"
    "dir_inv x (cli (lk s)) msC (srv (lk s)) msS (wrote_cli (lk s) x) (got_srv (lk s) x)"
    "life x (srv (lk s)) msS (cli (lk s)) msC (wrote_srv (lk s) x) (got_srv (lk s) x) (wrote_cli (lk s) x) (got_cli (lk s) x)"
  using assms dir_inv_bounded unfolding path_rel_def link_rel_def by blast+

lemma path_init_inv: "path_init s \<Longrightarrow> path_inv s"
  unfolding path_inv_def
  using link_init_inv [of "lk s"]
  by (intro exI [of _ "[]"])
     (auto simp: path_init_def path_rel_def srv_half_def cli_half_def half_inv_def eof_inv_def waiting_ok_def dest_ok_def
       link_init_def link_rel_def NewCtrlConn_def wire_def cc_wf_def uniq_def life_def dir_inv_def obs_defs view_def
       mapped_def waiting_def waits_def)

lemma effect_dest: "effect ev cc new cc' \<Longrightarrow> dest x cc' = dest x cc" "effect ev cc new cc' \<Longrightarrow> eof x cc' = eof x cc"
  by (cases ev; simp)+

lemma live_srv_known:
  "pub s' = pub s \<Longrightarrow> (\<And>y. known y (srv (lk s')) = known y (srv (lk s))) \<Longrightarrow> live_srv s' = live_srv s"
  by (auto simp: live_srv_def fun_eq_iff split: option.splits)

lemma live_cli_same:
  assumes "tgt s' = tgt s" and "\<And>y. known y (cli (lk s')) = known y (cli (lk s))"
    and "set (waiting s') = set (waiting s)"
    and "\<And>p. p \<in> set (waiting s) \<Longrightarrow> ch_id (objs (cli (lk s')) ! p) = ch_id (objs (cli (lk s)) ! p)"
  shows "live_cli s' = live_cli s"
  using assms by (auto simp: live_cli_def fun_eq_iff split: option.splits)

lemma dest_ok_effect:
  assumes "dest_ok l msS" and "effect ev (srv l) new S'"
  shows "dest_ok (srv_moves l ev S') (msS @ new)"
  using assms effect_dest(1) [OF assms(2)] effect_about(1) [OF assms(2)]
  unfolding dest_ok_def srv_moves_def by (fastforce)

lemma pub_relay_inv:
  assumes "path_rel s msS msC" and "pub s x = Some e" and "side_step (srv (lk s)) e ev S' e'"
  shows "path_inv (s\<lparr>lk := srv_moves (lk s) ev S', pub := (pub s)(x \<mapsto> e')\<rparr>)" (is "path_inv ?s'")
proof -
  note R = path_relD [OF assms(1)]
  have o: "owns x (srv (lk s)) e" using R(2) assms(2) by (simp add: srv_half_def half_inv_def)
  obtain new where n: "keeps (srv (lk s)) msS S' (msS @ new)" "spawned S' = []" "effect ev (srv (lk s)) new S'"
      "relay_frames x e e' new"
    using side_step_effect [OF assms(3) o R(6,8,12,10)] by blast
  have l: "link_rel (lk ?s') (msS @ new) msC"
    using link_srv_effect [OF R(1) n(1-3)] by (simp add: srv_moves_def)
  have L: "live_srv ?s' = (live_srv s)(x := up_live (sd_up e'))" "live_cli ?s' = live_cli s"
    using n(1) by (auto simp: live_srv_def live_cli_def srv_moves_def waiting_def fun_eq_iff split: option.splits)
  have quiet: "log_write ev (wrote_srv (lk s)) y = wrote_srv (lk s) y \<and> \<not> ((live_srv s)(x := up_live (sd_up e'))) y"
    if "\<not> live_srv s y" for y
    using that assms(2) side_step_live [OF assms(3)] side_step_logs(1) [OF assms(3) o]
    by (cases "y = x") (auto simp: live_srv_def)
  have "srv_half ?s' (msS @ new)"
    unfolding srv_half_def L
    using half_relay [OF R(2) [unfolded srv_half_def] assms(2,3) R(6) n(4) _ R(15)] R(3) assms(2)
    by (simp add: srv_moves_def live_srv_def cli_half_def half_inv_def)
  moreover have "cli_half ?s' msC"
    unfolding cli_half_def L
    using half_peer [OF R(3) [unfolded cli_half_def] effect_dest(2) [OF n(3)] quiet] by (simp add: srv_moves_def fun_upd_def)
  moreover have "waiting_ok ?s'"
    using R(4) by (simp add: waiting_ok_def waiting_def srv_moves_def)
  ultimately show ?thesis
    using l dest_ok_effect [OF R(5) n(3)] unfolding path_inv_def path_rel_def by auto
qed

text \<open>A step of the client that touches one channel leaves the waiting ones alone.\<close>

lemma waiting_touches:
  assumes "touches p (cli (lk s)) C'" and "\<forall>q\<in>set (waiting s) - {p}. ch_id (objs (cli (lk s)) ! q) \<noteq> ch_id (objs (cli (lk s)) ! p)"
    and "q \<in> set (waiting s)" and "q \<noteq> p"
  shows "objs C' ! q = objs (cli (lk s)) ! q"
    and "mapped (ch_id (objs (cli (lk s)) ! q)) C' = mapped (ch_id (objs (cli (lk s)) ! q)) (cli (lk s))"
  using assms by (auto simp: touches_def)

lemma touches_waits: "touches p cc cc' \<Longrightarrow> waits cc' = waits cc"
  by (simp add: touches_def waits_def)

lemma dest_ok_cli:
  assumes "dest_ok l msS" and "\<And>x. dest x C' = dest x (cli l)" and "\<And>x. known x C' = known x (cli l)"
  shows "dest_ok (cli_moves l ev C') msS"
  using assms by (simp add: dest_ok_def cli_moves_def)

lemma tgt_relay_inv:
  assumes "path_rel s msS msC" and "tgt s x = Some e" and "side_step (cli (lk s)) e ev C' e'"
  shows "path_inv (s\<lparr>lk := cli_moves (lk s) ev C', tgt := (tgt s)(x \<mapsto> e')\<rparr>)" (is "path_inv ?s'")
proof -
  note R = path_relD [OF assms(1)]
  have o: "owns x (cli (lk s)) e" using R(3) assms(2) by (simp add: cli_half_def half_inv_def)
  obtain new where n: "keeps (cli (lk s)) msC C' (msC @ new)" "spawned C' = []" "effect ev (cli (lk s)) new C'"
      "relay_frames x e e' new"
    using side_step_effect [OF assms(3) o R(7,9,13,11)] by blast
  have t: "touches (sd_ch e) (cli (lk s)) C'" using side_step_owns [OF assms(3) o] by blast
  have ne: "ch_id (objs (cli (lk s)) ! q) \<noteq> x" if "q \<in> set (waiting s)" for q
    using R(4) assms(2) that by (auto simp: waiting_ok_def)
  then have ids: "objs C' ! q = objs (cli (lk s)) ! q"
      "mapped (ch_id (objs (cli (lk s)) ! q)) C' = mapped (ch_id (objs (cli (lk s)) ! q)) (cli (lk s))"
      if "q \<in> set (waiting s)" for q
    using waiting_touches [OF t _ that] that o by (auto simp: owns_def)
  have w: "waiting ?s' = waiting s" by (simp add: waiting_def cli_moves_def touches_waits [OF t])
  have l: "link_rel (lk ?s') msS (msC @ new)"
    using link_cli_effect [OF R(1) n(1-3)] by (simp add: cli_moves_def)
  have L: "live_cli ?s' = (live_cli s)(x := up_live (sd_up e'))" "live_srv ?s' = live_srv s"
    using n(1) ids w by (auto simp: live_srv_def live_cli_def cli_moves_def fun_eq_iff split: option.splits)
  have quiet: "log_write ev (wrote_cli (lk s)) y = wrote_cli (lk s) y \<and> \<not> ((live_cli s)(x := up_live (sd_up e'))) y"
    if "\<not> live_cli s y" for y
    using that assms(2) side_step_live [OF assms(3)] side_step_logs(1) [OF assms(3) o]
    by (cases "y = x") (auto simp: live_cli_def)
  have "cli_half ?s' (msC @ new)"
    unfolding cli_half_def L
    using half_relay [OF R(3) [unfolded cli_half_def] assms(2,3) R(7) n(4) _ R(14)] R(2) assms(2)
    by (simp add: cli_moves_def live_cli_def srv_half_def half_inv_def)
  moreover have "srv_half ?s' msS"
    unfolding srv_half_def L
    using half_peer [OF R(2) [unfolded srv_half_def] effect_dest(2) [OF n(3)] quiet] by (simp add: cli_moves_def fun_upd_def)
  moreover have "waiting_ok ?s'"
  proof -
    have "length (objs C') = length (objs (cli (lk s)))" using t by (simp add: touches_def)
    with R(4) ids ne have "p < length (objs C') \<and> ((tgt s)(x \<mapsto> e')) (ch_id (objs C' ! p)) = None
        \<and> mapped (ch_id (objs C' ! p)) C' \<and> status (objs C' ! p) \<noteq> chClosed" if "p \<in> set (waiting s)" for p
      using that by (simp add: waiting_ok_def)
    moreover have "log_write ev (wrote_cli (lk s)) y = [] \<and> log_read ev (got_cli (lk s)) y = []"
      if "((tgt s)(x \<mapsto> e')) y = None" for y
      using that R(4) side_step_logs [OF assms(3) o, of y] by (simp add: waiting_ok_def split: if_splits)
    ultimately show ?thesis
      using R(4) unfolding waiting_ok_def w by (simp add: cli_moves_def)
  qed
  moreover have "dest_ok (lk ?s') msS"
    using dest_ok_cli [OF R(5), of C'] effect_dest(1) [OF n(3)] n(1) by simp
  ultimately show ?thesis using l unfolding path_inv_def path_rel_def by blast
qed

lemma dispatched_inv:
  assumes "path_rel s msS msC" and "length t < 65530" and "\<not> known (nextID (srv (lk s))) (srv (lk s))"
    and "OpenChannel (srv (lk s)) t = (Inr p, S')"
  shows "path_inv (s\<lparr>lk := (lk s)\<lparr>srv := S'\<rparr>, pub := (pub s)(nextID (srv (lk s)) \<mapsto> new_side p t c)\<rparr>)"
    (is "path_inv ?s'")
proof -
  let ?i = "nextID (srv (lk s))"
  note R = path_relD [OF assms(1)]
  have e: "recv_effect (MNew ?i t) (srv (lk s)) [] S'"
    using open_effect [OF R(6,8) assms(2-4)] by blast
  have objs: "objs S' = objs (srv (lk s)) @ [newChannel ?i t]" "p = length (objs (srv (lk s)))"
    using assms(4) R(8) assms(2)
    by (auto simp: OpenChannel_def Let_def sendFrame_def split: prod.splits option.splits)
  have i: "wrote_srv (lk s) ?i = []" "got_srv (lk s) ?i = []" "\<not> known ?i (cli (lk s))"
    using R(16) [of ?i] assms(3) by (auto simp: life_def)
  have "pub s ?i = None"
    using R(2) owns_known [OF R(6)] assms(3) unfolding srv_half_def half_inv_def by (metis option.exhaust)
  then have L: "live_srv ?s' = live_srv s" "live_cli ?s' = live_cli s"
    using e assms(3)
    by (auto simp: live_srv_def live_cli_def waiting_def new_side_def fun_eq_iff split: option.splits)
  have "half_inv (live_srv s) (live_cli s) (msS @ [MNew ?i t]) S' (cli (lk s)) (pub s)
      (wrote_srv (lk s)) (got_srv (lk s)) (wrote_cli (lk s))"
    using e by (intro half_quiet [OF R(2) [unfolded srv_half_def]] keeps_objs_alloc [OF objs(1)]) auto
  moreover have "owns ?i S' (new_side p t c)"
    using e objs by (simp add: owns_def new_side_def newChannel_def)
  ultimately have "srv_half ?s' (msS @ [MNew ?i t])"
    unfolding srv_half_def L using i streams_new [of p t c] by (auto simp: half_inv_def new_side_def)
  moreover have "cli_half ?s' msC"
    unfolding cli_half_def L using half_peer [OF R(3) [unfolded cli_half_def], of S'] e by simp
  moreover have "waiting_ok ?s'" using R(4) by (simp add: waiting_ok_def waiting_def)
  moreover have "dest_ok (lk ?s') (msS @ [MNew ?i t])"
  proof -
    have "dest ?i (srv (lk s)) = None" using assms(3) by (simp add: known_def dest_def)
    then have "MNew ?i u \<notin> set msS" for u
      using R(5) unfolding dest_ok_def by (metis option.distinct(1))
    with R(5) e i(3) show ?thesis by (auto simp: dest_ok_def)
  qed
  moreover have "link_rel (lk ?s') (msS @ [MNew ?i t]) msC"
    using link_open_inv [OF R(1) assms(2-4)] by simp
  ultimately show ?thesis unfolding path_inv_def path_rel_def by blast
qed

lemma dest_ok_deliver:
  assumes "dest_ok l (m # msS)" and "recv_effect m (cli l) new C'" and "objs S' = objs (srv l)"
  shows "dest_ok (l\<lparr>srv := S', cli := C'\<rparr>) msS"
  using assms(1,2) obs_cong(5) [OF assms(3)] by (cases m) (auto simp: dest_ok_def)

lemma cli_reads_inv:
  assumes "path_rel s msS msC" and "arrived (srv (lk s))" and p: "parked (cli (lk s)) = None"
    and dl: "deliver (srv (lk s)) (cli (lk s)) now = Some (S', C')"
  shows "path_inv (s\<lparr>lk := (lk s)\<lparr>srv := S', cli := C'\<rparr>\<rparr>)" (is "path_inv ?s'")
proof -
  note R = path_relD [OF assms(1)]
  obtain m ms where ms: "msS = m # ms" using head_in_transit [OF R(8) assms(2)] by blast
  obtain new where e: "link_rel ((lk s)\<lparr>srv := S', cli := C'\<rparr>) ms (msC @ new)" "recv_effect m (cli (lk s)) new C'"
      "objs S' = objs (srv (lk s))" "channels S' = channels (srv (lk s))"
    using link_to_cli_inv [of "lk s" m ms msC now] R(1) ms dl by auto
  have "\<not> shut (conn (cli (lk s)))" using R(9) by (simp add: wire_def writable_def)
  note k = deliver_keeps_objs [OF R(8) [unfolded ms] this dl]
  have mp: "mapped y (cli (lk s)) \<Longrightarrow> mapped y C'" for y using e(2) by (cases m) auto
  have w: "waiting ?s' = waiting s @ (if is_new m then [length (objs (cli (lk s)))] else [])"
    using k(2) p by (simp add: waiting_def)
  have bd: "q < length (objs (cli (lk s)))" if "q \<in> set (waiting s)" for q
    using R(4) that by (simp add: waiting_ok_def)
  have kq: "ch_id (objs C' ! q) = ch_id (objs (cli (lk s)) ! q) \<and> status (objs C' ! q) = status (objs (cli (lk s)) ! q)
      \<and> q < length (objs C')" if "q \<in> set (waiting s)" for q
    using k(1) bd [OF that] by (simp add: keeps_objs_def)
  have new: "objs C' ! length (objs (cli (lk s))) = newChannel i t" "length (objs (cli (lk s))) < length (objs C')"
      "\<not> known i (cli (lk s))" "tgt s i = None" if "m = MNew i t" for i t
  proof -
    show "objs C' ! length (objs (cli (lk s))) = newChannel i t" "length (objs (cli (lk s))) < length (objs C')"
      using k(3) [OF p that] by simp_all
    show u: "\<not> known i (cli (lk s))" using fits_cli(1) [of "lk s" m ms msC] R(1) ms that by simp
    show "tgt s i = None"
      using R(3) owns_known [OF R(7)] u unfolding cli_half_def half_inv_def by (metis option.exhaust)
  qed
  have L: "live_cli ?s' = live_cli s" "live_srv ?s' = live_srv s"
  proof -
    show "live_srv ?s' = live_srv s" using obs_cong(3) [OF e(3)] by (intro live_srv_known) simp_all
    show "live_cli ?s' = live_cli s"
    proof (cases m)
      case (MNew i t)
      with w kq new [OF MNew] e(2) show ?thesis
        by (auto simp: live_cli_def newChannel_def fun_eq_iff split: option.splits)
    qed (use w kq e(2) in \<open>auto intro!: live_cli_same\<close>)
  qed
  have "srv_half ?s' ms"
    unfolding srv_half_def L using half_taken [OF R(2) [unfolded srv_half_def ms] e(2-4)] by simp
  moreover have "cli_half ?s' (msC @ new)"
    unfolding cli_half_def L
    using half_quiet [OF R(3) [unfolded cli_half_def] k(1) mp, of new S'] recv_quiet [OF e(2)] obs_cong(4) [OF e(3)]
    by simp
  moreover have "waiting_ok ?s'"
  proof (cases m)
    case (MNew i t)
    with R(4) w bd kq mp new [OF MNew] e(2) show ?thesis
      by (auto simp: waiting_ok_def newChannel_def)
  qed (use R(4) w kq mp in \<open>auto simp: waiting_ok_def\<close>)
  moreover have "dest_ok (lk ?s') ms" using dest_ok_deliver [OF R(5) [unfolded ms] e(2,3)] by simp
  ultimately show ?thesis using e(1) unfolding path_inv_def path_rel_def by auto
qed

lemma srv_reads_inv:
  assumes "path_rel s msS msC" and "arrived (cli (lk s))"
    and dl: "deliver (cli (lk s)) (srv (lk s)) now = Some (C', S')"
  shows "path_inv (s\<lparr>lk := (lk s)\<lparr>srv := S', cli := C'\<rparr>\<rparr>)" (is "path_inv ?s'")
proof -
  note R = path_relD [OF assms(1)]
  obtain m ms where ms: "msC = m # ms" using head_in_transit [OF R(9) assms(2)] by blast
  obtain new where e: "link_rel ((lk s)\<lparr>srv := S', cli := C'\<rparr>) (msS @ new) ms" "recv_effect m (srv (lk s)) new S'"
      "objs C' = objs (cli (lk s))" "channels C' = channels (cli (lk s))"
    using link_to_srv_inv [of "lk s" msS m ms now] R(1) ms dl by auto
  have nn: "\<not> is_new m" using fits_srv(2) [of "lk s" msS m ms] R(1) ms by simp
  have sh: "\<not> shut (conn (srv (lk s)))" using R(8) by (simp add: wire_def writable_def)
  note k = deliver_keeps_objs(1) [OF R(9) [unfolded ms] sh dl]
  have mp: "mapped y (srv (lk s)) \<Longrightarrow> mapped y S'" for y using e(2) by (cases m) auto
  have kn: "known y S' = known y (srv (lk s))" "dest y S' = dest y (srv (lk s))" for y
    using e(2) nn by (cases m; auto)+
  have C: "newCh C' = newCh (cli (lk s))" "parked C' = parked (cli (lk s))"
    using dl by (auto simp: deliver_def split: option.splits)
  have w: "waiting ?s' = waiting s" by (simp add: waiting_def waits_def C)
  have L: "live_cli ?s' = live_cli s" "live_srv ?s' = live_srv s"
    using w e(3) obs_cong(3) [OF e(3)] kn by (auto intro!: live_cli_same live_srv_known)
  have "cli_half ?s' ms"
    unfolding cli_half_def L using half_taken [OF R(3) [unfolded cli_half_def ms] e(2-4)] by simp
  moreover have "srv_half ?s' (msS @ new)"
    unfolding srv_half_def L
    using half_quiet [OF R(2) [unfolded srv_half_def] k mp, of new C'] recv_quiet [OF e(2)] obs_cong(4) [OF e(3)]
    by simp
  moreover have "waiting_ok ?s'" using R(4) w e(3,4) by (simp add: waiting_ok_def mapped_def)
  moreover have "dest_ok (lk ?s') (msS @ new)"
  proof -
    have "MNew y t \<notin> set new" for y t using e(2) nn by (cases m) auto
    with R(5) kn(2) obs_cong(3,5) [OF e(3)] show ?thesis by (simp add: dest_ok_def)
  qed
  ultimately show ?thesis using e(1) unfolding path_inv_def path_rel_def by auto
qed

lemma accept_waits:
  assumes "AcceptChannel pick cc = (Returned (Inr p), cc')"
  shows "waits cc = p # waits cc'" and "objs cc' = objs cc" and "channels cc' = channels cc"
  using assms by (auto simp: AcceptChannel_def waits_def split: list.splits if_splits option.splits)

lemma cli_quiet_inv:
  assumes "path_rel s msS msC" and "keeps (cli (lk s)) msC C' (msC @ new)" "spawned C' = []"
    "effect EvQuiet (cli (lk s)) new C'" and "\<And>y. MClose y \<notin> set new"
    and "objs C' = objs (cli (lk s))" and "channels C' = channels (cli (lk s))" and "D @ waits C' = waiting s"
  shows "path_inv (s\<lparr>lk := cli_moves (lk s) EvQuiet C', dialing := D\<rparr>)" (is "path_inv ?s'")
proof -
  note R = path_relD [OF assms(1)]
  have w: "waiting ?s' = waiting s" using assms(8) by (simp add: waiting_def cli_moves_def)
  have L: "live_cli ?s' = live_cli s"
    by (rule live_cli_same) (simp_all add: w assms(6) obs_cong(3) [OF assms(6)])
  have L': "live_srv ?s' = live_srv s" by (rule live_srv_known) (simp_all add: cli_moves_def)
  have d: "data y new = []" for y using quiet_transit(1) [of new "\<lambda>i. known i (cli (lk s))"] assms(4) by simp
  have "link_rel (lk ?s') msS (msC @ new)"
    using link_cli_effect [OF R(1) assms(2-4)] by (simp add: cli_moves_def)
  moreover have "srv_half ?s' msS"
    unfolding srv_half_def L L'
    using half_peer [OF R(2) [unfolded srv_half_def] effect_dest(2) [OF assms(4)]] by (simp add: cli_moves_def)
  moreover have "cli_half ?s' (msC @ new)"
    unfolding cli_half_def L L'
    using half_quiet [OF R(3) [unfolded cli_half_def] keeps_objs_eq [OF assms(6)], of new] assms(5,7) d
    by (simp add: cli_moves_def mapped_def)
  moreover have "waiting_ok ?s'" using R(4) w assms(6,7) by (simp add: waiting_ok_def mapped_def cli_moves_def)
  moreover have "dest_ok (lk ?s') msS"
    using dest_ok_cli [OF R(5), of C'] obs_cong(3,5) [OF assms(6)] by simp
  ultimately show ?thesis unfolding path_inv_def path_rel_def by blast
qed

lemma got_channel_inv:
  assumes "path_rel s msS msC" and "AcceptChannel pick (cli (lk s)) = (Returned (Inr p), C')"
  shows "path_inv (s\<lparr>lk := cli_moves (lk s) EvQuiet C', dialing := dialing s @ [p]\<rparr>)"
proof -
  note R = path_relD [OF assms(1)]
  have "keeps (cli (lk s)) msC C' (msC @ []) \<and> spawned C' = spawned (cli (lk s)) \<and> effect EvQuiet (cli (lk s)) [] C'"
    using accept_effect [OF R(7,9) assms(2)] by simp
  then show ?thesis
    using cli_quiet_inv [OF assms(1), of C' "[]" "dialing s @ [p]"] accept_waits [OF assms(2)] R(11)
    by (simp add: waiting_def)
qed

lemma ping_keeps: "KeepAlive_tick cc timeout now = (True, cc') \<Longrightarrow>
    objs cc' = objs cc \<and> channels cc' = channels cc \<and> waits cc' = waits cc"
  by (auto simp: KeepAlive_tick_def sendFrame_def waits_def split: if_splits prod.splits)

lemma cli_ping_inv:
  assumes "path_rel s msS msC" and "KeepAlive_tick (cli (lk s)) timeout now = (True, C')"
  shows "path_inv (s\<lparr>lk := cli_moves (lk s) EvQuiet C'\<rparr>)"
proof -
  note R = path_relD [OF assms(1)]
  obtain b where "keeps (cli (lk s)) msC C' (msC @ [MPing b])" "spawned C' = spawned (cli (lk s))"
      "effect EvQuiet (cli (lk s)) [MPing b] C'"
    using ping_effect [OF R(7,9) assms(2)] by blast
  then show ?thesis
    using cli_quiet_inv [OF assms(1), of C' "[MPing b]" "dialing s"] ping_keeps [OF assms(2)] R(11)
    by (simp add: waiting_def)
qed

lemma srv_ping_inv:
  assumes "path_rel s msS msC" and "KeepAlive_tick (srv (lk s)) timeout now = (True, S')"
  shows "path_inv (s\<lparr>lk := srv_moves (lk s) EvQuiet S'\<rparr>)" (is "path_inv ?s'")
proof -
  note R = path_relD [OF assms(1)]
  obtain b where b: "keeps (srv (lk s)) msS S' (msS @ [MPing b])" "spawned S' = spawned (srv (lk s))"
      "effect EvQuiet (srv (lk s)) [MPing b] S'"
    using ping_effect [OF R(6,8) assms(2)] by blast
  note k = ping_keeps [OF assms(2)]
  have L: "live_srv ?s' = live_srv s"
    by (rule live_srv_known) (simp_all add: srv_moves_def b(1))
  have L': "live_cli ?s' = live_cli s" by (rule live_cli_same) (simp_all add: srv_moves_def waiting_def)
  have "link_rel (lk ?s') (msS @ [MPing b]) msC"
    using link_srv_effect [OF R(1) b(1) _ b(3)] b(2) R(10) by (simp add: srv_moves_def)
  moreover have "cli_half ?s' msC"
    unfolding cli_half_def L L'
    using half_peer [OF R(3) [unfolded cli_half_def] effect_dest(2) [OF b(3)]] by (simp add: srv_moves_def)
  moreover have "srv_half ?s' (msS @ [MPing b])"
    unfolding srv_half_def L L'
    using half_quiet [OF R(2) [unfolded srv_half_def] keeps_objs_eq, of S' "[MPing b]"] k
    by (simp add: srv_moves_def mapped_def)
  moreover have "waiting_ok ?s'" using R(4) by (simp add: waiting_ok_def waiting_def srv_moves_def)
  ultimately show ?thesis
    using dest_ok_effect [OF R(5) b(3)] unfolding path_inv_def path_rel_def by auto
qed

text \<open>The end of the wait: the dial succeeds and a relay begins, or it fails and the channel is closed.\<close>

lemma waiting_remove1:
  assumes "waiting_ok s" and "p \<in> set (dialing s)" and "cc_wf (cli (lk s))"
  shows "set (remove1 p (dialing s) @ waits (cli (lk s))) = set (waiting s) - {p}"
    and "distinct (remove1 p (dialing s) @ waits (cli (lk s)))"
    and "q \<in> set (waiting s) \<Longrightarrow> ch_id (objs (cli (lk s)) ! q) = ch_id (objs (cli (lk s)) ! p) \<longleftrightarrow> q = p"
proof -
  have r: "remove1 p (dialing s) @ waits (cli (lk s)) = remove1 p (waiting s)"
    using assms(2) by (simp add: waiting_def remove1_append)
  have d: "distinct (waiting s)" using assms(1) by (simp add: waiting_ok_def)
  then show "set (remove1 p (dialing s) @ waits (cli (lk s))) = set (waiting s) - {p}"
    "distinct (remove1 p (dialing s) @ waits (cli (lk s)))"
    unfolding r by simp_all
  have "p \<in> set (waiting s)" using assms(2) by (simp add: waiting_def)
  then show "q \<in> set (waiting s) \<Longrightarrow> ch_id (objs (cli (lk s)) ! q) = ch_id (objs (cli (lk s)) ! p) \<longleftrightarrow> q = p"
    using assms(1,3) nth_eq_iff_index_eq [of "map ch_id (objs (cli (lk s)))" q p]
    by (auto simp: waiting_ok_def cc_wf_def uniq_def)
qed

lemma dial_ok_inv:
  assumes "path_rel s msS msC" and p: "p \<in> set (dialing s)" and ch: "ch = objs (cli (lk s)) ! p"
  shows "path_inv (s\<lparr>tgt := (tgt s)(ch_id ch \<mapsto> new_side p (ch_target ch) c), dialing := remove1 p (dialing s)\<rparr>)"
    (is "path_inv ?s'")
proof -
  note R = path_relD [OF assms(1)]
  note w = waiting_remove1 [OF R(4) p R(7)]
  have W: "set (waiting ?s') = set (waiting s) - {p}" "distinct (waiting ?s')"
    using w(1,2) by (simp_all add: waiting_def)
  have pw: "p \<in> set (waiting s)" using p by (simp add: waiting_def)
  then have x: "tgt s (ch_id ch) = None" "wrote_cli (lk s) (ch_id ch) = []" "got_cli (lk s) (ch_id ch) = []"
      "owns (ch_id ch) (cli (lk s)) (new_side p (ch_target ch) c)"
    using R(4) ch by (auto simp: waiting_ok_def owns_def new_side_def)
  have "live_cli ?s' y = live_cli s y" for y
  proof (cases "y = ch_id ch")
    case True
    then show ?thesis using pw x(1) ch by (auto simp: live_cli_def new_side_def)
  next
    case False
    then show ?thesis using W(1) ch by (auto simp: live_cli_def split: option.splits)
  qed
  then have L: "live_cli ?s' = live_cli s" by blast
  have L': "live_srv ?s' = live_srv s" by (rule live_srv_known) simp_all
  have "srv_half ?s' msS" using R(2) unfolding srv_half_def L L' by simp
  moreover have "cli_half ?s' msC"
    using R(3) x streams_new [of p "ch_target ch" c] unfolding cli_half_def L L'
    by (auto simp: half_inv_def new_side_def)
  moreover have "waiting_ok ?s'"
    using R(4) W w(3) ch by (auto simp: waiting_ok_def)
  ultimately show ?thesis using R(1,5) unfolding path_inv_def path_rel_def by auto
qed

lemma half_dropped:
  assumes "half_inv L L' msA A B side wA gA wB" and "touches p A A'" and "ch_id (objs A ! p) = x"
    and "side x = None" and "set new \<subseteq> {MClose x}"
  shows "half_inv (L(x := False)) L' (msA @ new) A' B side wA gA wB"
proof -
  note H = assms(1) [unfolded half_inv_def]
  have d: "data y new = []" for y using assms(5) by (induction new) auto
  have "eof_inv ((L(x := False)) y) y (msA @ new) B" for y
    using H assms(5) d by (intro eof_inv_send [of "L y" y msA B]) (auto split: if_splits)
  moreover have "owns y A' d" if "side y = Some d" for y d
  proof -
    have "y \<noteq> x" using that assms(4) by auto
    with that H assms(3) show ?thesis by (intro owns_touches [OF assms(2)]) auto
  qed
  ultimately show ?thesis using H unfolding half_inv_def by auto
qed

lemma dial_failed_inv:
  assumes "path_rel s msS msC" and p: "p \<in> set (dialing s)" and cl: "channel_Close (cli (lk s)) p = (r, C')"
  shows "path_inv (s\<lparr>lk := cli_moves (lk s) EvQuiet C', dialing := remove1 p (dialing s)\<rparr>)" (is "path_inv ?s'")
proof -
  note R = path_relD [OF assms(1)]
  note w = waiting_remove1 [OF R(4) p R(7)]
  let ?x = "ch_id (objs (cli (lk s)) ! p)"
  have pw: "p \<in> set (waiting s)" using p by (simp add: waiting_def)
  then have pn: "p < length (objs (cli (lk s)))" and x: "tgt s ?x = None" using R(4) by (auto simp: waiting_ok_def)
  note t = Close_touches [OF cl pn]
  obtain new where n: "set new \<subseteq> {MClose ?x}" "keeps (cli (lk s)) msC C' (msC @ new)"
      "spawned C' = spawned (cli (lk s))" "effect EvQuiet (cli (lk s)) new C'"
    using close_effect [OF R(7,9) pn cl] by blast
  have W: "set (waiting ?s') = set (waiting s) - {p}" "distinct (waiting ?s')"
    using w(1,2) touches_waits [OF t] by (simp_all add: waiting_def cli_moves_def)
  have ids: "objs C' ! q = objs (cli (lk s)) ! q"
      "mapped (ch_id (objs (cli (lk s)) ! q)) C' = mapped (ch_id (objs (cli (lk s)) ! q)) (cli (lk s))"
      if "q \<in> set (waiting s)" "q \<noteq> p" for q
    using waiting_touches [OF t _ that] w(3) by blast+
  have kn: "known ?x (cli (lk s))" using obs_nth(3) [OF R(7) pn] .
  have L: "live_cli ?s' = (live_cli s)(?x := False)" "live_srv ?s' = live_srv s"
  proof -
    show "live_srv ?s' = live_srv s" by (rule live_srv_known) (simp_all add: cli_moves_def)
    show "live_cli ?s' = (live_cli s)(?x := False)"
      using n(2) W(1) ids w(3) kn x
      by (auto simp: live_cli_def cli_moves_def fun_eq_iff split: option.splits)
  qed
  have "link_rel (lk ?s') msS (msC @ new)"
    using link_cli_effect [OF R(1) n(2) _ n(4)] n(3) R(11) by (simp add: cli_moves_def)
  moreover have "srv_half ?s' msS"
    unfolding srv_half_def L
    using half_peer [OF R(2) [unfolded srv_half_def] effect_dest(2) [OF n(4)], of "wrote_cli (lk s)" "(live_cli s)(?x := False)"]
    by (simp add: cli_moves_def)
  moreover have "cli_half ?s' (msC @ new)"
    unfolding cli_half_def L
    using half_dropped [OF R(3) [unfolded cli_half_def] t refl x n(1)] by (simp add: cli_moves_def)
  moreover have "waiting_ok ?s'"
  proof -
    have "length (objs C') = length (objs (cli (lk s)))" using t by (simp add: touches_def)
    with R(4) W ids show ?thesis by (simp add: waiting_ok_def cli_moves_def)
  qed
  moreover have "dest_ok (lk ?s') msS"
    using dest_ok_cli [OF R(5), of C'] effect_dest(1) [OF n(4)] n(2) by simp
  ultimately show ?thesis unfolding path_inv_def path_rel_def by blast
qed

lemma path_step_inv:
  assumes "path_inv s" and "path_step s s'"
  shows "path_inv s'"
proof -
  from assms(1) obtain msS msC where R: "path_rel s msS msC" by (auto simp: path_inv_def)
  from assms(2) show ?thesis
  proof (cases rule: path_step.cases)
    case (dispatched t p S' c)
    then show ?thesis using dispatched_inv [OF R] by simp
  next
    case (got_channel pick p C')
    then show ?thesis using got_channel_inv [OF R] by simp
  next
    case (dial_ok p ch c)
    then show ?thesis using dial_ok_inv [OF R] by simp
  next
    case (dial_failed p r C')
    then show ?thesis using dial_failed_inv [OF R] by simp
  next
    case (pub_relay x e ev S' e')
    then show ?thesis using pub_relay_inv [OF R] by simp
  next
    case (tgt_relay x e ev C' e')
    then show ?thesis using tgt_relay_inv [OF R] by simp
  next
    case (srv_reads now C' S')
    then show ?thesis using srv_reads_inv [OF R] by simp
  next
    case (cli_reads now S' C')
    then show ?thesis using cli_reads_inv [OF R] by simp
  next
    case (srv_ping timeout now S')
    then show ?thesis using srv_ping_inv [OF R] by simp
  next
    case (cli_ping timeout now C')
    then show ?thesis using cli_ping_inv [OF R] by simp
  qed (use path_relD(10,11) [OF R] in simp_all)
qed

interpretation path: invariant_system path_init path_step path_inv
  by unfold_locales (auto intro: path_init_inv path_step_inv)


section \<open>Properties\<close>

text \<open>What the parts of the invariant say of two relays at the ends of one channel.\<close>

lemma up_ok_prefix: "up_ok e wrote \<Longrightarrow> prefix wrote (inp (ep_conn (sd_start e)))"
  by (auto simp: up_ok_def)

lemma up_ok_all: "up_ok e wrote \<Longrightarrow> sd_up e = UpEnded None \<Longrightarrow> wrote = inp (ep_conn (sd_start e))"
  by (auto simp: up_ok_def)

lemma down_ok_out:
  assumes "down_ok e got"
  obtains w where "out (ep_conn (sd_ep e)) = out (ep_conn (sd_start e)) @ w" "prefix w got"
    "sd_down e = DownEnded None \<Longrightarrow> w = got"
  using assms by (auto simp: down_ok_def)

lemma half_delivers:
  assumes "down_ok d got" and "prefix got wrote" and "up_ok e wrote"
    and "sd_down d = DownEnded None \<Longrightarrow> got = wrote"
  shows "\<exists>w. out (ep_conn (sd_ep d)) = out (ep_conn (sd_start d)) @ w \<and> prefix w (inp (ep_conn (sd_start e)))
     \<and> (sd_down d = DownEnded None \<and> sd_up e = UpEnded None \<longrightarrow> w = inp (ep_conn (sd_start e)))"
proof -
  obtain w where w: "out (ep_conn (sd_ep d)) = out (ep_conn (sd_start d)) @ w" "prefix w got"
      "sd_down d = DownEnded None \<Longrightarrow> w = got"
    using down_ok_out [OF assms(1)] by metis
  moreover have "prefix w (inp (ep_conn (sd_start e)))"
    using w(2) assms(2) up_ok_prefix [OF assms(3)] by (blast intro: prefix_order.trans)
  ultimately show ?thesis using assms(4) up_ok_all [OF assms(3)] by auto
qed


section \<open>A run of the path\<close>

text \<open>
  A public client sends three bytes and shuts its side; the server relays them over
  channel 1, the client dials the target and its relay delivers them.
\<close>

definition demo_side :: "up_pc \<Rightarrow> relay_side" where
  "demo_side u = (new_side 0 ''web:80'' (demo_end [1, 2, 3]))\<lparr>sd_ep := demo_end [], sd_up := u\<rparr>"

definition demo_pub :: "link \<Rightarrow> up_pc \<Rightarrow> path" where
  "demo_pub l u = \<lparr>lk = l, pub = [1 \<mapsto> demo_side u], tgt = Map.empty, dialing = []\<rparr>"

lemma demo_pub_step:
  assumes "path_reachable (demo_pub l u)" and "side_step (srv l) (demo_side u) ev S' (demo_side u')"
    and "l' = srv_moves l ev S'"
  shows "path_reachable (demo_pub l' u')"
proof (rule reachable_step [OF assms(1)])
  show "path_step (demo_pub l u) (demo_pub l' u')"
    using pub_relay [of "demo_pub l u" 1 "demo_side u" ev S' "demo_side u'"] assms(2,3)
    by (simp add: demo_pub_def)
qed

lemma srv_moves_idle [simp]: "srv_moves l EvQuiet (srv l) = l"
  by (simp add: srv_moves_def)

lemma demo_pub_opened: "path_reachable (demo_pub demo_open (UpChecking [1, 2, 3]))"
proof -
  let ?s0 = "\<lparr>lk = demo_init, pub = Map.empty, tgt = Map.empty, dialing = []\<rparr> :: path"
  let ?e = "new_side 0 ''web:80'' (demo_end [1, 2, 3])"
  let ?s1 = "?s0\<lparr>lk := demo_open, pub := [1 \<mapsto> ?e]\<rparr>"
  have "path_init ?s0" by (auto simp: path_init_def link_init_def demo_init_def)
  moreover have "OpenChannel (srv demo_init) ''web:80'' = (Inr 0, snd (OpenChannel (srv demo_init) ''web:80''))"
    using demo_open_srv(2) by (simp add: prod_eq_iff)
  from dispatched [of "''web:80''" ?s0 0, simplified, OF _ this, of "demo_end [1, 2, 3]"]
  have "path_step ?s0 ?s1"
    by (simp add: demo_open_def demo_init_def NewCtrlConn_def known_def view_def)
  moreover have "path_step ?s1 (demo_pub demo_open (UpChecking [1, 2, 3]))"
  proof -
    have "side_step (srv demo_open) ?e EvQuiet (srv demo_open) (?e\<lparr>sd_ep := demo_end [], sd_up := UpChecking [1, 2, 3]\<rparr>)"
      by (rule up_read [where k = 9]) (simp_all add: new_side_def ep_Read_def demo_end_def bufferSize_def)
    from pub_relay [of ?s1 1, OF _ _] this show ?thesis by (fastforce simp: demo_pub_def demo_side_def)
  qed
  ultimately show ?thesis by (meson reachable_init reachable_step)
qed

lemma demo_pub_read:
  assumes "path_reachable (demo_pub l u)" and "arrived (srv l)" and "parked (cli l) = None"
    and "deliver (srv l) (cli l) now = Some (S', C')" and "l' = l\<lparr>srv := S', cli := C'\<rparr>"
  shows "path_reachable (demo_pub l' u)"
  using reachable_step [OF assms(1) cli_reads [of "demo_pub l u" now S' C']] assms(2-5)
  by (simp add: demo_pub_def)

lemma demo_pub_delivered: "path_reachable (demo_pub demo_got UpReading)"
proof -
  have "path_reachable (demo_pub demo_open (UpWriting [1, 2, 3]))"
  proof (rule demo_pub_step [OF demo_pub_opened])
    have "side_step (srv demo_open) (demo_side (UpChecking [1, 2, 3])) EvQuiet (srv demo_open)
        ((demo_side (UpChecking [1, 2, 3]))\<lparr>sd_up := UpWriting [1, 2, 3]\<rparr>)"
      by (rule up_open) (simp_all add: demo_side_def new_side_def demo_open_srv newChannel_def less_channelStatus_def)
    then show "side_step (srv demo_open) (demo_side (UpChecking [1, 2, 3])) EvQuiet (srv demo_open)
        (demo_side (UpWriting [1, 2, 3]))" by (simp add: demo_side_def)
  qed simp
  then have "path_reachable (demo_pub demo_known (UpWriting [1, 2, 3]))"
  proof (rule demo_pub_read [OF _ _ _ demo_deliver])
    show "arrived (srv demo_open)"
    proof -
      have "dec_frame (enc_frame (frame_of (MNew 1 ''web:80'')) @ []) = Inr (frame_of (MNew 1 ''web:80''), [])"
        by (rule frame_codec.dec_enc) (rule frame_of_ok, simp)
      then show ?thesis by (simp add: arrived_def demo_open_srv NewCtrlConn_def)
    qed
  qed (simp_all add: demo_known_def demo_deliver, simp add: demo_open_def demo_init_def NewCtrlConn_def)
  then have "path_reachable (demo_pub demo_sent (UpWriting []))"
  proof (rule demo_pub_step)
    have c: "sd_ch (demo_side u) = 0" "(demo_side u)\<lparr>sd_up := v\<rparr> = demo_side v" "sd_up (demo_side u) = u" for u v
      by (simp_all add: demo_side_def new_side_def)
    have "write_turn (srv demo_known) 0 [1, 2, 3] = (TSent 3, srv demo_sent)"
      using demo_sent_srv(2) by (simp add: prod_eq_iff demo_sent_def)
    then have "side_step (srv demo_known) (demo_side (UpWriting [1, 2, 3]))
        (EvWrite (ch_id (objs (srv demo_known) ! 0)) (take 3 [1, 2, 3])) (srv demo_sent)
        ((demo_side (UpWriting [1, 2, 3]))\<lparr>sd_up := UpWriting (drop 3 [1, 2, 3])\<rparr>)"
      using up_sent [of "demo_side (UpWriting [1, 2, 3])" "[1, 2, 3]" "srv demo_known" 3 "srv demo_sent"] by (simp add: c)
    then show "side_step (srv demo_known) (demo_side (UpWriting [1, 2, 3]))
        (EvWrite 1 [1, 2, 3]) (srv demo_sent) (demo_side (UpWriting []))"
      by (simp add: c demo_known_ends newChannel_def)
    show "demo_sent = srv_moves demo_known (EvWrite 1 [1, 2, 3]) (srv demo_sent)"
      by (simp add: srv_moves_def demo_sent_def demo_logs)
  qed
  then have "path_reachable (demo_pub demo_got (UpWriting []))"
    by (rule demo_pub_read [OF _ demo_sent_arrived _ demo_got_deliver])
       (simp_all add: demo_got_def demo_got_deliver, simp add: demo_sent_def demo_known_ends NewCtrlConn_def)
  then show ?thesis
  proof (rule demo_pub_step)
    have "side_step (srv demo_got) (demo_side (UpWriting [])) EvQuiet (srv demo_got)
        ((demo_side (UpWriting []))\<lparr>sd_up := UpReading\<rparr>)"
      by (rule up_written) (simp add: demo_side_def)
    then show "side_step (srv demo_got) (demo_side (UpWriting [])) EvQuiet (srv demo_got) (demo_side UpReading)"
      by (simp add: demo_side_def)
  qed simp
qed

text \<open>The end of the public client's stream goes over the channel as a close frame.\<close>

definition demo_shut :: link where
  "demo_shut = demo_got\<lparr>srv := NewCtrlConn (new_conn [] \<lparr>out := enc_frame (frame_of (MClose 1))\<rparr>) 0
     \<lparr>nextID := 2, objs := [newChannel 1 ''web:80'' \<lparr>sendWindow := 65533, status := chWriteClosed\<rparr>], channels := [(1, 0)]\<rparr>\<rparr>"

definition demo_ended :: link where
  "demo_ended = demo_shut\<lparr>srv := (srv demo_shut)\<lparr>conn := new_conn []\<rparr>,
     cli := NewCtrlConn (new_conn []) 3 \<lparr>objs := [newChannel 1 ''web:80'' \<lparr>rb := [1, 2, 3], rerr := Some EOF\<rparr>],
       channels := [(1, 0)], newCh := [0]\<rparr>\<rparr>"

lemma demo_ended_deliver:
  "deliver (srv demo_shut) (cli demo_shut) 3 = Some (srv demo_ended, cli demo_ended)"
proof -
  have w: "wire (srv demo_shut) [MClose 1]" by (simp add: wire_def demo_shut_def NewCtrlConn_def)
  let ?d = "NewCtrlConn (new_conn []) 3 \<lparr>objs := [newChannel 1 ''web:80'' \<lparr>rb := [1, 2, 3]\<rparr>], channels := [(1, 0)], newCh := [0]\<rparr>"
  have c: "cli demo_shut = NewCtrlConn (new_conn []) 2
      \<lparr>objs := [newChannel 1 ''web:80'' \<lparr>rb := [1, 2, 3]\<rparr>], channels := [(1, 0)], newCh := [0]\<rparr>"
    by (simp add: demo_shut_def demo_got_ends)
  then have "deliver (srv demo_shut) (cli demo_shut) 3 =
      map_option (\<lambda>d. ((srv demo_shut)\<lparr>conn := (conn (srv demo_shut))\<lparr>out := inp (conn d)\<rparr>\<rparr>, d))
        (handleFrame ?d (frame_of (MClose 1)))"
    by (subst deliver_head [OF w]) (simp_all add: NewCtrlConn_def)
  also have "handleFrame ?d (frame_of (MClose 1)) = Some (cli demo_ended)"
    by (simp add: handleFrame_def frame_type_defs handleChannelClose_def setError_def NewCtrlConn_def upd_ch_def
        newChannel_def demo_ended_def)
  finally show ?thesis by (simp add: demo_ended_def demo_shut_def NewCtrlConn_def new_conn_def)
qed

lemma demo_pub_ended: "path_reachable (demo_pub demo_ended (UpEnded None))"
proof -
  have "path_reachable (demo_pub demo_shut (UpEnded None))"
  proof (rule demo_pub_step [OF demo_pub_delivered])
    have "channel_CloseWrite (srv demo_got) 0 = (None, srv demo_shut)"
      by (simp add: channel_CloseWrite_def demo_got_ends demo_shut_def newChannel_def NewCtrlConn_def Let_def
          sendFrame_writable maxFramePayload_def upd_ch_def)
    then have "side_step (srv demo_got) (demo_side UpReading) EvQuiet (srv demo_shut)
        ((demo_side UpReading)\<lparr>sd_ep := demo_end [], sd_up := UpEnded (copy_err EOF)\<rparr>)"
      by (intro up_eof [where k = 9 and b = "[]" and r = None])
         (simp_all add: demo_side_def new_side_def ep_Read_def demo_end_def)
    then show "side_step (srv demo_got) (demo_side UpReading) EvQuiet (srv demo_shut) (demo_side (UpEnded None))"
      by (simp add: demo_side_def copy_err_def)
  qed (simp add: srv_moves_def demo_shut_def)
  then show ?thesis
  proof (rule demo_pub_read [OF _ _ _ demo_ended_deliver])
    have "dec_frame (enc_frame (frame_of (MClose 1)) @ []) = Inr (frame_of (MClose 1), [])"
      by (rule frame_codec.dec_enc) (rule frame_of_ok, simp)
    then show "arrived (srv demo_shut)" by (simp add: arrived_def demo_shut_def NewCtrlConn_def)
  qed (simp_all add: demo_ended_def, simp add: demo_shut_def demo_got_ends NewCtrlConn_def)
qed

text \<open>The client takes the channel, dials and relays to the end of the stream.\<close>

definition demo_tgt :: "link \<Rightarrow> endpoint \<Rightarrow> down_pc \<Rightarrow> path" where
  "demo_tgt l c dn = \<lparr>lk = l, pub = [1 \<mapsto> demo_side (UpEnded None)],
     tgt = [1 \<mapsto> (new_side 0 ''web:80'' (demo_end []))\<lparr>sd_ep := c, sd_down := dn\<rparr>], dialing = []\<rparr>"

lemma demo_tgt_step:
  assumes "path_reachable (demo_tgt l c dn)"
    and "side_step (cli l) ((new_side 0 ''web:80'' (demo_end []))\<lparr>sd_ep := c, sd_down := dn\<rparr>) ev C'
       ((new_side 0 ''web:80'' (demo_end []))\<lparr>sd_ep := c', sd_down := dn'\<rparr>)"
  shows "path_reachable (demo_tgt (cli_moves l ev C') c' dn')"
  using reachable_step [OF assms(1) tgt_relay [of "demo_tgt l c dn" 1 _ ev C']] assms(2)
  by (simp add: demo_tgt_def)

lemma demo_dialed:
  "\<exists>l. path_reachable (demo_tgt l (demo_end []) DownReading)
     \<and> cli l = NewCtrlConn (new_conn []) 3
         \<lparr>objs := [newChannel 1 ''web:80'' \<lparr>rb := [1, 2, 3], rerr := Some EOF\<rparr>], channels := [(1, 0)]\<rparr>"
proof -
  let ?C = "(cli demo_ended)\<lparr>newCh := []\<rparr>" and ?s = "demo_pub demo_ended (UpEnded None)"
  let ?l = "cli_moves demo_ended EvQuiet ?C"
  let ?s1 = "?s\<lparr>lk := ?l, dialing := [0]\<rparr>"
  have "AcceptChannel True (cli demo_ended) = (Returned (Inr 0), ?C)"
    by (simp add: AcceptChannel_def demo_ended_def NewCtrlConn_def)
  then have "path_step ?s ?s1"
    using got_channel [of True ?s 0 ?C] by (simp add: demo_pub_def)
  then have r: "path_reachable ?s1" by (rule reachable_step [OF demo_pub_ended])
  have "path_step ?s1 (demo_tgt ?l (demo_end []) DownReading)"
    using dial_ok [of 0 ?s1 _ "demo_end []"]
    by (simp add: demo_tgt_def demo_pub_def demo_ended_def newChannel_def new_side_def cli_moves_def)
  with r have "path_reachable (demo_tgt ?l (demo_end []) DownReading)" by (rule reachable_step)
  then show ?thesis by (intro exI [of _ ?l]) (simp add: demo_ended_def NewCtrlConn_def)
qed

lemma demo_relayed: "\<exists>l c. path_reachable (demo_tgt l c (DownEnded None))"
proof -
  let ?sd = "\<lambda>c dn. (new_side 0 ''web:80'' (demo_end []))\<lparr>sd_ep := c, sd_down := dn\<rparr>"
  obtain l where l: "path_reachable (demo_tgt l (demo_end []) DownReading)" "cli l = NewCtrlConn (new_conn []) 3
      \<lparr>objs := [newChannel 1 ''web:80'' \<lparr>rb := [1, 2, 3], rerr := Some EOF\<rparr>], channels := [(1, 0)]\<rparr>"
    using demo_dialed by blast
  obtain C where C: "channel_Read (cli l) 0 bufferSize = (Returned ([1, 2, 3], None), C)"
      "rb (objs C ! 0) = []" "rerr (objs C ! 0) = Some EOF"
    by (simp add: l(2) channel_Read_def newChannel_def bufferSize_def Let_def NewCtrlConn_def sendWindowUpdate_def)
  obtain c where c: "ep_Write (demo_end []) [1, 2, 3] = (None, c)"
    by (simp add: ep_Write_def demo_end_def)
  have "path_reachable (demo_tgt (cli_moves l (EvRead (ch_id (objs (cli l) ! 0)) [1, 2, 3]) C) (demo_end []) (DownWriting [1, 2, 3]))"
    using down_read [of "?sd (demo_end []) DownReading" "cli l"] C(1)
    by (intro demo_tgt_step [OF l(1)]) (simp add: new_side_def)
  moreover have "side_step C (?sd (demo_end []) (DownWriting [1, 2, 3])) EvQuiet C (?sd c DownReading)"
    using down_wrote [of "?sd (demo_end []) (DownWriting [1, 2, 3])" "[1, 2, 3]" c C] c by (simp add: new_side_def)
  moreover have "side_step C (?sd c DownReading) EvQuiet C (?sd (closeWrite c) (DownEnded None))"
    using down_eof [of "?sd c DownReading" C "[]" EOF C] C(2,3)
    by (simp add: new_side_def channel_Read_def copy_err_def)
  ultimately show ?thesis
    using demo_tgt_step [where C' = C] by (metis moves_sel(4))
qed


end
