(* ===== verification/Path_Release.thy ===== *)
theory Path_Release
  imports Remote_Path
begin

text \<open>
  What a control connection still holds of its channels. \<^verbatim>\<open>channel.Close\<close> drops a channel
  from the multiplexer so that \<^verbatim>\<open>the channel map does not grow per handled connection\<close>
  (\<^verbatim>\<open>relay/stream.go\<close>). The theory shows it of the whole path: at each end the map holds
  exactly the channels whose relay has not returned, and at the client those that still
  wait for one.
\<close>

section \<open>Open relays\<close>

definition serving :: "(u32 \<rightharpoonup> relay_side) \<Rightarrow> u32 \<Rightarrow> bool" where
  "serving side x \<longleftrightarrow> (\<exists>e. side x = Some e \<and> \<not> sd_closed e)"

definition pending_ids :: "path \<Rightarrow> u32 set" where
  "pending_ids s = (\<lambda>p. ch_id (objs (cli (lk s)) ! p)) ` set (waiting s)"

definition held :: "path \<Rightarrow> bool" where
  "held s \<longleftrightarrow> (\<forall>x. mapped x (srv (lk s)) \<longrightarrow> serving (pub s) x)
     \<and> (\<forall>x. mapped x (cli (lk s)) \<longrightarrow> x \<in> pending_ids s \<or> serving (tgt s) x)"

lemma serving_upd: "serving (side(x \<mapsto> e)) y \<longleftrightarrow> (if y = x then \<not> sd_closed e else serving side y)"
  by (simp add: serving_def)

lemma serving_owned:
  assumes "serving side x" and "\<And>x e. side x = Some e \<Longrightarrow> owns x cc e"
  shows "mapped x cc"
  using assms by (fastforce simp: serving_def owns_def)

section \<open>Steps\<close>

text \<open>A channel that was open is not in the map after its close.\<close>

lemma Close_unmaps:
  assumes "channel_Close cc p = (r, cc')" and "status (objs cc ! p) \<noteq> chClosed"
  shows "\<not> mapped (ch_id (objs cc ! p)) cc'"
proof -
  let ?cc2 = "removeChannel (upd_ch p (\<lambda>ch. ch\<lparr>status := chClosed\<rparr>) cc) (ch_id (objs cc ! p))"
  have "cc' = snd (sendFrame ?cc2 FrameChannelClose (be_put32 (ch_id (objs cc ! p))))"
    using assms by (simp add: channel_Close_def Let_def)
  then have "channels cc' = channels ?cc2" by simp
  then show ?thesis by (simp add: mapped_def removeChannel_def)
qed

text \<open>A relay that has returned has dropped its channel.\<close>

lemma side_step_unmaps:
  assumes "side_step cc e ev cc' e'" and "owns x cc e" and "sd_closed e'" and "\<not> sd_closed e"
  shows "\<not> mapped x cc'"
  using assms(1)
proof (cases rule: side_step.cases)
  case (side_close u d r)
  with Close_unmaps [OF side_close(6)] assms(2,4) show ?thesis by (auto simp: owns_def)
qed (use assms(3,4) in simp_all)

lemma effect_mapped: "effect ev cc new cc' \<Longrightarrow> mapped x cc' \<Longrightarrow> mapped x cc"
  by (cases ev) auto

lemma side_step_serving:
  assumes "side_step cc e ev cc' e'" and "owns x cc e" and "effect ev cc new cc'" and "side x = Some e"
    and "\<And>y. mapped y cc \<Longrightarrow> y \<in> W \<or> serving side y" and "x \<notin> W" and "mapped y cc'"
  shows "y \<in> W \<or> serving (side(x \<mapsto> e')) y"
proof (cases "y = x")
  case True
  have "serving side x" using assms(5) [OF effect_mapped [OF assms(3)], of x] assms(6,7) True by simp
  then have "\<not> sd_closed e" using assms(4) by (simp add: serving_def)
  with side_step_unmaps [OF assms(1,2)] assms(7) True show ?thesis by (auto simp: serving_upd)
next
  case False
  with assms(5) [OF effect_mapped [OF assms(3,7)]] show ?thesis by (simp add: serving_upd)
qed

lemma owned:
  assumes "path_rel s msS msC"
  shows "pub s x = Some e \<Longrightarrow> owns x (srv (lk s)) e" and "tgt s x = Some d \<Longrightarrow> owns x (cli (lk s)) d"
  using path_relD(2,3) [OF assms] by (auto simp: srv_half_def cli_half_def half_inv_def)

lemma pending_unserved:
  assumes "path_rel s msS msC" and "tgt s x = Some d"
  shows "x \<notin> pending_ids s"
  using path_relD(4) [OF assms(1)] assms(2) by (auto simp: waiting_ok_def pending_ids_def)

lemma pending_same:
  assumes "set (waiting s') = set (waiting s)"
    and "\<And>p. p \<in> set (waiting s) \<Longrightarrow> ch_id (objs (cli (lk s')) ! p) = ch_id (objs (cli (lk s)) ! p)"
  shows "pending_ids s' = pending_ids s"
  using assms by (simp add: pending_ids_def)

lemma pub_relay_held:
  assumes "path_rel s msS msC" and "held s" and "pub s x = Some e" and "side_step (srv (lk s)) e ev S' e'"
  shows "held (s\<lparr>lk := srv_moves (lk s) ev S', pub := (pub s)(x \<mapsto> e')\<rparr>)" (is "held ?s'")
proof -
  note R = path_relD [OF assms(1)] and o = owned(1) [OF assms(1,3)]
  obtain new where "effect ev (srv (lk s)) new S'"
    using side_step_effect [OF assms(4) o R(6,8,12,10)] by blast
  from side_step_serving [where W = "{}" and side = "pub s", OF assms(4) o this assms(3)] assms(2)
  have "serving ((pub s)(x \<mapsto> e')) y" if "mapped y S'" for y using that by (simp add: held_def)
  moreover have "pending_ids ?s' = pending_ids s" by (rule pending_same) (simp_all add: waiting_def)
  ultimately show ?thesis using assms(2) by (simp add: held_def)
qed

lemma tgt_relay_held:
  assumes "path_rel s msS msC" and "held s" and "tgt s x = Some e" and "side_step (cli (lk s)) e ev C' e'"
  shows "held (s\<lparr>lk := cli_moves (lk s) ev C', tgt := (tgt s)(x \<mapsto> e')\<rparr>)" (is "held ?s'")
proof -
  note R = path_relD [OF assms(1)] and o = owned(2) [OF assms(1,3)]
  obtain new where n: "effect ev (cli (lk s)) new C'"
    using side_step_effect [OF assms(4) o R(7,9,13,11)] by blast
  have t: "touches (sd_ch e) (cli (lk s)) C'" using side_step_owns [OF assms(4) o] by blast
  have "ch_id (objs C' ! p) = ch_id (objs (cli (lk s)) ! p)" for p
    using t by (cases "p = sd_ch e") (simp_all add: touches_def)
  then have "pending_ids ?s' = pending_ids s"
    by (intro pending_same) (simp_all add: waiting_def touches_waits [OF t])
  moreover have "y \<in> pending_ids s \<or> serving ((tgt s)(x \<mapsto> e')) y" if "mapped y C'" for y
    using side_step_serving [where side = "tgt s", OF assms(4) o n assms(3) _ pending_unserved [OF assms(1,3)] that] assms(2)
    by (simp add: held_def)
  ultimately show ?thesis using assms(2) by (simp add: held_def)
qed

lemma dispatched_held:
  assumes "path_rel s msS msC" and "held s" and "length t < 65530" and "\<not> known (nextID (srv (lk s))) (srv (lk s))"
    and "OpenChannel (srv (lk s)) t = (Inr p, S')"
  shows "held (s\<lparr>lk := (lk s)\<lparr>srv := S'\<rparr>, pub := (pub s)(nextID (srv (lk s)) \<mapsto> new_side p t c)\<rparr>)" (is "held ?s'")
proof -
  note R = path_relD [OF assms(1)]
  have "recv_effect (MNew (nextID (srv (lk s))) t) (srv (lk s)) [] S'"
    using open_effect [OF R(6,8) assms(3-5)] by blast
  moreover have "pending_ids ?s' = pending_ids s" by (rule pending_same) (simp_all add: waiting_def)
  ultimately show ?thesis using assms(2) by (simp add: held_def serving_upd new_side_def)
qed

lemma dial_ok_held:
  assumes "path_rel s msS msC" and "held s" and "p \<in> set (dialing s)" and "ch = objs (cli (lk s)) ! p"
  shows "held (s\<lparr>tgt := (tgt s)(ch_id ch \<mapsto> new_side p (ch_target ch) c), dialing := remove1 p (dialing s)\<rparr>)"
    (is "held ?s'")
proof -
  note R = path_relD [OF assms(1)]
  note w = waiting_remove1(1) [OF R(4) assms(3) R(7)]
  have "set (waiting ?s') = set (waiting s) - {p}" using w by (simp add: waiting_def)
  then have "pending_ids s \<subseteq> insert (ch_id ch) (pending_ids ?s')"
    using assms(4) by (auto simp: pending_ids_def)
  with assms(2) show ?thesis by (auto simp: held_def serving_upd new_side_def)
qed

lemma dial_failed_held:
  assumes "path_rel s msS msC" and "held s" and "p \<in> set (dialing s)" and "channel_Close (cli (lk s)) p = (r, C')"
  shows "held (s\<lparr>lk := cli_moves (lk s) EvQuiet C', dialing := remove1 p (dialing s)\<rparr>)" (is "held ?s'")
proof -
  note R = path_relD [OF assms(1)]
  let ?x = "ch_id (objs (cli (lk s)) ! p)"
  have pn: "p < length (objs (cli (lk s)))" "status (objs (cli (lk s)) ! p) \<noteq> chClosed"
    using R(4) assms(3) by (auto simp: waiting_ok_def waiting_def)
  note t = Close_touches [OF assms(4) pn(1)]
  obtain new where n: "effect EvQuiet (cli (lk s)) new C'" using close_effect [OF R(7,9) pn(1) assms(4)] by blast
  have w: "set (waiting ?s') = set (waiting s) - {p}"
    using waiting_remove1(1) [OF R(4) assms(3) R(7)] touches_waits [OF t] by (simp add: waiting_def)
  have "pending_ids s \<subseteq> insert ?x (pending_ids ?s')"
  proof
    fix y assume "y \<in> pending_ids s"
    then obtain q where q: "q \<in> set (waiting s)" "y = ch_id (objs (cli (lk s)) ! q)" by (auto simp: pending_ids_def)
    show "y \<in> insert ?x (pending_ids ?s')"
    proof (cases "q = p")
      case False
      with q w have "q \<in> set (waiting ?s')" "y = ch_id (objs C' ! q)" using t by (auto simp: touches_def)
      then show ?thesis by (simp add: pending_ids_def)
    qed (use q in simp)
  qed
  moreover have "\<not> mapped ?x C'" by (rule Close_unmaps [OF assms(4) pn(2)])
  ultimately show ?thesis using assms(2) effect_mapped [OF n] by (auto simp: held_def)
qed

text \<open>A step after which both ends have the same channels waiting, mapped and served.\<close>

lemma quiet_held:
  assumes "held s" and "pub s' = pub s" and "tgt s' = tgt s" and "set (waiting s') = set (waiting s)"
    and "\<And>p. p \<in> set (waiting s) \<Longrightarrow> ch_id (objs (cli (lk s')) ! p) = ch_id (objs (cli (lk s)) ! p)"
    and "\<And>x. mapped x (srv (lk s')) \<Longrightarrow> mapped x (srv (lk s))"
    and "\<And>x. mapped x (cli (lk s')) \<Longrightarrow> mapped x (cli (lk s))"
  shows "held s'"
  using assms(1-3,6,7) pending_same [OF assms(4,5)] by (simp add: held_def)

lemma srv_reads_held:
  assumes "path_rel s msS msC" and "held s" and "arrived (cli (lk s))"
    and dl: "deliver (cli (lk s)) (srv (lk s)) now = Some (C', S')"
  shows "held (s\<lparr>lk := (lk s)\<lparr>srv := S', cli := C'\<rparr>\<rparr>)" (is "held ?s'")
proof -
  note R = path_relD [OF assms(1)]
  obtain m ms where ms: "msC = m # ms" using head_in_transit [OF R(9) assms(3)] by blast
  obtain new where e: "recv_effect m (srv (lk s)) new S'" "objs C' = objs (cli (lk s))" "channels C' = channels (cli (lk s))"
    using link_to_srv_inv [of "lk s" msS m ms now] R(1) ms dl by auto
  have "\<not> is_new m" using fits_srv(2) [of "lk s" msS m ms] R(1) ms by simp
  then have "mapped x S' = mapped x (srv (lk s))" for x using e(1) by (cases m) auto
  moreover have "newCh C' = newCh (cli (lk s))" "parked C' = parked (cli (lk s))"
    using dl by (auto simp: deliver_def split: option.splits)
  ultimately show ?thesis
    using e(2,3) by (intro quiet_held [OF assms(2)]) (simp_all add: waiting_def waits_def mapped_def)
qed

lemma cli_reads_held:
  assumes "path_rel s msS msC" and "held s" and "arrived (srv (lk s))" and p: "parked (cli (lk s)) = None"
    and dl: "deliver (srv (lk s)) (cli (lk s)) now = Some (S', C')"
  shows "held (s\<lparr>lk := (lk s)\<lparr>srv := S', cli := C'\<rparr>\<rparr>)" (is "held ?s'")
proof -
  note R = path_relD [OF assms(1)]
  obtain m ms where ms: "msS = m # ms" using head_in_transit [OF R(8) assms(3)] by blast
  obtain new where e: "recv_effect m (cli (lk s)) new C'" "objs S' = objs (srv (lk s))" "channels S' = channels (srv (lk s))"
    using link_to_cli_inv [of "lk s" m ms msC now] R(1) ms dl by auto
  have "\<not> shut (conn (cli (lk s)))" using R(9) by (simp add: wire_def writable_def)
  note k = deliver_keeps_objs [OF R(8) [unfolded ms] this dl]
  have w: "waiting ?s' = waiting s @ (if is_new m then [length (objs (cli (lk s)))] else [])"
    using k(2) p by (simp add: waiting_def)
  have ids: "ch_id (objs C' ! q) = ch_id (objs (cli (lk s)) ! q)" if "q \<in> set (waiting s)" for q
    using k(1) R(4) that by (simp add: keeps_objs_def waiting_ok_def)
  show ?thesis
  proof (cases "is_new m")
    case True
    then obtain i t where m: "m = MNew i t" by (cases m) auto
    have "objs C' ! length (objs (cli (lk s))) = newChannel i t" using k(3) [OF p m] by simp
    then have "pending_ids ?s' = insert i (pending_ids s)"
      using w True ids by (simp add: pending_ids_def newChannel_def)
    then show ?thesis using assms(2) e m by (auto simp: held_def mapped_def)
  next
    case False
    then have "mapped x C' = mapped x (cli (lk s))" for x using e(1) by (cases m) auto
    with False w ids e(3) show ?thesis by (intro quiet_held [OF assms(2)]) (simp_all add: mapped_def)
  qed
qed

lemma held_step:
  assumes "path_inv s" and "held s" and "path_step s s'"
  shows "held s'"
proof -
  from assms(1) obtain msS msC where R: "path_rel s msS msC" by (auto simp: path_inv_def)
  from assms(3) show ?thesis
  proof (cases rule: path_step.cases)
    case (dispatched t p S' c)
    then show ?thesis using dispatched_held [OF R assms(2)] by simp
  next
    case (got_channel pick p C')
    then show ?thesis
      using accept_waits [OF got_channel(2)]
      by (intro quiet_held [OF assms(2)]) (auto simp: waiting_def mapped_def)
  next
    case (dial_ok p ch c)
    then show ?thesis using dial_ok_held [OF R assms(2)] by simp
  next
    case (dial_failed p r C')
    then show ?thesis using dial_failed_held [OF R assms(2)] by simp
  next
    case (pub_relay x e ev S' e')
    then show ?thesis using pub_relay_held [OF R assms(2)] by simp
  next
    case (tgt_relay x e ev C' e')
    then show ?thesis using tgt_relay_held [OF R assms(2)] by simp
  next
    case (srv_reads now C' S')
    then show ?thesis using srv_reads_held [OF R assms(2)] by simp
  next
    case (cli_reads now S' C')
    then show ?thesis using cli_reads_held [OF R assms(2)] by simp
  next
    case (srv_ping timeout now S')
    then show ?thesis
      using ping_keeps [OF srv_ping(2)] by (intro quiet_held [OF assms(2)]) (auto simp: waiting_def mapped_def)
  next
    case (cli_ping timeout now C')
    then show ?thesis
      using ping_keeps [OF cli_ping(2)] by (intro quiet_held [OF assms(2)]) (auto simp: waiting_def mapped_def)
  qed (use path_relD(10,11) [OF R] in simp_all)
qed

interpretation release: invariant_system path_init path_step "\<lambda>s. path_inv s \<and> held s"
proof unfold_locales
  show "path_inv s \<and> held s" if "path_init s" for s
    using that path_init_inv
    by (auto simp: held_def path_init_def link_init_def NewCtrlConn_def mapped_def)
qed (auto intro: path_step_inv held_step)

section \<open>Properties\<close>



end
