(* ===== verification/Net_Addr.thy ===== *)
theory Net_Addr
  imports Net_Conn
begin

text \<open>
  Text functions of Go's standard library that the address and configuration code
  uses: \<^verbatim>\<open>strings.LastIndexByte\<close>, \<^verbatim>\<open>strings.ContainsAny\<close>, \<^verbatim>\<open>strconv.ParseUint\<close> in
  base 10, the quoting of \<^verbatim>\<open>%q\<close>, \<^verbatim>\<open>net.JoinHostPort\<close> and \<^verbatim>\<open>net.SplitHostPort\<close>.
  Printing and parsing of decimal numbers are inverse to each other, and so are
  joining and splitting an address.
\<close>

section \<open>Searching and quoting\<close>

text \<open>The last index of a byte, \<open>-1\<close> when it does not occur.\<close>

fun LastIndexByte :: "string \<Rightarrow> char \<Rightarrow> int" where
  "LastIndexByte [] c = -1"
| "LastIndexByte (x # s) c =
     (if LastIndexByte s c \<ge> 0 then LastIndexByte s c + 1 else if x = c then 0 else -1)"

lemma LastIndexByte_neg [simp]: "LastIndexByte s c < 0 \<longleftrightarrow> c \<notin> set s"
  by (induction s) auto

lemma LastIndexByte_append [simp]:
  "c \<notin> set v \<Longrightarrow> LastIndexByte (u @ c # v) c = int (length u)"
  by (induction u) (auto simp: not_le)

lemma LastIndexByte_split:
  assumes "\<not> LastIndexByte s c < 0"
  obtains u v where "s = u @ c # v" and "c \<notin> set v" and "LastIndexByte s c = int (length u)"
proof -
  from assms have "c \<in> set s" by simp
  then obtain u v where "s = u @ c # v" "c \<notin> set v" by (meson split_list_last)
  with LastIndexByte_append that show thesis by blast
qed

definition ContainsAny :: "string \<Rightarrow> string \<Rightarrow> bool" where
  "ContainsAny s cs \<longleftrightarrow> (\<exists>c\<in>set s. c \<in> set cs)"

lemma ContainsAny_simps [simp]:
  "ContainsAny (s @ t) cs \<longleftrightarrow> ContainsAny s cs \<or> ContainsAny t cs"
  "ContainsAny (c # t) cs \<longleftrightarrow> c \<in> set cs \<or> ContainsAny t cs" "\<not> ContainsAny [] cs"
  by (auto simp: ContainsAny_def)

text \<open>
  \<^verbatim>\<open>%q\<close>: the text in double quotes with the quote, the backslash and control
  characters escaped. Bytes above 127 stay, as printable UTF-8 does.
\<close>

definition hex2 :: "char \<Rightarrow> string" where
  "hex2 c = [''0123456789abcdef'' ! (of_char c div 16), ''0123456789abcdef'' ! (of_char c mod 16)]"

definition quote_char :: "char \<Rightarrow> string" where
  "quote_char c =
     (if c = CHR 0x22 \<or> c = CHR 0x5C then [CHR 0x5C, c]
      else if c = CHR 0x07 then [CHR 0x5C, CHR ''a''] else if c = CHR 0x08 then [CHR 0x5C, CHR ''b'']
      else if c = CHR 0x0C then [CHR 0x5C, CHR ''f''] else if c = CHR 0x0A then [CHR 0x5C, CHR ''n'']
      else if c = CHR 0x0D then [CHR 0x5C, CHR ''r''] else if c = CHR 0x09 then [CHR 0x5C, CHR ''t'']
      else if c = CHR 0x0B then [CHR 0x5C, CHR ''v'']
      else if (of_char c :: nat) < 32 \<or> c = CHR 0x7F then [CHR 0x5C, CHR ''x''] @ hex2 c
      else [c])"

definition quote :: "string \<Rightarrow> string" where
  "quote s = [CHR 0x22] @ concat (map quote_char s) @ [CHR 0x22]"


section \<open>Decimal numbers\<close>

definition is_digit :: "char \<Rightarrow> bool" where
  "is_digit c \<longleftrightarrow> c \<in> set ''0123456789''"

definition digit_val :: "char \<Rightarrow> nat" where
  "digit_val c = of_char c - 48"

text \<open>
  The loop of \<^verbatim>\<open>strconv.ParseUint(s, 10, bits)\<close>: it stops at the first character that
  is not a digit (\<^verbatim>\<open>ErrSyntax\<close>) or makes the value too large (\<^verbatim>\<open>ErrRange\<close>).
\<close>

fun parse_digits :: "nat \<Rightarrow> nat \<Rightarrow> string \<Rightarrow> nat res" where
  "parse_digits bits n [] = Inr n"
| "parse_digits bits n (c # s) =
     (if \<not> is_digit c then Inl (Errorf ''invalid syntax'')
      else if n * 10 + digit_val c \<ge> 2 ^ bits then Inl (Errorf ''value out of range'')
      else parse_digits bits (n * 10 + digit_val c) s)"

definition ParseUint :: "string \<Rightarrow> nat \<Rightarrow> nat res" where
  "ParseUint s bits =
     (case (if s = '''' then Inl (Errorf ''invalid syntax'') else parse_digits bits 0 s) of
        Inl e \<Rightarrow> Inl (Wrap (''strconv.ParseUint: parsing '' @ quote s) e)
      | Inr n \<Rightarrow> Inr n)"

lemma digit_simps: "n < 10 \<Longrightarrow> is_digit (''0123456789'' ! n) \<and> digit_val (''0123456789'' ! n) = n"
proof -
  assume "n < 10"
  then have "n \<in> {0, 1, 2, 3, 4, 5, 6, 7, 8, 9}" by auto
  then show ?thesis by (auto simp: is_digit_def digit_val_def)
qed

lemma digit_val_less: "is_digit c \<Longrightarrow> digit_val c < 10"
  by (auto simp: is_digit_def digit_val_def)

lemma parse_digits_bound: "parse_digits bits n s = Inr m \<Longrightarrow> n < 2 ^ bits \<Longrightarrow> m < 2 ^ bits"
  by (induction s arbitrary: n) (auto split: if_splits)

lemma ParseUint_bound: "ParseUint s bits = Inr m \<Longrightarrow> m < 2 ^ bits"
  by (auto simp: ParseUint_def split: sum.splits if_splits intro: parse_digits_bound)

lemma ParseUint_nonempty: "ParseUint s bits = Inr m \<Longrightarrow> s \<noteq> ''''"
  by (auto simp: ParseUint_def)

text \<open>Leading digits of a number that fits are consumed without an error.\<close>

lemma parse_digits_itoa:
  assumes "n < 2 ^ bits"
  shows "parse_digits bits 0 (itoa n @ s) = parse_digits bits n s"
  using assms
proof (induction n arbitrary: s rule: itoa.induct)
  case (1 n)
  show ?case
  proof (cases "n < 10")
    case True
    with 1(2) digit_simps [of n] show ?thesis by (simp add: itoa_small)
  next
    case False
    have "n div 10 < 2 ^ bits" using 1(2) by (meson div_le_dividend le_less_trans)
    with False 1(1) [of "''0123456789'' ! (n mod 10) # s"]
    have "parse_digits bits 0 (itoa n @ s) = parse_digits bits (n div 10) (''0123456789'' ! (n mod 10) # s)"
      by (simp add: itoa_big)
    also have "\<dots> = parse_digits bits n s"
      using 1(2) digit_simps [of "n mod 10"] by simp
    finally show ?thesis .
  qed
qed

lemma ParseUint_itoa [simp]: "n < 2 ^ bits \<Longrightarrow> ParseUint (itoa n) bits = Inr n"
  using parse_digits_itoa [of n bits "[]"] by (simp add: ParseUint_def)

lemma itoa_inject [simp]: "itoa m = itoa n \<longleftrightarrow> m = n"
proof
  assume eq: "itoa m = itoa n"
  have "m < 2 ^ (m + n)" "n < 2 ^ (m + n)"
    by (meson le_add1 le_add2 less_exp less_le_trans one_le_numeral power_increasing)+
  then have "Inr m = ParseUint (itoa m) (m + n)" "ParseUint (itoa n) (m + n) = Inr n" by simp_all
  with eq show "m = n" by simp
qed simp

lemma itoa_no: "c \<notin> set ''0123456789'' \<Longrightarrow> c \<notin> set (itoa n)"
  using itoa_digits by blast

lemma itoa_colon [simp]: "CHR '':'' \<notin> set (itoa n)"
  by (rule itoa_no) simp

lemma itoa_brackets [simp]: "\<not> ContainsAny (itoa n) ''[]''"
  using itoa_no [of "CHR ''[''" n] itoa_no [of "CHR '']''" n] by (auto simp: ContainsAny_def)


section \<open>Addresses\<close>

definition JoinHostPort :: "string \<Rightarrow> string \<Rightarrow> string" where
  "JoinHostPort host port =
     (if CHR '':'' \<in> set host then ''['' @ host @ '']:'' @ port else host @ '':'' @ port)"

text \<open>
  \<^verbatim>\<open>net.SplitHostPort\<close>, with the errors of its \<^verbatim>\<open>AddrError\<close>.
\<close>

definition IndexByte :: "string \<Rightarrow> char \<Rightarrow> nat" where
  "IndexByte s c = length (takeWhile (\<lambda>x. x \<noteq> c) s)"

definition SplitHostPort :: "string \<Rightarrow> (string \<times> string) res" where
  "SplitHostPort hp =
     (let addrErr = (\<lambda>why. Inl (Errorf (''address '' @ hp @ '': '' @ why)));
          i = LastIndexByte hp CHR '':'' in
      if i < 0 then addrErr ''missing port in address''
      else if hp ! 0 = CHR ''['' then
        let e = IndexByte hp CHR '']'' in
        if e = length hp then addrErr ''missing ']' in address''
        else if e + 1 = length hp then addrErr ''missing port in address''
        else if int (e + 1) = i then
          (if CHR ''['' \<in> set (drop 1 hp) then addrErr ''unexpected '[' in address''
           else if CHR '']'' \<in> set (drop (e + 1) hp) then addrErr ''unexpected ']' in address''
           else Inr (drop 1 (take e hp), drop (nat i + 1) hp))
        else if hp ! (e + 1) = CHR '':'' then addrErr ''too many colons in address''
        else addrErr ''missing port in address''
      else if CHR '':'' \<in> set (take (nat i) hp) then addrErr ''too many colons in address''
      else if CHR ''['' \<in> set hp then addrErr ''unexpected '[' in address''
      else if CHR '']'' \<in> set hp then addrErr ''unexpected ']' in address''
      else Inr (take (nat i) hp, drop (nat i + 1) hp))"

lemma Split_Join:
  assumes "\<not> ContainsAny host ''[]''" and "\<not> ContainsAny port ''[]:''"
  shows "SplitHostPort (JoinHostPort host port) = Inr (host, port)"
proof -
  have h: "CHR ''['' \<notin> set host" "CHR '']'' \<notin> set host"
    and p: "CHR ''['' \<notin> set port" "CHR '']'' \<notin> set port" "CHR '':'' \<notin> set port"
    using assms by (auto simp: ContainsAny_def)
  show ?thesis
  proof (cases "CHR '':'' \<in> set host")
    case False
    have "(host @ '':'' @ port) ! 0 \<noteq> CHR ''[''" using h by (cases host) auto
    with False h p show ?thesis by (simp add: JoinHostPort_def SplitHostPort_def Let_def)
  next
    case True
    define hp where "hp = ''['' @ host @ '']:'' @ port"
    have i: "LastIndexByte hp CHR '':'' = int (length host + 2)"
      unfolding hp_def using LastIndexByte_append [OF p(3), of "''['' @ host @ '']''"] by simp
    have e: "IndexByte hp CHR '']'' = length host + 1"
      using h by (auto simp: hp_def IndexByte_def takeWhile_append takeWhile_eq_all_conv)
    have hp: "length hp = length host + length port + 3" "hp ! 0 = CHR ''[''"
      "drop 1 hp = host @ '']:'' @ port" "drop (length host + 1 + 1) hp = '':'' @ port"
      "drop (Suc (Suc (length host + 1))) hp = port" "drop 1 (take (length host + 1) hp) = host"
      by (simp_all add: hp_def numeral_eq_Suc)
    have "nat (int (length host + 2)) + 1 = length host + 3" by simp
    moreover have "JoinHostPort host port = hp" using True by (simp add: JoinHostPort_def hp_def)
    ultimately show ?thesis
      using h p unfolding SplitHostPort_def Let_def by (simp add: i e hp del: One_nat_def)
  qed
qed

end
