(* ===== verification/Config_File.thy ===== *)
theory Config_File
  imports Net_Addr
begin

text \<open>
  The configuration file (\<^verbatim>\<open>manager/config.go\<close>): the configuration records, where
  the file is, reading and writing it. The YAML package is a parameter (\<open>marshal\<close>,
  \<open>unmarshal\<close>); the file system is a state of named files with the errors the
  operating system may answer.
\<close>

section \<open>Configuration records\<close>

record TunnelConfig =
  tc_Name :: string
  tc_Mode :: string
  tc_Local :: string
  tc_Remote :: string
  tc_Server :: string
  tc_Token :: string
  tc_TLS :: bool
  tc_TLSCert :: string
  tc_TLSKey :: string
  tc_TLSVerify :: bool
  tc_TLSTrustOnFirstUse :: bool
  tc_TLSServerFingerprint :: string
  tc_Protocol :: string
  tc_Autostart :: bool
  tc_Group :: string
  tc_Hops :: "string list"
  tc_Connections :: int
  tc_HealthCheck :: string
  tc_SocksUser :: string
  tc_SocksPass :: string

record GlobalConfig =
  LogFile :: string
  ControlSocket :: string

record Config =
  Tunnels :: "TunnelConfig list"
  Global :: GlobalConfig

text \<open>The zero values of Go.\<close>

definition zero_TunnelConfig :: TunnelConfig where
  "zero_TunnelConfig = \<lparr>tc_Name = '''', tc_Mode = '''', tc_Local = '''', tc_Remote = '''', tc_Server = '''',
     tc_Token = '''', tc_TLS = False, tc_TLSCert = '''', tc_TLSKey = '''', tc_TLSVerify = False,
     tc_TLSTrustOnFirstUse = False, tc_TLSServerFingerprint = '''', tc_Protocol = '''',
     tc_Autostart = False, tc_Group = '''', tc_Hops = [], tc_Connections = 0, tc_HealthCheck = '''',
     tc_SocksUser = '''', tc_SocksPass = ''''\<rparr>"

definition DefaultConfig :: Config where
  "DefaultConfig = \<lparr>Tunnels = [], Global = \<lparr>LogFile = '''', ControlSocket = ''''\<rparr>\<rparr>"


section \<open>Files\<close>

text \<open>
  The environment of the process: the two environment variables it reads, the
  files, and for each path the error reading it (other than that it does not
  exist), creating its directory, creating or writing it meets. A failed write leaves
  the first bytes of the data.
\<close>

record os_env =
  env_HOME :: string
  env_TUNNEL_CONFIG :: string
  os_files :: "string \<Rightarrow> string option"
  os_readErr :: "string \<Rightarrow> error option"
  os_mkdirErr :: "string \<Rightarrow> error option"
  os_createErr :: "string \<Rightarrow> error option"
  os_writeErr :: "string \<Rightarrow> (error \<times> nat) option"

text \<open>\<^verbatim>\<open>filepath.Join\<close> on clean path elements.\<close>

definition filepath_Join :: "string list \<Rightarrow> string" where
  "filepath_Join ps = concat (map (\<lambda>(i, p). if i = 0 then p else ''/'' @ p) (enumerate 0 ps))"

definition DefaultConfigDir :: "os_env \<Rightarrow> string" where
  "DefaultConfigDir os =
     (if env_HOME os = '''' then ''/etc/tunnel''
      else filepath_Join [env_HOME os, ''.config'', ''tunnel''])"

definition DefaultDataDir :: "os_env \<Rightarrow> string" where
  "DefaultDataDir os =
     (if env_HOME os = '''' then ''/var/lib/tunnel''
      else filepath_Join [env_HOME os, ''.local'', ''share'', ''tunnel''])"

definition LoadConfig :: "(string \<Rightarrow> Config res) \<Rightarrow> os_env \<Rightarrow> string \<Rightarrow> Config res" where
  "LoadConfig unmarshal os path0 =
     (let path1 = (if path0 = '''' then env_TUNNEL_CONFIG os else path0);
          path = (if path1 = '''' then filepath_Join [DefaultConfigDir os, ''config.yaml''] else path1) in
      case os_readErr os path of
        Some e \<Rightarrow> Inl e
      | None \<Rightarrow>
          (case os_files os path of
             None \<Rightarrow> Inr DefaultConfig
           | Some data \<Rightarrow> unmarshal data))"

text \<open>\<^verbatim>\<open>os.ReadFile\<close> for callers that do not treat a missing file specially.\<close>

definition ReadFile :: "os_env \<Rightarrow> string \<Rightarrow> string res" where
  "ReadFile os path =
     (case os_readErr os path of
        Some e \<Rightarrow> Inl e
      | None \<Rightarrow>
          (case os_files os path of
             None \<Rightarrow> Inl (SysError (''open '' @ path @ '': no such file or directory''))
           | Some data \<Rightarrow> Inr data))"

definition WriteFile :: "os_env \<Rightarrow> string \<Rightarrow> string \<Rightarrow> error option \<times> os_env" where
  "WriteFile os path data =
     (case os_createErr os path of
        Some e \<Rightarrow> (Some e, os)
      | None \<Rightarrow>
          (case os_writeErr os path of
             None \<Rightarrow> (None, os\<lparr>os_files := (os_files os)(path \<mapsto> data)\<rparr>)
           | Some (e, n) \<Rightarrow> (Some e, os\<lparr>os_files := (os_files os)(path \<mapsto> take n data)\<rparr>)))"

definition SaveConfig :: "(Config \<Rightarrow> string res) \<Rightarrow> os_env \<Rightarrow> Config \<Rightarrow> string \<Rightarrow> error option \<times> os_env" where
  "SaveConfig marshal os cfg path0 =
     (let path = (if path0 = '''' then filepath_Join [DefaultConfigDir os, ''config.yaml''] else path0) in
      case os_mkdirErr os path of
        Some e \<Rightarrow> (Some e, os)
      | None \<Rightarrow>
          (case marshal cfg of
             Inl e \<Rightarrow> (Some e, os)
           | Inr data \<Rightarrow> WriteFile os path data))"

lemma SaveConfig_keeps:
  "SaveConfig marshal os cfg path = (e, os') \<Longrightarrow>
     env_HOME os' = env_HOME os \<and> env_TUNNEL_CONFIG os' = env_TUNNEL_CONFIG os \<and> os_readErr os' = os_readErr os
     \<and> os_mkdirErr os' = os_mkdirErr os \<and> os_createErr os' = os_createErr os \<and> os_writeErr os' = os_writeErr os \<and> DefaultConfigDir os' = DefaultConfigDir os"
  by (auto simp: SaveConfig_def WriteFile_def Let_def DefaultConfigDir_def split: option.splits sum.splits)

text \<open>Only the file at the path written changes.\<close>

lemma SaveConfig_other_files:
  assumes "SaveConfig marshal os cfg path = (e, os')"
    and "q \<noteq> (if path = '''' then filepath_Join [DefaultConfigDir os, ''config.yaml''] else path)"
  shows "os_files os' q = os_files os q"
  using assms by (auto simp: SaveConfig_def WriteFile_def Let_def split: option.splits sum.splits if_splits)

lemma SaveConfig_written:
  assumes "SaveConfig marshal os cfg path = (None, os')" and "path \<noteq> ''''"
  shows "\<exists>data. marshal cfg = Inr data \<and> os_files os' path = Some data"
  using assms by (auto simp: SaveConfig_def WriteFile_def Let_def split: option.splits sum.splits)


section \<open>Properties\<close>

text \<open>
  A configuration saved to an explicit path is the one a later load of that
  path returns, given that the YAML package reads back what it wrote for this
  configuration.
\<close>

theorem save_load_roundtrip:
  assumes "path \<noteq> ''''" and "os_readErr os path = None"
    and yaml_roundtrip: "\<And>data. marshal cfg = Inr data \<Longrightarrow> unmarshal data = Inr cfg"
    and "SaveConfig marshal os cfg path = (None, os')"
  shows "LoadConfig unmarshal os' path = Inr cfg"
  using SaveConfig_written [OF assms(4,1)] SaveConfig_keeps [OF assms(4)] assms(1,2) yaml_roundtrip
  by (auto simp: LoadConfig_def)

definition demo_os :: os_env where
  "demo_os = \<lparr>env_HOME = ''/root'', env_TUNNEL_CONFIG = ''/srv/t.yaml'', os_files = (\<lambda>_. None),
     os_readErr = (\<lambda>_. None), os_mkdirErr = (\<lambda>_. None), os_createErr = (\<lambda>_. None), os_writeErr = (\<lambda>_. None)\<rparr>"

definition demo_marshal :: "Config \<Rightarrow> string res" where
  "demo_marshal cfg = Inr (if cfg = DefaultConfig then ''tunnels: []'' else ''?'')"

definition demo_unmarshal :: "string \<Rightarrow> Config res" where
  "demo_unmarshal s = (if s = ''tunnels: []'' then Inr DefaultConfig else Inl (Errorf ''yaml''))"

theorem save_load_roundtrip_witness:
  "LoadConfig demo_unmarshal (snd (SaveConfig demo_marshal demo_os DefaultConfig ''/a.yaml'')) ''/a.yaml''
     = Inr DefaultConfig"
  by (rule save_load_roundtrip [of _ demo_os demo_marshal])
     (simp_all add: demo_os_def demo_marshal_def demo_unmarshal_def SaveConfig_def WriteFile_def)

text \<open>
  With \<^verbatim>\<open>TUNNEL_CONFIG\<close> set, \<^verbatim>\<open>SaveConfig\<close> with an empty path (the way the
  daemon calls it) writes a file \<^verbatim>\<open>LoadConfig\<close> with an empty path does not read:
  whatever was saved, the next load returns what it returned before.
\<close>

theorem save_ignores_TUNNEL_CONFIG:
  assumes "env_TUNNEL_CONFIG os \<noteq> ''''"
    and "env_TUNNEL_CONFIG os \<noteq> filepath_Join [DefaultConfigDir os, ''config.yaml'']"
    and "SaveConfig marshal os cfg '''' = (e, os')"
  shows "LoadConfig unmarshal os' '''' = LoadConfig unmarshal os ''''"
  using assms(1,2) SaveConfig_keeps [OF assms(3)] SaveConfig_other_files [OF assms(3), of "env_TUNNEL_CONFIG os"]
  by (simp add: LoadConfig_def Let_def split: option.splits)

theorem save_ignores_TUNNEL_CONFIG_witness:
  "LoadConfig demo_unmarshal (snd (SaveConfig demo_marshal demo_os DefaultConfig '''')) ''''
     = LoadConfig demo_unmarshal demo_os ''''"
  by (rule save_ignores_TUNNEL_CONFIG [of _ demo_marshal DefaultConfig])
     (simp_all add: demo_os_def DefaultConfigDir_def filepath_Join_def enumerate_eq_zip prod_eq_iff)

end
