(* ===== verification/Forward_Spec.thy ===== *)
theory Forward_Spec
  imports Config_File
begin

text \<open>
  Forwarding specifications \<^verbatim>\<open>[bind:]port:host:hostport\<close>: the parser of the command
  line (\<^verbatim>\<open>main.go\<close>), the second parser the manager has for remote tunnels
  (\<^verbatim>\<open>manager/manager.go\<close>), and \<^verbatim>\<open>tunnel add\<close>, which turns flags into a tunnel
  configuration. The theory gives the exact language the parser accepts and shows
  that the two parsers agree.
\<close>

section \<open>The command-line parser (main.go)\<close>

record forwardSpec =
  fs_bind :: string
  fs_port :: u16
  fs_host :: string
  fs_hostPort :: u16

definition parsePort :: "string \<Rightarrow> u16 res" where
  "parsePort s =
     (if s = '''' then Inl (Errorf ''port is empty'')
      else case ParseUint s 16 of
        Inl _ \<Rightarrow> Inl (Errorf (quote s @ '' is not a valid port''))
      | Inr p \<Rightarrow> Inr (word_of_nat p))"

definition parseForwardSpec :: "string \<Rightarrow> string \<Rightarrow> bool \<Rightarrow> forwardSpec res" where
  "parseForwardSpec spec defaultBind allowBind =
     (let invalid = (\<lambda>why. Inl (Errorf (''invalid format '' @ quote spec @ why)));
          form = '' (expected [bind:]port:host:hostport)'' in
      if spec = '''' then Inl (Errorf ''empty forwarding spec'')
      else if ContainsAny spec ''[]'' then
        Inl (Errorf (''IPv6 literals are not supported: '' @ quote spec))
      else
        let hostPortSep = LastIndexByte spec CHR '':'' in
        if hostPortSep < 0 then invalid form
        else
          let hostPortStr = drop (nat hostPortSep + 1) spec;
              mid = take (nat hostPortSep) spec;
              portHostSep = LastIndexByte mid CHR '':'' in
          if portHostSep < 0 then invalid form
          else
            let host = drop (nat portHostSep + 1) mid;
                front = take (nat portHostSep) mid;
                bindSep = LastIndexByte front CHR '':'';
                bind = (if bindSep \<ge> 0 then take (nat bindSep) front else '''');
                portStr = (if bindSep \<ge> 0 then drop (nat bindSep + 1) front else front) in
            if host = '''' then invalid '': target host is empty''
            else if bind \<noteq> '''' \<and> \<not> allowBind then
              invalid '': bind prefix is not supported for this mode''
            else case parsePort portStr of
              Inl e \<Rightarrow> Inl (Wrap (''invalid listen port in '' @ quote spec) e)
            | Inr port \<Rightarrow>
                (case parsePort hostPortStr of
                   Inl e \<Rightarrow> Inl (Wrap (''invalid target port in '' @ quote spec) e)
                 | Inr hostPort \<Rightarrow>
                     Inr \<lparr>fs_bind = (if bind = '''' then defaultBind else bind), fs_port = port,
                          fs_host = host, fs_hostPort = hostPort\<rparr>))"

definition parseLocalSpec :: "string \<Rightarrow> (string \<times> string) res" where
  "parseLocalSpec spec =
     (case parseForwardSpec spec ''127.0.0.1'' True of
        Inl e \<Rightarrow> Inl e
      | Inr fs \<Rightarrow> Inr (JoinHostPort (fs_bind fs) (itoa (unat (fs_port fs))),
                      JoinHostPort (fs_host fs) (itoa (unat (fs_hostPort fs)))))"

definition parseRemoteSpec :: "string \<Rightarrow> (string \<times> u16 \<times> string) res" where
  "parseRemoteSpec spec =
     (case parseForwardSpec spec ''0.0.0.0'' True of
        Inl e \<Rightarrow> Inl e
      | Inr fs \<Rightarrow> Inr (fs_bind fs, fs_port fs, JoinHostPort (fs_host fs) (itoa (unat (fs_hostPort fs)))))"


section \<open>The manager's parser (manager/manager.go)\<close>

definition mgr_parseRemoteSpec :: "string \<Rightarrow> (string \<times> u16 \<times> string) res" where
  "mgr_parseRemoteSpec spec =
     (let invalid = (\<lambda>why. Inl (Errorf (''invalid remote spec '' @ quote spec @ why)));
          form = '' (expected [bind:]port:host:hostport)'' in
      if spec = '''' then Inl (Errorf ''empty remote spec'')
      else if ContainsAny spec ''[]'' then
        Inl (Errorf (''IPv6 literals are not supported: '' @ quote spec))
      else
        let hostPortSep = LastIndexByte spec CHR '':'' in
        if hostPortSep < 0 then invalid form
        else
          let hostPortStr = drop (nat hostPortSep + 1) spec;
              mid = take (nat hostPortSep) spec;
              portHostSep = LastIndexByte mid CHR '':'' in
          if portHostSep < 0 then invalid form
          else
            let host = drop (nat portHostSep + 1) mid;
                front = take (nat portHostSep) mid in
            if host = '''' then invalid '': target host is empty''
            else
              let bindSep = LastIndexByte front CHR '':'';
                  bind = (if bindSep \<ge> 0 then take (nat bindSep) front else '''');
                  portStr = (if bindSep \<ge> 0 then drop (nat bindSep + 1) front else front) in
              case ParseUint portStr 16 of
                Inl e \<Rightarrow> Inl (Wrap (''invalid remote port '' @ quote portStr) e)
              | Inr portU \<Rightarrow>
                  (case ParseUint hostPortStr 16 of
                     Inl e \<Rightarrow> Inl (Wrap (''invalid target port '' @ quote hostPortStr) e)
                   | Inr hostPort \<Rightarrow>
                       Inr (if bind = '''' then ''0.0.0.0'' else bind, word_of_nat portU,
                            JoinHostPort host (itoa hostPort))))"


section \<open>The language accepted\<close>

lemma parsePort_Inr: "parsePort s = Inr p \<longleftrightarrow> (\<exists>n. ParseUint s 16 = Inr n \<and> p = word_of_nat n)"
  using ParseUint_nonempty by (auto simp: parsePort_def split: sum.splits)

text \<open>What a colon-separated text is cut into by three searches from the right.\<close>

lemma cut_last:
  assumes "CHR '':'' \<notin> set v"
  shows "take (nat (LastIndexByte (u @ CHR '':'' # v) CHR '':'')) (u @ CHR '':'' # v) = u"
    and "drop (nat (LastIndexByte (u @ CHR '':'' # v) CHR '':'') + 1) (u @ CHR '':'' # v) = v"
    and "\<not> LastIndexByte (u @ CHR '':'' # v) CHR '':'' < 0"
    and "LastIndexByte (u @ CHR '':'' # v) CHR '':'' \<ge> 0"
  using assms by simp_all

text \<open>
  The accepted texts, as a relation: an optional prefix \<^verbatim>\<open>b:\<close>, a port, a host
  without colons and a port.
\<close>

definition spec_form :: "string \<Rightarrow> string \<Rightarrow> nat \<Rightarrow> string \<Rightarrow> nat \<Rightarrow> bool" where
  "spec_form spec b port host hostPort \<longleftrightarrow>
     \<not> ContainsAny spec ''[]'' \<and> host \<noteq> '''' \<and> CHR '':'' \<notin> set host
     \<and> (\<exists>pre p q. spec = pre @ p @ '':'' @ host @ '':'' @ q
          \<and> (pre = b @ '':'' \<or> pre = '''' \<and> b = '''')
          \<and> ParseUint p 16 = Inr port \<and> ParseUint q 16 = Inr hostPort)"

lemma parse_digits_digits: "parse_digits bits n s = Inr m \<Longrightarrow> set s \<subseteq> set ''0123456789''"
  by (induction s arbitrary: n) (auto simp: is_digit_def split: if_splits)

lemma ParseUint_colon: "ParseUint s 16 = Inr m \<Longrightarrow> CHR '':'' \<notin> set s"
  using parse_digits_digits [of 16 0 s m]
  by (auto simp: ParseUint_def split: sum.splits if_splits)

lemma front_cut:
  assumes "pre = b @ '':'' \<or> pre = '''' \<and> b = ''''" and "CHR '':'' \<notin> set p"
  defines "i \<equiv> LastIndexByte (pre @ p) CHR '':''"
  shows "(if i \<ge> 0 then take (nat i) (pre @ p) else '''') = b"
    and "(if i \<ge> 0 then drop (nat i + 1) (pre @ p) else pre @ p) = p"
proof -
  have "(if i \<ge> 0 then take (nat i) (pre @ p) else '''') = b \<and>
      (if i \<ge> 0 then drop (nat i + 1) (pre @ p) else pre @ p) = p"
  proof (cases "pre = ''''")
    case True
    with assms(1,2) have "i < 0" "b = ''''" by (auto simp: i_def)
    with True show ?thesis by simp
  next
    case False
    with assms(1) have "pre = b @ '':''" by simp
    with assms(2) show ?thesis by (simp add: i_def)
  qed
  then show "(if i \<ge> 0 then take (nat i) (pre @ p) else '''') = b"
    "(if i \<ge> 0 then drop (nat i + 1) (pre @ p) else pre @ p) = p" by blast+
qed

lemma parse_of_form:
  assumes "spec_form spec b port host hostPort"
  shows "b \<noteq> '''' \<longrightarrow> allow \<Longrightarrow> parseForwardSpec spec db allow =
      Inr \<lparr>fs_bind = (if b = '''' then db else b), fs_port = word_of_nat port, fs_host = host,
           fs_hostPort = word_of_nat hostPort\<rparr>"
    and "mgr_parseRemoteSpec spec =
      Inr (if b = '''' then ''0.0.0.0'' else b, word_of_nat port, JoinHostPort host (itoa hostPort))"
proof -
  obtain pre p q where s0: "spec = pre @ p @ '':'' @ host @ '':'' @ q"
      "pre = b @ '':'' \<or> pre = '''' \<and> b = ''''" "ParseUint p 16 = Inr port" "ParseUint q 16 = Inr hostPort"
      "\<not> ContainsAny spec ''[]''" "host \<noteq> ''''" "CHR '':'' \<notin> set host"
    using assms(1) unfolding spec_form_def by blast
  have "spec = (pre @ p @ '':'' @ host) @ CHR '':'' # q" using s0(1) by simp
  note s = this s0(2-7)
  note col = ParseUint_colon [OF s(3)] ParseUint_colon [OF s(4)]
  have q: "parsePort q = Inr (word_of_nat hostPort)" "parsePort p = Inr (word_of_nat port)"
    using s(3,4) by (auto simp: parsePort_Inr)
  have 1: "take (nat (LastIndexByte spec CHR '':'')) spec = (pre @ p) @ CHR '':'' # host"
    "drop (nat (LastIndexByte spec CHR '':'') + 1) spec = q" "\<not> LastIndexByte spec CHR '':'' < 0" "spec \<noteq> ''''"
    unfolding s(1) using cut_last [OF col(2), of "pre @ p @ '':'' @ host"] by simp_all
  note 2 = cut_last [OF s(7), of "pre @ p"]
  note 3 = front_cut [OF s(2) col(1)]
  show "parseForwardSpec spec db allow =
      Inr \<lparr>fs_bind = (if b = '''' then db else b), fs_port = word_of_nat port, fs_host = host,
           fs_hostPort = word_of_nat hostPort\<rparr>" if "b \<noteq> '''' \<longrightarrow> allow"
    unfolding parseForwardSpec_def Let_def 1(1,2) 2(1,2) 3
    using s(5,6) q 1(3,4) 2(3) that by (simp only: if_False sum.case if_True) auto
  show "mgr_parseRemoteSpec spec =
      Inr (if b = '''' then ''0.0.0.0'' else b, word_of_nat port, JoinHostPort host (itoa hostPort))"
    unfolding mgr_parseRemoteSpec_def Let_def 1(1,2) 2(1,2) 3
    using s(3-6) 1(3,4) 2(3) by (simp only: if_False sum.case if_True)
qed

text \<open>Conversely, every accepted text has the form.\<close>

lemma front_form:
  fixes front :: string
  defines "i \<equiv> LastIndexByte front CHR '':''"
  shows "\<exists>pre. front = pre @ (if i \<ge> 0 then drop (nat i + 1) front else front)
     \<and> (pre = (if i \<ge> 0 then take (nat i) front else '''') @ '':'' \<or>
        pre = '''' \<and> (if i \<ge> 0 then take (nat i) front else '''') = '''')"
proof (cases "i < 0")
  case False
  then obtain u v where "front = u @ CHR '':'' # v" "i = int (length u)"
    unfolding i_def by (rule LastIndexByte_split)
  then show ?thesis by (intro exI [of _ "u @ '':''"]) simp
qed simp

lemma form_of_cuts:
  fixes spec :: string
  assumes "\<not> ContainsAny spec ''[]''" and "\<not> LastIndexByte spec CHR '':'' < 0"
  defines "mid \<equiv> take (nat (LastIndexByte spec CHR '':'')) spec"
  defines "i \<equiv> LastIndexByte mid CHR '':''"
  defines "host \<equiv> drop (nat i + 1) mid" and "front \<equiv> take (nat i) mid"
  defines "j \<equiv> LastIndexByte front CHR '':''"
  assumes "\<not> i < 0" and "host \<noteq> ''''"
    and "ParseUint (if j \<ge> 0 then drop (nat j + 1) front else front) 16 = Inr port"
    and "ParseUint (drop (nat (LastIndexByte spec CHR '':'') + 1) spec) 16 = Inr hostPort"
  shows "spec_form spec (if j \<ge> 0 then take (nat j) front else '''') port host hostPort"
proof -
  define p b where "p = (if j \<ge> 0 then drop (nat j + 1) front else front)"
    and "b = (if j \<ge> 0 then take (nat j) front else '''')"
  obtain u q where spec: "spec = u @ CHR '':'' # q" "LastIndexByte spec CHR '':'' = int (length u)"
    using LastIndexByte_split [OF assms(2)] by metis
  then have mid: "mid = u" and q: "drop (nat (LastIndexByte spec CHR '':'') + 1) spec = q"
    by (simp_all add: mid_def)
  obtain f h where m: "mid = f @ CHR '':'' # h" "CHR '':'' \<notin> set h" "i = int (length f)"
    using LastIndexByte_split [of mid "CHR '':''"] assms(8) i_def by metis
  then have h: "host = h" "front = f" by (simp_all add: host_def front_def)
  obtain pre where pre: "front = pre @ p" "pre = b @ '':'' \<or> pre = '''' \<and> b = ''''"
    using front_form [of front] unfolding p_def b_def j_def by blast
  then have "spec = pre @ p @ '':'' @ host @ '':'' @ q"
    using spec(1) mid m(1) h by simp
  moreover have "ParseUint p 16 = Inr port" "ParseUint q 16 = Inr hostPort"
    using assms(10,11) q by (simp_all only: p_def)
  ultimately have "spec_form spec b port host hostPort"
    unfolding spec_form_def using assms(1,9) m(2) h(1) pre(2) by blast
  then show ?thesis by (simp only: b_def)
qed

lemma form_of_parse:
  assumes "parseForwardSpec spec db allow = Inr fs"
  shows "\<exists>b port hostPort. spec_form spec b port (fs_host fs) hostPort \<and> (b \<noteq> '''' \<longrightarrow> allow)
     \<and> fs = \<lparr>fs_bind = (if b = '''' then db else b), fs_port = word_of_nat port, fs_host = fs_host fs,
             fs_hostPort = word_of_nat hostPort\<rparr>"
proof -
  define i where "i = LastIndexByte spec CHR '':''"
  define mid where "mid = take (nat i) spec"
  define k where "k = LastIndexByte mid CHR '':''"
  define host where "host = drop (nat k + 1) mid"
  define front where "front = take (nat k) mid"
  define j where "j = LastIndexByte front CHR '':''"
  define b where "b = (if j \<ge> 0 then take (nat j) front else '''')"
  define p where "p = (if j \<ge> 0 then drop (nat j + 1) front else front)"
  note defs = i_def [symmetric] mid_def [symmetric] k_def [symmetric] host_def [symmetric]
    front_def [symmetric] j_def [symmetric] b_def [symmetric] p_def [symmetric]
  obtain P Q where ok: "\<not> ContainsAny spec ''[]''" "\<not> i < 0" "\<not> k < 0" "host \<noteq> ''''" "b \<noteq> '''' \<longrightarrow> allow"
    "parsePort p = Inr P" "parsePort (drop (nat i + 1) spec) = Inr Q"
    "fs = \<lparr>fs_bind = (if b = '''' then db else b), fs_port = P, fs_host = host, fs_hostPort = Q\<rparr>"
    using assms unfolding parseForwardSpec_def Let_def defs
    by (simp del: LastIndexByte_neg split: if_split_asm sum.split_asm)
  then obtain port hostPort where n: "ParseUint p 16 = Inr port" "ParseUint (drop (nat i + 1) spec) 16 = Inr hostPort"
    "P = word_of_nat port" "Q = word_of_nat hostPort"
    by (auto simp: parsePort_Inr)
  have "spec_form spec b port host hostPort"
    using form_of_cuts [of spec port hostPort, unfolded defs] ok n by blast
  with ok(5,8) n show ?thesis by auto
qed

lemma form_of_mgr_parse:
  assumes "mgr_parseRemoteSpec spec = Inr r"
  shows "\<exists>b port host hostPort. spec_form spec b port host hostPort"
proof -
  define i where "i = LastIndexByte spec CHR '':''"
  define mid where "mid = take (nat i) spec"
  define k where "k = LastIndexByte mid CHR '':''"
  define host where "host = drop (nat k + 1) mid"
  define front where "front = take (nat k) mid"
  define j where "j = LastIndexByte front CHR '':''"
  define b where "b = (if j \<ge> 0 then take (nat j) front else '''')"
  define p where "p = (if j \<ge> 0 then drop (nat j + 1) front else front)"
  note defs = i_def [symmetric] mid_def [symmetric] k_def [symmetric] host_def [symmetric]
    front_def [symmetric] j_def [symmetric] b_def [symmetric] p_def [symmetric]
  obtain port hostPort where ok: "\<not> ContainsAny spec ''[]''" "\<not> i < 0" "\<not> k < 0" "host \<noteq> ''''"
    "ParseUint p 16 = Inr port" "ParseUint (drop (nat i + 1) spec) 16 = Inr hostPort"
    using assms unfolding mgr_parseRemoteSpec_def Let_def defs
    by (simp del: LastIndexByte_neg split: if_split_asm sum.split_asm)
  then have "spec_form spec b port host hostPort"
    using form_of_cuts [of spec port hostPort, unfolded defs] by blast
  then show ?thesis by blast
qed

section \<open>tunnel add\<close>

record addParams =
  ap_local :: string
  ap_remote :: string
  ap_dynamic :: string
  ap_name :: string
  ap_server :: string
  ap_token :: string
  ap_tls :: bool
  ap_tlsVerify :: bool
  ap_tlsCert :: string
  ap_tlsKey :: string
  ap_tlsTrustOnFirstUse :: bool
  ap_tlsServerFingerprint :: string
  ap_socksUser :: string
  ap_socksPass :: string
  ap_protocol :: string
  ap_group :: string
  ap_autostart :: bool

definition defaultName :: "string \<Rightarrow> string \<Rightarrow> string" where
  "defaultName name fallback = (if name \<noteq> '''' then name else fallback)"

definition normalizeListenAddr :: "string \<Rightarrow> string" where
  "normalizeListenAddr spec = (if CHR '':'' \<in> set spec then spec else ''127.0.0.1:'' @ spec)"

definition buildTunnelConfig :: "addParams \<Rightarrow> TunnelConfig res" where
  "buildTunnelConfig p =
     (let finish = (\<lambda>tc. tc\<lparr>tc_Group := ap_group p, tc_Autostart := ap_autostart p\<rparr>) in
      if ap_local p \<noteq> '''' then
        (case parseLocalSpec (ap_local p) of
           Inl e \<Rightarrow> Inl e
         | Inr (listen, target) \<Rightarrow>
             Inr (finish (zero_TunnelConfig\<lparr>tc_Mode := ''local'', tc_Local := listen, tc_Remote := target,
                tc_Protocol := ap_protocol p, tc_Name := defaultName (ap_name p) (''local-'' @ ap_local p)\<rparr>)))
      else if ap_remote p \<noteq> '''' then
        (if ap_server p = '''' then Inl (Errorf ''-R requires -s server:port'')
         else Inr (finish (zero_TunnelConfig\<lparr>tc_Mode := ''remote'', tc_Remote := ap_remote p,
                tc_Server := ap_server p, tc_Token := ap_token p, tc_TLS := ap_tls p,
                tc_TLSVerify := ap_tlsVerify p, tc_TLSCert := ap_tlsCert p, tc_TLSKey := ap_tlsKey p,
                tc_TLSTrustOnFirstUse := ap_tlsTrustOnFirstUse p,
                tc_TLSServerFingerprint := ap_tlsServerFingerprint p,
                tc_Name := defaultName (ap_name p) (''remote-'' @ ap_remote p)\<rparr>)))
      else if ap_dynamic p \<noteq> '''' then
        Inr (finish (zero_TunnelConfig\<lparr>tc_Mode := ''dynamic'', tc_Local := normalizeListenAddr (ap_dynamic p),
                tc_SocksUser := ap_socksUser p, tc_SocksPass := ap_socksPass p,
                tc_Name := defaultName (ap_name p) (''dynamic-'' @ ap_dynamic p)\<rparr>))
      else Inl (Errorf ''specify -L, -R, or -D''))"


section \<open>Properties\<close>

text \<open>
  C39: The language of the forwarding parser. It accepts exactly the texts that
  consist of an optional bind prefix (only where one is allowed), a decimal port, a
  non-empty host without colons and a decimal port, with no bracket anywhere, and
  returns those parts, the default bind address standing for an empty prefix.
\<close>

theorem forward_spec_language:
  "parseForwardSpec spec db allow = Inr fs \<longleftrightarrow>
     (\<exists>b port hostPort. spec_form spec b port (fs_host fs) hostPort \<and> (b \<noteq> '''' \<longrightarrow> allow)
        \<and> fs = \<lparr>fs_bind = (if b = '''' then db else b), fs_port = word_of_nat port, fs_host = fs_host fs,
                fs_hostPort = word_of_nat hostPort\<rparr>)"
  using form_of_parse parse_of_form(1) by metis

theorem forward_spec_language_witness:
  "parseForwardSpec ''0.0.0.0:8080:web:80'' ''127.0.0.1'' True
     = Inr \<lparr>fs_bind = ''0.0.0.0'', fs_port = 8080, fs_host = ''web'', fs_hostPort = 80\<rparr>"
proof -
  have "ParseUint (itoa 8080) 16 = Inr 8080" "ParseUint (itoa 80) 16 = Inr 80"
    by (rule ParseUint_itoa, simp)+
  then have "ParseUint ''8080'' 16 = Inr 8080" "ParseUint ''80'' 16 = Inr 80"
    by (simp_all add: itoa.simps)
  then have "spec_form ''0.0.0.0:8080:web:80'' ''0.0.0.0'' 8080 ''web'' 80"
    unfolding spec_form_def
    by (intro conjI exI [of _ "''0.0.0.0:''"] exI [of _ "''8080''"] exI [of _ "''80''"]) simp_all
  then show ?thesis
    by (subst forward_spec_language, intro exI [of _ "''0.0.0.0''"] exI [of _ 8080] exI [of _ 80]) simp
qed

text \<open>
  Printing and parsing a forwarding specification are inverse: a bind address, a
  host and two ports written as \<^verbatim>\<open>bind:port:host:hostport\<close> are read back as they
  were, by the command line and, for remote tunnels, by the manager.
\<close>

theorem forward_spec_roundtrip:
  fixes port hostPort :: u16
  assumes "\<not> ContainsAny (bind @ host) ''[]''" and "bind \<noteq> ''''" and "host \<noteq> ''''" and "CHR '':'' \<notin> set host"
  defines "spec \<equiv> bind @ '':'' @ itoa (unat port) @ '':'' @ host @ '':'' @ itoa (unat hostPort)"
  shows "parseForwardSpec spec db True = Inr \<lparr>fs_bind = bind, fs_port = port, fs_host = host, fs_hostPort = hostPort\<rparr>
     \<and> mgr_parseRemoteSpec spec = Inr (bind, port, JoinHostPort host (itoa (unat hostPort)))"
proof -
  have "unat port < 2 ^ 16" "unat hostPort < 2 ^ 16"
    using unsigned_less [of port] unsigned_less [of hostPort] by simp_all
  then have "ParseUint (itoa (unat port)) 16 = Inr (unat port)"
    "ParseUint (itoa (unat hostPort)) 16 = Inr (unat hostPort)" by simp_all
  then have "spec_form spec bind (unat port) host (unat hostPort)"
    unfolding spec_form_def spec_def using assms(1,3,4)
    by (intro conjI exI [of _ "bind @ '':''"] exI [of _ "itoa (unat port)"] exI [of _ "itoa (unat hostPort)"])
       simp_all
  note f = this
  show ?thesis using parse_of_form(1) [OF f, of True db] parse_of_form(2) [OF f] assms(2) by simp
qed

theorem forward_spec_roundtrip_witness:
  "mgr_parseRemoteSpec (''10.0.0.1'' @ '':'' @ itoa 9090 @ '':'' @ ''localhost'' @ '':'' @ itoa 8080)
     = Inr (''10.0.0.1'', 9090, JoinHostPort ''localhost'' (itoa 8080))"
  using forward_spec_roundtrip [of "''10.0.0.1''" "''localhost''" 9090 8080] by simp

text \<open>
  The command line's and the manager's remote specification parsers accept the
  same texts with the same result, so a specification \<^verbatim>\<open>tunnel -R\<close> accepts is one
  the daemon accepts, and the other way round.
\<close>

theorem remote_spec_parsers_agree:
  "parseRemoteSpec spec = Inr r \<longleftrightarrow> mgr_parseRemoteSpec spec = Inr r"
proof -
  have "\<exists>r. parseRemoteSpec spec = Inr r \<and> mgr_parseRemoteSpec spec = Inr r"
    if f: "spec_form spec b port host hostPort" for b port host hostPort
  proof -
    have "hostPort < 2 ^ 16" using f ParseUint_bound unfolding spec_form_def by blast
    then have "unat (word_of_nat hostPort :: u16) = hostPort" by (simp add: unat_of_nat)
    then show ?thesis
      using parse_of_form(1) [OF f, of True "''0.0.0.0''"] parse_of_form(2) [OF f]
      by (simp add: parseRemoteSpec_def)
  qed
  then have both: "\<exists>r. parseRemoteSpec spec = Inr r \<and> mgr_parseRemoteSpec spec = Inr r"
    if "\<exists>b port host hostPort. spec_form spec b port host hostPort"
    using that by blast
  have "\<exists>b port host hostPort. spec_form spec b port host hostPort" if "parseRemoteSpec spec = Inr r"
    using that form_of_parse [of spec "''0.0.0.0''" True]
    by (auto simp: parseRemoteSpec_def split: sum.splits)
  with both form_of_mgr_parse [of spec r] show ?thesis by fastforce
qed

text \<open>
  What \<^verbatim>\<open>tunnel add\<close> builds can be started: a configuration it accepts has one of
  the three modes, a non-empty name, and for a local tunnel a target address that
  splits back into the host and port of the specification.
\<close>

theorem add_builds_startable:
  assumes "buildTunnelConfig p = Inr tc"
  shows "tc_Mode tc \<in> {''local'', ''remote'', ''dynamic''} \<and> tc_Name tc \<noteq> ''''
     \<and> (tc_Mode tc = ''remote'' \<longrightarrow> tc_Server tc \<noteq> '''')
     \<and> (tc_Mode tc = ''local'' \<longrightarrow>
          (\<exists>fs. parseForwardSpec (ap_local p) ''127.0.0.1'' True = Inr fs
             \<and> SplitHostPort (tc_Remote tc) = Inr (fs_host fs, itoa (unat (fs_hostPort fs)))))"
proof -
  have split: "SplitHostPort (JoinHostPort (fs_host fs) (itoa n)) = Inr (fs_host fs, itoa n)"
    if parsed: "parseForwardSpec spec db True = Inr fs" for spec db fs n
  proof (rule Split_Join)
    from form_of_parse [OF parsed] obtain b x y where f: "spec_form spec b x (fs_host fs) y"
      by blast
    then show "\<not> ContainsAny (fs_host fs) ''[]''" by (auto simp: spec_form_def)
    show "\<not> ContainsAny (itoa n) ''[]:''"
      using itoa_brackets [of n] itoa_colon [of n] by (auto simp: ContainsAny_def)
  qed
  show ?thesis
    using assms split
    by (auto simp: buildTunnelConfig_def Let_def defaultName_def parseLocalSpec_def
        split: if_split_asm sum.split_asm)
qed

definition demo_add :: addParams where
  "demo_add = \<lparr>ap_local = '''', ap_remote = ''9090:localhost:8080'', ap_dynamic = '''', ap_name = '''',
     ap_server = ''vps:9000'', ap_token = ''t'', ap_tls = True, ap_tlsVerify = False, ap_tlsCert = '''',
     ap_tlsKey = '''', ap_tlsTrustOnFirstUse = False, ap_tlsServerFingerprint = '''', ap_socksUser = '''',
     ap_socksPass = '''', ap_protocol = ''tcp'', ap_group = '''', ap_autostart = True\<rparr>"

theorem add_builds_startable_witness:
  "\<exists>tc. buildTunnelConfig demo_add = Inr tc \<and> tc_Name tc \<noteq> ''''"
proof -
  obtain tc where tc: "buildTunnelConfig demo_add = Inr tc"
    by (simp add: buildTunnelConfig_def demo_add_def)
  with add_builds_startable [OF tc] show ?thesis by blast
qed

text \<open>
  \<^verbatim>\<open>tunnel add -L ... --tls\<close> builds a tunnel without TLS: for a local tunnel no TLS
  flag reaches the configuration.
\<close>

theorem add_local_drops_tls:
  assumes "ap_local p \<noteq> ''''" and "buildTunnelConfig p = Inr tc"
  shows "\<not> tc_TLS tc \<and> tc_TLSCert tc = '''' \<and> tc_TLSKey tc = '''' \<and> \<not> tc_TLSVerify tc"
  using assms
  by (auto simp: buildTunnelConfig_def Let_def zero_TunnelConfig_def split: if_split_asm sum.split_asm)

theorem add_local_drops_tls_witness:
  "\<exists>tc. buildTunnelConfig (demo_add\<lparr>ap_local := ''a:'' @ itoa 80 @ '':'' @ ''h'' @ '':'' @ itoa 81\<rparr>) = Inr tc \<and> \<not> tc_TLS tc"
proof -
  let ?s = "''a:'' @ itoa 80 @ '':'' @ ''h'' @ '':'' @ itoa 81"
  have "spec_form ?s ''a'' 80 ''h'' 81"
    unfolding spec_form_def
    by (intro conjI exI [of _ "''a:''"] exI [of _ "itoa 80"] exI [of _ "itoa 81"]) (simp_all only: ParseUint_itoa, simp_all)
  from parse_of_form(1) [OF this, of True] obtain tc
    where "buildTunnelConfig (demo_add\<lparr>ap_local := ?s\<rparr>) = Inr tc"
    by (simp add: buildTunnelConfig_def parseLocalSpec_def)
  with add_local_drops_tls [OF _ this] show ?thesis by simp
qed

end
