(* ===== verification/Log_Buffer.thy ===== *)
theory Log_Buffer
  imports Net_Addr
begin

text \<open>
  The in-memory log of the daemon (\<^verbatim>\<open>manager/logging.go\<close>): a ring buffer of lines
  with a filter. It is shown to hold the most recent lines written and to answer a
  query with the most recent matching ones, oldest first.
\<close>

section \<open>Text functions of the strings package\<close>

definition TrimRight_nl :: "string \<Rightarrow> string" where
  "TrimRight_nl s = rev (dropWhile (\<lambda>c. c = CHR 0x0A) (rev s))"

fun Split_nl :: "string \<Rightarrow> string list" where
  "Split_nl [] = [[]]"
| "Split_nl (c # s) =
     (if c = CHR 0x0A then [] # Split_nl s
      else case Split_nl s of [] \<Rightarrow> [[c]] | l # ls \<Rightarrow> (c # l) # ls)"

fun Contains :: "string \<Rightarrow> string \<Rightarrow> bool" where
  "Contains [] t \<longleftrightarrow> t = []"
| "Contains (c # s) t \<longleftrightarrow> take (length t) (c # s) = t \<or> Contains s t"

lemma Contains_iff: "Contains s t \<longleftrightarrow> (\<exists>u v. s = u @ t @ v)"
proof
  show "Contains s t \<Longrightarrow> \<exists>u v. s = u @ t @ v"
  proof (induction s)
    case (Cons c s)
    then consider "take (length t) (c # s) = t" | "Contains s t" by auto
    then show ?case
    proof cases
      case 1
      then have "c # s = [] @ t @ drop (length t) (c # s)" by (metis append_Nil append_take_drop_id)
      then show ?thesis by blast
    next
      case 2
      with Cons.IH obtain u v where "s = u @ t @ v" by blast
      then have "c # s = (c # u) @ t @ v" by simp
      then show ?thesis by blast
    qed
  qed simp
next
  have "Contains (t @ v) t" for v by (metis Contains.elims(3) append_eq_conv_conj append_is_Nil_conv)
  moreover have "Contains s t \<Longrightarrow> Contains (u @ s) t" for u s
    by (induction u) auto
  ultimately show "\<exists>u v. s = u @ t @ v \<Longrightarrow> Contains s t" by auto
qed


section \<open>The buffer\<close>

record LogBuffer =
  lb_lines :: "string list"
  lb_capacity :: int

definition NewLogBuffer :: "int \<Rightarrow> LogBuffer" where
  "NewLogBuffer capacity = \<lparr>lb_lines = [], lb_capacity = (if capacity \<le> 0 then 1000 else capacity)\<rparr>"

definition appendLocked :: "LogBuffer \<Rightarrow> string \<Rightarrow> LogBuffer" where
  "appendLocked lb line =
     (let lb1 = (if int (length (lb_lines lb)) \<ge> lb_capacity lb
                 then lb\<lparr>lb_lines := drop 1 (lb_lines lb)\<rparr> else lb) in
      lb1\<lparr>lb_lines := lb_lines lb1 @ [line]\<rparr>)"

fun write_parts :: "LogBuffer \<Rightarrow> string list \<Rightarrow> LogBuffer" where
  "write_parts lb [] = lb"
| "write_parts lb (line # ls) =
     (if line = '''' then write_parts lb ls else write_parts (appendLocked lb line) ls)"

definition lb_Write :: "LogBuffer \<Rightarrow> bytes \<Rightarrow> (nat \<times> error option) \<times> LogBuffer" where
  "lb_Write lb p =
     ((length p, None), write_parts lb (Split_nl (TrimRight_nl (string_of_bytes p))))"

definition lb_Add :: "LogBuffer \<Rightarrow> string \<Rightarrow> LogBuffer" where
  "lb_Add lb line = appendLocked lb line"

text \<open>
  The collecting loop of \<^verbatim>\<open>Lines\<close>: \<open>i\<close> is one more than the loop's index, and \<open>acc\<close>
  is what was collected so far.
\<close>

fun collect :: "string list \<Rightarrow> string \<Rightarrow> int \<Rightarrow> nat \<Rightarrow> string list \<Rightarrow> string list" where
  "collect lines name limit 0 acc = acc"
| "collect lines name limit (Suc i) acc =
     (if int (length acc) < limit then
        collect lines name limit i
          (if name = '''' \<or> Contains (lines ! i) name then acc @ [lines ! i] else acc)
      else acc)"

text \<open>The reversing loop, exchanging the elements at \<open>i\<close> and \<open>j\<close> while \<open>i < j\<close>.\<close>

function reverse_loop :: "'a list \<Rightarrow> int \<Rightarrow> int \<Rightarrow> 'a list" where
  "reverse_loop acc i j =
     (if i < j then
        reverse_loop ((acc[nat i := acc ! nat j])[nat j := acc ! nat i]) (i + 1) (j - 1)
      else acc)"
  by pat_completeness auto
termination by (relation "measure (\<lambda>(acc, i, j). nat (j - i))") auto

declare reverse_loop.simps [simp del]

text \<open>
  \<^verbatim>\<open>make([]string, 0, limit)\<close> panics when the slice would not fit the address space
  (2^48 bytes, 16 for a string); \<open>None\<close> is that panic.
\<close>

definition make_limit :: int where "make_limit = 2 ^ 44"

definition Lines :: "LogBuffer \<Rightarrow> string \<Rightarrow> int \<Rightarrow> string list option" where
  "Lines lb name limit0 =
     (let limit = (if limit0 \<le> 0 then 100 else limit0) in
      if limit > make_limit then None
      else
        let acc = collect (lb_lines lb) name limit (length (lb_lines lb)) [] in
        Some (reverse_loop acc 0 (int (length acc) - 1)))"


section \<open>The buffer keeps the most recent lines\<close>

text \<open>
  The contract of a bounded history: adding to a full one drops the oldest entry.
  From it, the contents after any sequence of additions are the last entries.
\<close>

locale bounded_history =
  fixes add :: "'s \<Rightarrow> 'a \<Rightarrow> 's"
    and contents :: "'s \<Rightarrow> 'a list"
    and cap :: "'s \<Rightarrow> nat"
  assumes add_contents: "0 < cap s \<Longrightarrow> length (contents s) \<le> cap s \<Longrightarrow>
      contents (add s x) = drop (Suc (length (contents s)) - cap s) (contents s @ [x])"
    and add_cap: "cap (add s x) = cap s"
begin

lemma contents_fold:
  assumes "0 < cap s" and "length (contents s) \<le> cap s"
  shows "contents (foldl add s xs) = drop (length (contents s @ xs) - cap s) (contents s @ xs)"
    and "cap (foldl add s xs) = cap s"
proof -
  have "contents (foldl add s xs) = drop (length (contents s @ xs) - cap s) (contents s @ xs)
      \<and> cap (foldl add s xs) = cap s"
    using assms
  proof (induction xs arbitrary: s)
    case (Cons x xs)
    let ?c = "contents s @ [x]"
    have c: "contents (add s x) = drop (length ?c - cap s) ?c" "cap (add s x) = cap s"
      using add_contents [OF Cons.prems] add_cap by simp_all
    have "length (contents (add s x)) \<le> cap s" using c by simp
    with Cons.IH [of "add s x"] Cons.prems(1) c(2)
    have IH: "contents (foldl add (add s x) xs)
        = drop (length (contents (add s x) @ xs) - cap s) (contents (add s x) @ xs)"
      "cap (foldl add (add s x) xs) = cap s" by simp_all
    have le: "length ?c - cap s \<le> length ?c" by simp
    then have "contents (add s x) @ xs = drop (length ?c - cap s) (?c @ xs)"
      using drop_append [of "length ?c - cap s" ?c xs] c(1) by (metis diff_is_0_eq drop_0)
    then have "contents (foldl add (add s x) xs)
        = drop (length (drop (length ?c - cap s) (?c @ xs)) - cap s) (drop (length ?c - cap s) (?c @ xs))"
      using IH(1) by simp
    also have "\<dots> = drop (length (?c @ xs) - cap s) (?c @ xs)"
    proof -
      have "length (?c @ xs) - (length ?c - cap s) - cap s + (length ?c - cap s) = length (?c @ xs) - cap s"
        by simp
      then show ?thesis by (simp only: drop_drop length_drop)
    qed
    finally have "contents (foldl add (add s x) xs) = drop (length (?c @ xs) - cap s) (?c @ xs)" .
    with IH(2) show ?case by simp
  qed simp
  then show "contents (foldl add s xs) = drop (length (contents s @ xs) - cap s) (contents s @ xs)"
    "cap (foldl add s xs) = cap s" by blast+
qed

end

interpretation log: bounded_history appendLocked lb_lines "\<lambda>lb. nat (lb_capacity lb)"
proof
  fix s :: LogBuffer and x
  assume "0 < nat (lb_capacity s)" "length (lb_lines s) \<le> nat (lb_capacity s)"
  then show "lb_lines (appendLocked s x)
      = drop (Suc (length (lb_lines s)) - nat (lb_capacity s)) (lb_lines s @ [x])"
  proof (cases "int (length (lb_lines s)) \<ge> lb_capacity s")
    case True
    with \<open>length (lb_lines s) \<le> nat (lb_capacity s)\<close> have "length (lb_lines s) = nat (lb_capacity s)" by linarith
    with True \<open>0 < nat (lb_capacity s)\<close> show ?thesis by (cases "lb_lines s") (auto simp: appendLocked_def Let_def)
  qed (simp add: appendLocked_def Let_def)
next
  fix s :: LogBuffer and x
  show "nat (lb_capacity (appendLocked s x)) = nat (lb_capacity s)"
    by (simp add: appendLocked_def Let_def)
qed

lemma write_parts_foldl: "write_parts lb ls = foldl appendLocked lb (filter (\<lambda>l. l \<noteq> '''') ls)"
  by (induction ls arbitrary: lb) auto

lemma collect_correct:
  fixes name :: string
  assumes "i \<le> length lines" and "int (length acc) \<le> limit"
  defines "P \<equiv> (\<lambda>l. name = '''' \<or> Contains l name)"
  shows "collect lines name limit i acc
     = acc @ take (nat limit - length acc) (filter P (rev (take i lines)))"
  using assms(1,2)
proof (induction i arbitrary: acc)
  case (Suc i)
  have r: "rev (take (Suc i) lines) = lines ! i # rev (take i lines)"
    using Suc.prems(1) by (simp add: take_Suc_conv_app_nth)
  show ?case
  proof (cases "int (length acc) < limit \<and> P (lines ! i)")
    case True
    then have "nat limit - length acc = Suc (nat limit - length (acc @ [lines ! i]))" by simp linarith
    moreover have "collect lines name limit i (acc @ [lines ! i])
        = (acc @ [lines ! i]) @ take (nat limit - length (acc @ [lines ! i])) (filter P (rev (take i lines)))"
      using Suc True by (intro Suc.IH) auto
    ultimately show ?thesis using True r unfolding P_def by auto
  next
    case False
    then show ?thesis using Suc r unfolding P_def by auto
  qed
qed simp

lemma reverse_loop_nth:
  assumes "0 \<le> i" and "j < int (length acc)"
  shows "length (reverse_loop acc i j) = length acc \<and> (\<forall>k<length acc. reverse_loop acc i j ! k =
     (if i \<le> int k \<and> int k \<le> j then acc ! nat (i + j - int k) else acc ! k))"
  using assms
proof (induction acc i j rule: reverse_loop.induct)
  case (1 acc i j)
  show ?case
  proof (cases "i < j")
    case False
    then have "reverse_loop acc i j = acc" by (subst reverse_loop.simps) simp
    moreover have "nat (i + j - int k) = k" if "i \<le> int k" "int k \<le> j" for k
      using that False by linarith
    ultimately show ?thesis by simp
  next
    case True
    let ?o = "(acc[nat i := acc ! nat j])[nat j := acc ! nat i]"
    have eq: "reverse_loop acc i j = reverse_loop ?o (i + 1) (j - 1)"
      using True by (subst reverse_loop.simps) simp
    have ih: "length (reverse_loop ?o (i + 1) (j - 1)) = length ?o"
      "\<And>k. k < length ?o \<Longrightarrow> reverse_loop ?o (i + 1) (j - 1) ! k =
        (if i + 1 \<le> int k \<and> int k \<le> j - 1 then ?o ! nat ((i + 1) + (j - 1) - int k) else ?o ! k)"
      using 1(1) [OF True] 1(2,3) by simp_all
    have "reverse_loop acc i j ! k = (if i \<le> int k \<and> int k \<le> j then acc ! nat (i + j - int k) else acc ! k)"
      if k: "k < length acc" for k
    proof -
      consider "int k = i" | "int k = j" | "i + 1 \<le> int k" "int k \<le> j - 1" | "int k < i \<or> j < int k" by linarith
      then show ?thesis
      proof cases
        case 3
        then have "nat (i + j - int k) \<noteq> nat i" "nat (i + j - int k) \<noteq> nat j" using \<open>0 \<le> i\<close> by linarith+
        with 3 show ?thesis using ih(2) [of k] k eq by simp
      next
        case 1
        then have "k = nat i" "nat i \<noteq> nat j" "nat (i + j - int k) = nat j" using True by linarith+
        with 1 show ?thesis using ih(2) [of k] k eq True by simp
      next
        case 2
        then have "k = nat j" "nat (i + j - int k) = nat i" using True by linarith+
        with 2 show ?thesis using ih(2) [of k] k eq True by simp
      next
        case 4
        then have "k \<noteq> nat i" "k \<noteq> nat j" using True \<open>0 \<le> i\<close> by linarith+
        with 4 show ?thesis using ih(2) [of k] k eq True by auto
      qed
    qed
    then show ?thesis using ih(1) eq by simp
  qed
qed

lemma reverse_loop_rev: "reverse_loop acc 0 (int (length acc) - 1) = rev acc"
proof (rule nth_equalityI)
  note r = reverse_loop_nth [of 0 "int (length acc) - 1" acc]
  show "length (reverse_loop acc 0 (int (length acc) - 1)) = length (rev acc)" using r by simp
  show "reverse_loop acc 0 (int (length acc) - 1) ! k = rev acc ! k"
    if "k < length (reverse_loop acc 0 (int (length acc) - 1))" for k
  proof -
    have k: "k < length acc" using that r by simp
    then have "nat (0 + (int (length acc) - 1) - int k) = length acc - Suc k" by linarith
    with k r show ?thesis by (simp add: rev_nth)
  qed
qed


section \<open>Properties\<close>

text \<open>
  The log buffer holds exactly the most recent lines. After any sequence of
  lines was added to a fresh buffer, it contains the last \<open>capacity\<close> of them in
  order, so memory is bounded and nothing recent is missing.
\<close>

theorem log_keeps_recent:
  "lb_lines (foldl lb_Add (NewLogBuffer capacity) lines)
       = drop (length lines - nat (lb_capacity (NewLogBuffer capacity))) lines
     \<and> int (length (lb_lines (foldl lb_Add (NewLogBuffer capacity) lines))) \<le> lb_capacity (NewLogBuffer capacity)"
proof -
  have "lb_Add = appendLocked" by (intro ext) (simp add: lb_Add_def)
  then show ?thesis
    using log.contents_fold(1) [of "NewLogBuffer capacity" lines] by (auto simp: NewLogBuffer_def)
qed

text \<open>
  A log query returns the most recent matching lines, oldest first: of the
  buffered lines that contain the name, the last \<open>limit\<close> (100 when the limit is not
  positive), for every limit up to the one at which allocating the answer panics.
\<close>

theorem log_query_correct:
  "Lines lb name limit =
     (let n = (if limit \<le> 0 then 100 else limit);
          matching = filter (\<lambda>l. name = '''' \<or> Contains l name) (lb_lines lb) in
      if n > make_limit then None else Some (rev (take (nat n) (rev matching))))"
proof -
  define n where "n = (if limit \<le> 0 then 100 else limit)"
  have "0 \<le> n" by (simp add: n_def)
  then have "collect (lb_lines lb) name n (length (lb_lines lb)) []
      = take (nat n) (rev (filter (\<lambda>l. name = '''' \<or> Contains l name) (lb_lines lb)))"
    using collect_correct [of "length (lb_lines lb)" "lb_lines lb" "[]" n name] by (simp add: rev_filter)
  then show ?thesis
    unfolding Lines_def Let_def n_def [symmetric] by (simp only: reverse_loop_rev)
qed

end
