(* ===== verification/Identity.thy ===== *)
theory Identity
  imports Config_File
begin

text \<open>
  The persistent TLS identity of a process (\<^verbatim>\<open>relay/identity.go\<close>): the key that is
  kept for ever, the certificate that is renewed before it expires, the cache that
  tunnels of one process share, and the fingerprint peers pin. The packages
  \<^verbatim>\<open>crypto/ecdsa\<close>, \<^verbatim>\<open>crypto/x509\<close>, \<^verbatim>\<open>crypto/tls\<close>, \<^verbatim>\<open>crypto/sha256\<close> and
  \<^verbatim>\<open>encoding/pem\<close> are parameters; times are nanoseconds.
\<close>

section \<open>Keys and certificates\<close>

datatype public_key = EcdsaPub int int | OtherPub bytes

record ecdsa_key =
  key_D :: int
  key_X :: int
  key_Y :: int

abbreviation PublicKey :: "ecdsa_key \<Rightarrow> public_key" where
  "PublicKey k \<equiv> EcdsaPub (key_X k) (key_Y k)"

text \<open>What \<^verbatim>\<open>x509.ParsePKCS8PrivateKey\<close> returns: an ECDSA key, or one of another type.\<close>

datatype private_key = EcdsaKey ecdsa_key | OtherKey string

record x509_cert =
  crt_NotAfter :: int
  crt_PublicKey :: public_key

record tls_Certificate =
  crt_Certificate :: "bytes list"
  crt_PrivateKey :: "private_key option"

definition zero_Certificate :: tls_Certificate where
  "zero_Certificate = \<lparr>crt_Certificate = [], crt_PrivateKey = None\<rparr>"

record crypto_pkgs =
  sha256 :: "bytes \<Rightarrow> bytes"
  MarshalPKIXPublicKey :: "public_key \<Rightarrow> bytes res"
  MarshalECPrivateKey :: "ecdsa_key \<Rightarrow> bytes res"
  ParseECPrivateKey :: "bytes \<Rightarrow> ecdsa_key res"
  ParsePKCS8PrivateKey :: "bytes \<Rightarrow> private_key res"
  ParseCertificate :: "bytes \<Rightarrow> x509_cert res"
  pem_Decode :: "string \<Rightarrow> (string \<times> bytes) option"
  pem_Encode :: "string \<times> bytes \<Rightarrow> string"
  X509KeyPair :: "string \<Rightarrow> string \<Rightarrow> tls_Certificate res"

text \<open>
  The part of the certificate template that differs from call to call, and what the
  random source gives one call: a key, a serial number, a signed certificate.
\<close>

record cert_template =
  tmpl_SerialNumber :: int
  tmpl_NotBefore :: int
  tmpl_NotAfter :: int

record rand_source =
  GenerateKey :: "ecdsa_key res"
  rand_Int :: "int res"
  CreateCertificate :: "cert_template \<Rightarrow> ecdsa_key \<Rightarrow> bytes res"

definition hour :: int where "hour = 3600 * 10 ^ 9"

definition rotationWindow :: int where "rotationWindow = 30 * 24 * hour"

definition LoadX509KeyPair :: "crypto_pkgs \<Rightarrow> os_env \<Rightarrow> string \<Rightarrow> string \<Rightarrow> tls_Certificate res" where
  "LoadX509KeyPair pk os certFile keyFile =
     (case ReadFile os certFile of
        Inl e \<Rightarrow> Inl e
      | Inr certPEM \<Rightarrow>
          (case ReadFile os keyFile of
             Inl e \<Rightarrow> Inl e
           | Inr keyPEM \<Rightarrow> X509KeyPair pk certPEM keyPEM))"


section \<open>Fingerprints\<close>

definition b64_char :: "nat \<Rightarrow> char" where
  "b64_char n = ''ABCDEFGHIJKLMNOPQRSTUVWXYZabcdefghijklmnopqrstuvwxyz0123456789+/'' ! (n mod 64)"

fun base64 :: "bytes \<Rightarrow> string" where
  "base64 [] = []"
| "base64 [a] = (let n = unat a * 65536 in [b64_char (n div 262144), b64_char (n div 4096), CHR ''='', CHR ''=''])"
| "base64 [a, b] = (let n = unat a * 65536 + unat b * 256 in
     [b64_char (n div 262144), b64_char (n div 4096), b64_char (n div 64), CHR ''=''])"
| "base64 (a # b # c # r) = (let n = unat a * 65536 + unat b * 256 + unat c in
     [b64_char (n div 262144), b64_char (n div 4096), b64_char (n div 64), b64_char n] @ base64 r)"

definition PublicKeyFingerprint :: "crypto_pkgs \<Rightarrow> public_key \<Rightarrow> string res" where
  "PublicKeyFingerprint pk pub =
     (case MarshalPKIXPublicKey pk pub of
        Inl e \<Rightarrow> Inl (Wrap ''marshal public key'' e)
      | Inr der \<Rightarrow> Inr (''SHA256:'' @ base64 (sha256 pk der)))"

definition PeerFingerprint :: "crypto_pkgs \<Rightarrow> x509_cert \<Rightarrow> string" where
  "PeerFingerprint pk cert =
     (case PublicKeyFingerprint pk (crt_PublicKey cert) of Inl _ \<Rightarrow> '''' | Inr fp \<Rightarrow> fp)"

definition tlsCertFingerprint :: "crypto_pkgs \<Rightarrow> tls_Certificate \<Rightarrow> string res" where
  "tlsCertFingerprint pk cert =
     (case crt_Certificate cert of
        [] \<Rightarrow> Inl (Errorf ''no certificate'')
      | der # _ \<Rightarrow>
          (case ParseCertificate pk der of
             Inl e \<Rightarrow> Inl e
           | Inr leaf \<Rightarrow> PublicKeyFingerprint pk (crt_PublicKey leaf)))"


section \<open>Loading, saving and generating\<close>

definition loadIdentityKey :: "crypto_pkgs \<Rightarrow> os_env \<Rightarrow> string \<Rightarrow> ecdsa_key res" where
  "loadIdentityKey pk os path =
     (case ReadFile os path of
        Inl e \<Rightarrow> Inl e
      | Inr data \<Rightarrow>
          (case pem_Decode pk data of
             None \<Rightarrow> Inl (Errorf (''no PEM data in '' @ path))
           | Some (ty, block) \<Rightarrow>
               if ty = ''EC PRIVATE KEY'' then ParseECPrivateKey pk block
               else if ty = ''PRIVATE KEY'' then
                 (case ParsePKCS8PrivateKey pk block of
                    Inl e \<Rightarrow> Inl e
                  | Inr (EcdsaKey k) \<Rightarrow> Inr k
                  | Inr (OtherKey t) \<Rightarrow> Inl (Errorf (''expected ECDSA key, got '' @ t)))
               else Inl (Errorf (''unsupported key type '' @ quote ty))))"

definition saveIdentityKey :: "crypto_pkgs \<Rightarrow> os_env \<Rightarrow> ecdsa_key \<Rightarrow> string \<Rightarrow> error option \<times> os_env" where
  "saveIdentityKey pk os key path =
     (case MarshalECPrivateKey pk key of
        Inl e \<Rightarrow> (Some e, os)
      | Inr keyBytes \<Rightarrow> WriteFile os path (pem_Encode pk (''EC PRIVATE KEY'', keyBytes)))"

definition certNeedsRotation :: "crypto_pkgs \<Rightarrow> int \<Rightarrow> tls_Certificate \<Rightarrow> bool" where
  "certNeedsRotation pk now cert =
     (case crt_Certificate cert of
        [] \<Rightarrow> True
      | der # _ \<Rightarrow>
          (case ParseCertificate pk der of
             Inl _ \<Rightarrow> True
           | Inr leaf \<Rightarrow> crt_NotAfter leaf - now < rotationWindow))"

definition tryLoadCert ::
  "crypto_pkgs \<Rightarrow> int \<Rightarrow> os_env \<Rightarrow> string \<Rightarrow> string \<Rightarrow> ecdsa_key \<Rightarrow> tls_Certificate res" where
  "tryLoadCert pk now os certPath keyPath key =
     (case LoadX509KeyPair pk os certPath keyPath of
        Inl e \<Rightarrow> Inl e
      | Inr cert \<Rightarrow>
          (case crt_Certificate cert of
             [] \<Rightarrow> Inl (Errorf ''no certificates in identity'')
           | der # _ \<Rightarrow>
               (case ParseCertificate pk der of
                  Inl e \<Rightarrow> Inl e
                | Inr leaf \<Rightarrow>
                    if now > crt_NotAfter leaf then Inl (Errorf ''identity certificate expired'')
                    else if certNeedsRotation pk now cert then Inl (Errorf ''identity certificate near expiry'')
                    else if crt_PublicKey leaf \<noteq> PublicKey key
                    then Inl (Errorf ''certificate public key does not match identity key'')
                    else Inr cert)))"

definition saveIdentityCert :: "crypto_pkgs \<Rightarrow> os_env \<Rightarrow> tls_Certificate \<Rightarrow> string \<Rightarrow> error option \<times> os_env" where
  "saveIdentityCert pk os cert certPath =
     (case crt_Certificate cert of
        [] \<Rightarrow> (Some (Errorf ''no certificate to save''), os)
      | der # _ \<Rightarrow> WriteFile os certPath (pem_Encode pk (''CERTIFICATE'', der)))"

definition generateCertWithKey :: "rand_source \<Rightarrow> int \<Rightarrow> ecdsa_key \<Rightarrow> tls_Certificate res" where
  "generateCertWithKey r now key =
     (case rand_Int r of
        Inl e \<Rightarrow> Inl (Wrap ''serial'' e)
      | Inr serial \<Rightarrow>
          let tmpl = \<lparr>tmpl_SerialNumber = serial, tmpl_NotBefore = now - hour, tmpl_NotAfter = now + 365 * 24 * hour\<rparr> in
          (case CreateCertificate r tmpl key of
             Inl e \<Rightarrow> Inl (Wrap ''create cert'' e)
           | Inr certDER \<Rightarrow> Inr \<lparr>crt_Certificate = [certDER], crt_PrivateKey = Some (EcdsaKey key)\<rparr>))"

definition GenerateCert :: "rand_source \<Rightarrow> int \<Rightarrow> tls_Certificate res" where
  "GenerateCert r now =
     (case GenerateKey r of
        Inl e \<Rightarrow> Inl (Wrap ''generate key'' e)
      | Inr key \<Rightarrow> generateCertWithKey r now key)"


section \<open>The identity of a directory\<close>

type_synonym identity = "(tls_Certificate \<times> string) res"

abbreviation cert_path :: "string \<Rightarrow> string" where
  "cert_path dir \<equiv> filepath_Join [dir, ''cert.pem'']"

abbreviation key_path :: "string \<Rightarrow> string" where
  "key_path dir \<equiv> filepath_Join [dir, ''cert-key.pem'']"

definition identity_key ::
  "crypto_pkgs \<Rightarrow> rand_source \<Rightarrow> os_env \<Rightarrow> string \<Rightarrow> ecdsa_key res \<times> os_env" where
  "identity_key pk r os keyPath =
     (case loadIdentityKey pk os keyPath of
        Inr key \<Rightarrow> (Inr key, os)
      | Inl _ \<Rightarrow>
          (case GenerateKey r of
             Inl e \<Rightarrow> (Inl (Wrap ''generate identity key'' e), os)
           | Inr key \<Rightarrow>
               (case saveIdentityKey pk os key keyPath of
                  (Some e, os1) \<Rightarrow> (Inl (Wrap ''save identity key'' e), os1)
                | (None, os1) \<Rightarrow> (Inr key, os1))))"

definition loadOrGenerateIdentityLocked ::
  "crypto_pkgs \<Rightarrow> rand_source \<Rightarrow> int \<Rightarrow> os_env \<Rightarrow> string \<Rightarrow> identity \<times> os_env" where
  "loadOrGenerateIdentityLocked pk r now os dir =
     (case os_mkdirErr os dir of
        Some e \<Rightarrow> (Inl (Wrap ''identity mkdir'' e), os)
      | None \<Rightarrow>
          (case identity_key pk r os (key_path dir) of
             (Inl e, os1) \<Rightarrow> (Inl e, os1)
           | (Inr key, os1) \<Rightarrow>
               let withFp = (\<lambda>cert. case PublicKeyFingerprint pk (PublicKey key) of
                                      Inl e \<Rightarrow> Inl e | Inr fp \<Rightarrow> Inr (cert, fp)) in
               (case tryLoadCert pk now os1 (cert_path dir) (key_path dir) key of
                  Inr cert \<Rightarrow> (withFp cert, os1)
                | Inl _ \<Rightarrow>
                    (case generateCertWithKey r now key of
                       Inl e \<Rightarrow> (Inl (Wrap ''generate identity cert'' e), os1)
                     | Inr cert \<Rightarrow>
                         (case saveIdentityCert pk os1 cert (cert_path dir) of
                            (Some e, os2) \<Rightarrow> (Inl (Wrap ''save identity cert'' e), os2)
                          | (None, os2) \<Rightarrow> (withFp cert, os2))))))"

text \<open>
  The cache of the process: for every directory the last result, errors included. The
  state of a call is the cache and the file system.
\<close>

type_synonym identityCache = "string \<Rightarrow> identity option"

definition cache_usable :: "crypto_pkgs \<Rightarrow> int \<Rightarrow> identity \<Rightarrow> bool" where
  "cache_usable pk now entry =
     (case entry of
        Inl _ \<Rightarrow> True
      | Inr (cert, _) \<Rightarrow> crt_Certificate cert = [] \<or> \<not> certNeedsRotation pk now cert)"

definition LoadOrGenerateIdentity ::
  "crypto_pkgs \<Rightarrow> rand_source \<Rightarrow> int \<Rightarrow> identityCache \<Rightarrow> os_env \<Rightarrow> string
     \<Rightarrow> identity \<times> identityCache \<times> os_env" where
  "LoadOrGenerateIdentity pk r now cache os dir =
     (if dir = '''' then
        ((case GenerateCert r now of
            Inl e \<Rightarrow> Inl e
          | Inr cert \<Rightarrow>
              (case tlsCertFingerprint pk cert of Inl e \<Rightarrow> Inl e | Inr fp \<Rightarrow> Inr (cert, fp))), cache, os)
      else
        let fresh = (case loadOrGenerateIdentityLocked pk r now os dir of (i, os1) \<Rightarrow> (i, cache(dir \<mapsto> i), os1)) in
        case cache dir of
          Some entry \<Rightarrow> if cache_usable pk now entry then (entry, cache, os) else fresh
        | None \<Rightarrow> fresh)"

section \<open>Lemmas\<close>

text \<open>
  What the packages document: a private key and a PEM block are read back as they
  were written; a certificate made for a key carries that key and ends when the
  template says, to the second.
\<close>

definition pkgs_ok :: "crypto_pkgs \<Rightarrow> bool" where
  "pkgs_ok pk \<longleftrightarrow> (\<forall>k b. MarshalECPrivateKey pk k = Inr b \<longrightarrow> ParseECPrivateKey pk b = Inr k)
     \<and> (\<forall>b. pem_Decode pk (pem_Encode pk b) = Some b)"

definition rand_ok :: "crypto_pkgs \<Rightarrow> rand_source \<Rightarrow> bool" where
  "rand_ok pk r \<longleftrightarrow> (\<forall>t k der. CreateCertificate r t k = Inr der \<longrightarrow>
     (\<exists>leaf. ParseCertificate pk der = Inr leaf \<and> crt_PublicKey leaf = PublicKey k
        \<and> tmpl_NotAfter t - 10 ^ 9 < crt_NotAfter leaf))"

text \<open>A disk on which the directory can be used.\<close>

definition disk_ok :: "os_env \<Rightarrow> string \<Rightarrow> bool" where
  "disk_ok os dir \<longleftrightarrow> os_mkdirErr os dir = None
     \<and> list_all (\<lambda>p. os_readErr os p = None \<and> os_createErr os p = None \<and> os_writeErr os p = None)
         [key_path dir, cert_path dir]"

lemma paths_differ [simp]: "cert_path dir \<noteq> key_path dir" "key_path dir \<noteq> cert_path dir"
  by (simp_all add: filepath_Join_def)

lemma WriteFile_env:
  "WriteFile os p d = (e, os') \<Longrightarrow> os_readErr os' = os_readErr os \<and> os_mkdirErr os' = os_mkdirErr os
     \<and> os_createErr os' = os_createErr os \<and> os_writeErr os' = os_writeErr os
     \<and> (\<forall>q. q \<noteq> p \<longrightarrow> os_files os' q = os_files os q)"
  by (auto simp: WriteFile_def split: option.splits)

lemma WriteFile_written:
  "WriteFile os p d = (None, os') \<Longrightarrow> os_files os' p = Some d"
  by (auto simp: WriteFile_def split: option.splits)

lemma WriteFile_ok:
  "os_createErr os p = None \<Longrightarrow> os_writeErr os p = None \<Longrightarrow> \<exists>os'. WriteFile os p d = (None, os')"
  by (simp add: WriteFile_def)

lemma ReadFile_cong:
  "os_readErr os' p = os_readErr os p \<Longrightarrow> os_files os' p = os_files os p \<Longrightarrow> ReadFile os' p = ReadFile os p"
  by (simp add: ReadFile_def split: option.split)

lemma loadIdentityKey_cong:
  "os_readErr os' p = os_readErr os p \<Longrightarrow> os_files os' p = os_files os p \<Longrightarrow>
     loadIdentityKey pk os' p = loadIdentityKey pk os p"
  unfolding loadIdentityKey_def by (simp add: ReadFile_cong [of os' p os])

text \<open>Whichever way the key was found, the next process finds the same one.\<close>

lemma identity_key_kept:
  assumes "identity_key pk r os p = (Inr key, os1)" and "pkgs_ok pk" and "os_readErr os p = None"
  shows "loadIdentityKey pk os1 p = Inr key \<and> os_readErr os1 = os_readErr os \<and> os_mkdirErr os1 = os_mkdirErr os
     \<and> os_createErr os1 = os_createErr os \<and> os_writeErr os1 = os_writeErr os"
proof (cases "loadIdentityKey pk os p")
  case (Inr k)
  with assms(1) show ?thesis by (simp add: identity_key_def)
next
  case (Inl e)
  with assms(1) have sv: "saveIdentityKey pk os key p = (None, os1)"
    by (auto simp: identity_key_def split: sum.splits prod.splits option.splits)
  then obtain b where b: "MarshalECPrivateKey pk key = Inr b"
    and wr: "WriteFile os p (pem_Encode pk (''EC PRIVATE KEY'', b)) = (None, os1)"
    by (auto simp: saveIdentityKey_def split: sum.splits)
  have "ReadFile os1 p = Inr (pem_Encode pk (''EC PRIVATE KEY'', b))"
    using WriteFile_written [OF wr] WriteFile_env [OF wr] assms(3) by (simp add: ReadFile_def)
  with b assms(2) have "loadIdentityKey pk os1 p = Inr key"
    by (simp add: loadIdentityKey_def pkgs_ok_def)
  with WriteFile_env [OF wr] show ?thesis by simp
qed

lemma tryLoadCert_fingerprint:
  assumes "tryLoadCert pk now os cp kp key = Inr cert"
  shows "tlsCertFingerprint pk cert = PublicKeyFingerprint pk (PublicKey key)"
    and "\<not> certNeedsRotation pk now cert"
  using assms
  by (auto simp: tryLoadCert_def tlsCertFingerprint_def split: sum.splits list.splits if_splits)

lemma generated_fingerprint:
  assumes "generateCertWithKey r now key = Inr cert" and "rand_ok pk r"
  shows "tlsCertFingerprint pk cert = PublicKeyFingerprint pk (PublicKey key)"
    and "\<not> certNeedsRotation pk now cert"
proof -
  from assms(1) obtain s der where d: "CreateCertificate r \<lparr>tmpl_SerialNumber = s, tmpl_NotBefore = now - hour,
      tmpl_NotAfter = now + 365 * 24 * hour\<rparr> key = Inr der" and c: "crt_Certificate cert = [der]"
    by (auto simp: generateCertWithKey_def Let_def split: sum.splits)
  from assms(2) d obtain leaf where l: "ParseCertificate pk der = Inr leaf" "crt_PublicKey leaf = PublicKey key"
      "now + 365 * 24 * hour - 10 ^ 9 < crt_NotAfter leaf"
    unfolding rand_ok_def by fastforce
  then show "tlsCertFingerprint pk cert = PublicKeyFingerprint pk (PublicKey key)"
    by (simp add: tlsCertFingerprint_def c)
  show "\<not> certNeedsRotation pk now cert"
    using l(3) by (simp add: certNeedsRotation_def c l(1) rotationWindow_def hour_def)
qed

text \<open>
  What one call leaves behind: the key on disk is the one whose fingerprint it
  returned, and the certificate it returned is for that key and not about to expire.
\<close>

lemma identity_result:
  assumes "loadOrGenerateIdentityLocked pk r now os dir = (Inr (cert, fp), os1)"
    and "pkgs_ok pk" and "rand_ok pk r" and "os_readErr os (key_path dir) = None"
  shows "\<exists>key. loadIdentityKey pk os1 (key_path dir) = Inr key \<and> PublicKeyFingerprint pk (PublicKey key) = Inr fp"
    and "tlsCertFingerprint pk cert = Inr fp" and "\<not> certNeedsRotation pk now cert"
    and "os_readErr os1 = os_readErr os" and "disk_ok os dir \<Longrightarrow> disk_ok os1 dir"
proof -
  obtain key os0 where k: "identity_key pk r os (key_path dir) = (Inr key, os0)"
    using assms(1) by (fastforce simp: loadOrGenerateIdentityLocked_def split: option.splits prod.splits sum.splits)
  note kept = identity_key_kept [OF k assms(2,4)]
  from assms(1) k have m: "os_mkdirErr os dir = None" and fp: "PublicKeyFingerprint pk (PublicKey key) = Inr fp"
    by (auto simp: loadOrGenerateIdentityLocked_def Let_def split: option.splits prod.splits sum.splits)
  have "\<not> certNeedsRotation pk now cert \<and> tlsCertFingerprint pk cert = PublicKeyFingerprint pk (PublicKey key)
     \<and> (os1 = os0 \<or> saveIdentityCert pk os0 cert (cert_path dir) = (None, os1))"
  proof (cases "tryLoadCert pk now os0 (cert_path dir) (key_path dir) key")
    case (Inr c)
    with assms(1) k m fp have "c = cert \<and> os1 = os0" by (simp add: loadOrGenerateIdentityLocked_def)
    with tryLoadCert_fingerprint [OF Inr] show ?thesis by simp
  next
    case (Inl e)
    with assms(1) k m fp obtain c where "generateCertWithKey r now key = Inr c" "c = cert"
        "saveIdentityCert pk os0 c (cert_path dir) = (None, os1)"
      by (auto simp: loadOrGenerateIdentityLocked_def split: option.splits prod.splits sum.splits)
    with generated_fingerprint [OF _ assms(3)] show ?thesis by simp
  qed
  moreover from this have "os_readErr os1 = os_readErr os0 \<and> os_mkdirErr os1 = os_mkdirErr os0
     \<and> os_createErr os1 = os_createErr os0 \<and> os_writeErr os1 = os_writeErr os0
     \<and> os_files os1 (key_path dir) = os_files os0 (key_path dir)"
    by (auto simp: saveIdentityCert_def dest!: WriteFile_env split: list.splits)
  ultimately show "tlsCertFingerprint pk cert = Inr fp" "\<not> certNeedsRotation pk now cert"
      "os_readErr os1 = os_readErr os" "disk_ok os dir \<Longrightarrow> disk_ok os1 dir"
      "\<exists>key. loadIdentityKey pk os1 (key_path dir) = Inr key \<and> PublicKeyFingerprint pk (PublicKey key) = Inr fp"
    using kept fp loadIdentityKey_cong [of os1 "key_path dir" os0 pk] by (auto simp: disk_ok_def)
qed

text \<open>
  With a key on a disk that works, the call succeeds whatever the certificate file
  holds, provided a new certificate can be issued for the key.
\<close>

lemma identity_progress:
  assumes "loadIdentityKey pk os (key_path dir) = Inr key" and "PublicKeyFingerprint pk (PublicKey key) = Inr fp"
    and "disk_ok os dir" and "generateCertWithKey r now key = Inr new"
  shows "\<exists>cert os1. loadOrGenerateIdentityLocked pk r now os dir = (Inr (cert, fp), os1)"
proof (cases "tryLoadCert pk now os (cert_path dir) (key_path dir) key")
  case (Inr cert)
  with assms show ?thesis by (simp add: loadOrGenerateIdentityLocked_def identity_key_def disk_ok_def)
next
  case (Inl e)
  from assms(4) obtain der where n: "crt_Certificate new = [der]"
    by (auto simp: generateCertWithKey_def Let_def split: sum.splits)
  obtain os1 where "WriteFile os (cert_path dir) (pem_Encode pk (''CERTIFICATE'', der)) = (None, os1)"
    using WriteFile_ok [of os "cert_path dir"] assms(3) by (auto simp: disk_ok_def)
  with n have "saveIdentityCert pk os new (cert_path dir) = (None, os1)" by (simp add: saveIdentityCert_def)
  with Inl assms show ?thesis by (simp add: loadOrGenerateIdentityLocked_def identity_key_def disk_ok_def)
qed

section \<open>Properties\<close>

text \<open>
  The identity survives restarts and renewals. After a call that returned a
  fingerprint, a new process that asks for the identity of the same directory at any
  time, with any content of its random source, gets a certificate that is not about to
  expire and has the same fingerprint: the one peers compute from the certificate.
  (The disk works, and a certificate can be issued for the stored key.)
\<close>

lemma identity_survives_restart:
  assumes "loadOrGenerateIdentityLocked pk r now os dir = (Inr (cert, fp), os1)"
    and "pkgs_ok pk" and "rand_ok pk r" and "rand_ok pk r'" and "disk_ok os dir"
    and "\<And>key. loadIdentityKey pk os1 (key_path dir) = Inr key \<Longrightarrow> \<exists>new. generateCertWithKey r' now' key = Inr new"
  shows "\<exists>cert' os2. loadOrGenerateIdentityLocked pk r' now' os1 dir = (Inr (cert', fp), os2)
     \<and> tlsCertFingerprint pk cert' = Inr fp \<and> \<not> certNeedsRotation pk now' cert'"
proof -
  have rd: "os_readErr os (key_path dir) = None" using assms(5) by (simp add: disk_ok_def)
  note first = identity_result [OF assms(1,2,3) rd]
  from first(1) obtain key where key: "loadIdentityKey pk os1 (key_path dir) = Inr key"
      "PublicKeyFingerprint pk (PublicKey key) = Inr fp" by blast
  obtain new where "generateCertWithKey r' now' key = Inr new" using assms(6) [OF key(1)] by blast
  then obtain cert' os2 where second: "loadOrGenerateIdentityLocked pk r' now' os1 dir = (Inr (cert', fp), os2)"
    using identity_progress [OF key first(5) [OF assms(5)]] by blast
  have "os_readErr os1 (key_path dir) = None" using first(4) rd by simp
  from identity_result(2,3) [OF second assms(2,4) this] second show ?thesis by blast
qed

text \<open>Concrete packages for examples: a key is its number, a certificate its dates and its key.\<close>

definition demo_pkgs :: crypto_pkgs where
  "demo_pkgs = \<lparr>sha256 = id, MarshalPKIXPublicKey = (\<lambda>_. Inr [1, 2, 3]),
     MarshalECPrivateKey = (\<lambda>k. if key_D k = 7 \<and> key_X k = 7 \<and> key_Y k = 7 then Inr [7] else Inl (Errorf ''key'')),
     ParseECPrivateKey = (\<lambda>_. Inr \<lparr>key_D = 7, key_X = 7, key_Y = 7\<rparr>),
     ParsePKCS8PrivateKey = (\<lambda>_. Inl (Errorf ''pkcs8'')),
     ParseCertificate = (\<lambda>b. if b = [7] then Inr \<lparr>crt_NotAfter = 365 * 24 * hour, crt_PublicKey = EcdsaPub 7 7\<rparr>
                             else Inl (Errorf ''parse'')),
     pem_Decode = (\<lambda>s. let n = length (takeWhile (\<lambda>c. c = CHR ''|'') s); rest = drop (n + 1) s in
                       Some (take n rest, bytes_of_string (drop n rest))),
     pem_Encode = (\<lambda>(t, b). replicate (length t) CHR ''|'' @ ''.'' @ t @ string_of_bytes b),
     X509KeyPair = (\<lambda>_ _. Inl (Errorf ''pair''))\<rparr>"

definition demo_rand :: rand_source where
  "demo_rand = \<lparr>GenerateKey = Inr \<lparr>key_D = 7, key_X = 7, key_Y = 7\<rparr>, rand_Int = Inr 1,
     CreateCertificate = (\<lambda>t k. if k = \<lparr>key_D = 7, key_X = 7, key_Y = 7\<rparr> \<and> tmpl_NotAfter t \<le> 365 * 24 * hour
                                then Inr [7] else Inl (Errorf ''create''))\<rparr>"

definition fresh_os :: os_env where
  "fresh_os = \<lparr>env_HOME = ''/root'', env_TUNNEL_CONFIG = '''', os_files = Map.empty, os_readErr = Map.empty,
     os_mkdirErr = Map.empty, os_createErr = Map.empty, os_writeErr = Map.empty\<rparr>"

lemma demo_pkgs_ok: "pkgs_ok demo_pkgs"
proof -
  have "takeWhile (\<lambda>c. c = CHR ''|'') (replicate n CHR ''|'' @ CHR ''.'' # s) = replicate n CHR ''|''" for n s
    by (induction n) auto
  then show ?thesis by (auto simp: pkgs_ok_def demo_pkgs_def)
qed

lemma demo_rand_ok: "rand_ok demo_pkgs demo_rand"
  by (auto simp: rand_ok_def demo_pkgs_def demo_rand_def)

lemma fresh_disk_ok: "disk_ok fresh_os dir"
  by (simp add: disk_ok_def fresh_os_def)

lemma demo_first_call:
  "\<exists>cert. loadOrGenerateIdentityLocked demo_pkgs demo_rand 0 fresh_os ''/id''
     = (Inr (cert, ''SHA256:AQID''), snd (loadOrGenerateIdentityLocked demo_pkgs demo_rand 0 fresh_os ''/id''))"
  by (simp add: loadOrGenerateIdentityLocked_def identity_key_def loadIdentityKey_def ReadFile_def fresh_os_def
      demo_rand_def demo_pkgs_def saveIdentityKey_def WriteFile_def tryLoadCert_def LoadX509KeyPair_def
      generateCertWithKey_def saveIdentityCert_def PublicKeyFingerprint_def b64_char_def filepath_Join_def
      enumerate_Suc_eq hour_def)

text \<open>
  An error sticks. When the first request for the identity of a directory fails,
  every later request in the same process returns the same error and does not
  look at the disk again, whatever has been repaired since.
\<close>

theorem identity_error_sticks:
  assumes "dir \<noteq> ''''" and "LoadOrGenerateIdentity pk r now cache os dir = (Inl e, cache', os')"
  shows "LoadOrGenerateIdentity pk r' now' cache' os2 dir = (Inl e, cache', os2)"
  using assms
  by (auto simp: LoadOrGenerateIdentity_def cache_usable_def Let_def split: option.splits prod.splits if_splits sum.splits)

theorem identity_error_sticks_witness:
  "fst (LoadOrGenerateIdentity demo_pkgs demo_rand 1
      (fst (snd (LoadOrGenerateIdentity demo_pkgs demo_rand 0 Map.empty
         (fresh_os\<lparr>os_mkdirErr := (\<lambda>_. Some (SysError ''disk full''))\<rparr>) ''/id''))) fresh_os ''/id'')
   = Inl (Wrap ''identity mkdir'' (SysError ''disk full''))"
proof -
  let ?os = "fresh_os\<lparr>os_mkdirErr := (\<lambda>_. Some (SysError ''disk full''))\<rparr>"
  let ?r = "LoadOrGenerateIdentity demo_pkgs demo_rand 0 Map.empty ?os ''/id''"
  have "fst ?r = Inl (Wrap ''identity mkdir'' (SysError ''disk full''))"
    by (simp add: LoadOrGenerateIdentity_def loadOrGenerateIdentityLocked_def)
  then have "?r = (Inl (Wrap ''identity mkdir'' (SysError ''disk full'')), fst (snd ?r), snd (snd ?r))"
    by (simp add: prod_eq_iff)
  from identity_error_sticks [OF _ this, of demo_rand 1 fresh_os] show ?thesis by simp
qed

end
