(* ===== verification/Known_Hosts.thy ===== *)
theory Known_Hosts
  imports Identity "HOL-Library.Multiset"
begin

text \<open>
  Server identities: the file of known fingerprints (\<^verbatim>\<open>relay/knownhosts.go\<close>), the
  TLS configuration of a tunnel and the checks a client makes after a TLS handshake
  (\<^verbatim>\<open>relay/tls.go\<close>): a pinned fingerprint, or trust on first use. The order in
  which Go enumerates a map is a parameter. The file is read by \<^verbatim>\<open>bufio.Scanner\<close>;
  white space is that of ASCII.
\<close>

section \<open>Reading lines and fields\<close>

fun scan_raw :: "string \<Rightarrow> string \<Rightarrow> string list" where
  "scan_raw [] cur = (if cur = [] then [] else [rev cur])"
| "scan_raw (c # s) cur = (if c = CHR 0x0A then rev cur # scan_raw s [] else scan_raw s (c # cur))"

definition dropCR :: "string \<Rightarrow> string" where
  "dropCR l = (if l \<noteq> [] \<and> last l = CHR 0x0D then butlast l else l)"

definition is_space :: "char \<Rightarrow> bool" where
  "is_space c \<longleftrightarrow> c \<in> {CHR 0x20, CHR 0x09, CHR 0x0A, CHR 0x0B, CHR 0x0C, CHR 0x0D}"

definition TrimSpace :: "string \<Rightarrow> string" where
  "TrimSpace s = rev (dropWhile is_space (rev (dropWhile is_space s)))"

fun fields_from :: "string \<Rightarrow> string \<Rightarrow> string list" where
  "fields_from [] cur = (if cur = [] then [] else [rev cur])"
| "fields_from (c # s) cur =
     (if is_space c then (if cur = [] then fields_from s [] else rev cur # fields_from s [])
      else fields_from s (c # cur))"

definition Fields :: "string \<Rightarrow> string list" where
  "Fields s = fields_from s []"

definition HasPrefix :: "string \<Rightarrow> string \<Rightarrow> bool" where
  "HasPrefix s p \<longleftrightarrow> take (length p) s = p"

text \<open>A line of 64 KiB or more ends the scan with an error.\<close>

definition MaxScanTokenSize :: nat where "MaxScanTokenSize = 64 * 1024"


section \<open>The store\<close>

record KnownHosts =
  kh_path :: string
  kh_entries :: "(string \<times> string) list"

definition load_line :: "(string \<times> string) list \<Rightarrow> string \<Rightarrow> (string \<times> string) list" where
  "load_line entries rawline =
     (let line = TrimSpace rawline in
      if line = '''' \<or> HasPrefix line ''#'' then entries
      else
        let fields = Fields line in
        if length fields < 2 then entries
        else if \<not> HasPrefix (fields ! 1) ''SHA256:'' then entries
        else AList.update (fields ! 0) (fields ! 1) entries)"

definition LoadKnownHosts :: "os_env \<Rightarrow> string \<Rightarrow> KnownHosts res" where
  "LoadKnownHosts os path =
     (case os_readErr os path of
        Some e \<Rightarrow> Inl (Wrap ''open known_hosts'' e)
      | None \<Rightarrow>
          (case os_files os path of
             None \<Rightarrow> Inr \<lparr>kh_path = path, kh_entries = []\<rparr>
           | Some data \<Rightarrow>
               let raw = scan_raw data [] in
               if \<exists>l\<in>set raw. length l \<ge> MaxScanTokenSize
               then Inl (Errorf ''bufio.Scanner: token too long'')
               else Inr \<lparr>kh_path = path, kh_entries = foldl load_line [] (map dropCR raw)\<rparr>))"

definition ErrUnknownHost :: error where
  "ErrUnknownHost = Errorf ''unknown host''"

definition mismatch :: "string \<Rightarrow> string \<Rightarrow> string \<Rightarrow> error" where
  "mismatch host recorded fp =
     Errorf (''host '' @ quote host @ '' fingerprint mismatch: expected '' @ recorded @ '', got '' @ fp)"

definition kh_Verify :: "KnownHosts \<Rightarrow> string \<Rightarrow> string \<Rightarrow> error option" where
  "kh_Verify kh host fp =
     (case map_of (kh_entries kh) host of
        None \<Rightarrow> Some (WrapAfter ErrUnknownHost (quote host))
      | Some recorded \<Rightarrow> if recorded \<noteq> fp then Some (mismatch host recorded fp) else None)"

definition host_text :: "string \<times> string \<Rightarrow> string" where
  "host_text e = fst e @ '' '' @ snd e"

definition host_line :: "string \<times> string \<Rightarrow> string" where
  "host_line e = host_text e @ [CHR 0x0A]"

text \<open>\<open>ord\<close> is the order in which this enumeration of the map visits its entries.\<close>

definition saveLocked ::
  "((string \<times> string) list \<Rightarrow> (string \<times> string) list) \<Rightarrow> os_env \<Rightarrow> KnownHosts \<Rightarrow> error option \<times> os_env" where
  "saveLocked ord os kh =
     (if kh_path kh = '''' then (Some (Errorf ''known_hosts path not set''), os)
      else case os_mkdirErr os (kh_path kh) of
        Some e \<Rightarrow> (Some (Wrap ''known_hosts mkdir'' e), os)
      | None \<Rightarrow>
          (case os_createErr os (kh_path kh) of
             Some e \<Rightarrow> (Some (Wrap ''create known_hosts'' e), os)
           | None \<Rightarrow> WriteFile os (kh_path kh) (concat (map host_line (ord (kh_entries kh))))))"

definition kh_Accept ::
  "((string \<times> string) list \<Rightarrow> (string \<times> string) list) \<Rightarrow> os_env \<Rightarrow> KnownHosts \<Rightarrow> string \<Rightarrow> string
     \<Rightarrow> error option \<times> KnownHosts \<times> os_env" where
  "kh_Accept ord os kh host fp =
     (let add = (let kh1 = kh\<lparr>kh_entries := AList.update host fp (kh_entries kh)\<rparr> in
                 case saveLocked ord os kh1 of (e, os1) \<Rightarrow> (e, kh1, os1)) in
      case map_of (kh_entries kh) host of
        Some recorded \<Rightarrow> if recorded \<noteq> fp then (Some (mismatch host recorded fp), kh, os) else add
      | None \<Rightarrow> add)"


section \<open>Verification of the server (tls.go)\<close>

text \<open>
  \<^verbatim>\<open>TLSConfig\<close> without its pointer to the store of known hosts, which is shared state
  and passed beside it (\<open>kh = None\<close> is a nil pointer). \<open>def_dir\<close> is
  \<^verbatim>\<open>DefaultIdentityDir\<close>.
\<close>

record TLSConfig =
  tls_Enabled :: bool
  tls_Cert :: tls_Certificate
  tls_Insecure :: bool
  tls_CertFile :: string
  tls_KeyFile :: string
  tls_Fingerprint :: string
  tls_TrustOnFirstUse :: bool
  tls_ServerFingerprint :: string

definition NewTLSConfig :: "bool \<Rightarrow> TLSConfig" where
  "NewTLSConfig insecure = \<lparr>tls_Enabled = True, tls_Cert = zero_Certificate, tls_Insecure = insecure,
     tls_CertFile = '''', tls_KeyFile = '''', tls_Fingerprint = '''', tls_TrustOnFirstUse = False,
     tls_ServerFingerprint = ''''\<rparr>"

definition SetupTLS ::
  "crypto_pkgs \<Rightarrow> rand_source \<Rightarrow> int \<Rightarrow> identityCache \<Rightarrow> os_env \<Rightarrow> string \<Rightarrow> string \<Rightarrow> string \<Rightarrow> bool
     \<Rightarrow> TLSConfig res \<times> identityCache \<times> os_env" where
  "SetupTLS pk r now cache os def_dir certFile keyFile verify =
     (let config = (\<lambda>cert fp. (NewTLSConfig (\<not> verify))\<lparr>tls_Cert := cert, tls_Fingerprint := fp\<rparr>) in
      if certFile \<noteq> '''' \<and> keyFile \<noteq> '''' then
        ((case LoadX509KeyPair pk os certFile keyFile of
            Inl e \<Rightarrow> Inl (Wrap ''tls cert'' e)
          | Inr cert \<Rightarrow>
              (case tlsCertFingerprint pk cert of
                 Inl e \<Rightarrow> Inl (Wrap ''tls fingerprint'' e)
               | Inr fp \<Rightarrow> Inr (config cert fp))), cache, os)
      else
        (case LoadOrGenerateIdentity pk r now cache os def_dir of
           (Inl e, cache1, os1) \<Rightarrow> (Inl (Wrap ''tls identity'' e), cache1, os1)
         | (Inr (cert, fp), cache1, os1) \<Rightarrow> (Inr (config cert fp), cache1, os1)))"

definition SetupTLSCert ::
  "crypto_pkgs \<Rightarrow> rand_source \<Rightarrow> int \<Rightarrow> identityCache \<Rightarrow> os_env \<Rightarrow> string \<Rightarrow> string \<Rightarrow> string
     \<Rightarrow> identity \<times> identityCache \<times> os_env" where
  "SetupTLSCert pk r now cache os def_dir certFile keyFile =
     (if certFile \<noteq> '''' \<and> keyFile \<noteq> '''' then
        ((case LoadX509KeyPair pk os certFile keyFile of
            Inl e \<Rightarrow> Inl e
          | Inr cert \<Rightarrow>
              (case tlsCertFingerprint pk cert of Inl e \<Rightarrow> Inl e | Inr fp \<Rightarrow> Inr (cert, fp))), cache, os)
      else LoadOrGenerateIdentity pk r now cache os def_dir)"

text \<open>\<^verbatim>\<open>TLSListener\<close>: \<open>listen\<close> is what \<^verbatim>\<open>tls.Listen\<close> answers for an address and a certificate.\<close>

definition TLSListener :: "(string \<Rightarrow> tls_Certificate \<Rightarrow> 'l res) \<Rightarrow> string \<Rightarrow> TLSConfig \<Rightarrow> 'l res" where
  "TLSListener listen addr cfg =
     (case listen addr (tls_Cert cfg) of Inl e \<Rightarrow> Inl (Wrap ''tls listen'' e) | Inr l \<Rightarrow> Inr l)"

text \<open>
  The check of a connection. \<open>peer\<close> is the fingerprint of the leaf certificate,
  \<open>None\<close> when the server presented none. The store is returned with the verdict.
\<close>

definition verifyServerFingerprint ::
  "((string \<times> string) list \<Rightarrow> (string \<times> string) list) \<Rightarrow> os_env \<Rightarrow> string \<Rightarrow> string option \<Rightarrow> TLSConfig
     \<Rightarrow> KnownHosts option \<Rightarrow> error option \<times> KnownHosts option \<times> os_env" where
  "verifyServerFingerprint ord os addr peer cfg kh =
     (case peer of
        None \<Rightarrow> (Some (Errorf ''tls: server presented no certificate''), kh, os)
      | Some fp \<Rightarrow>
          let host = (case SplitHostPort addr of Inl _ \<Rightarrow> addr | Inr (h, _) \<Rightarrow> h) in
          if tls_ServerFingerprint cfg \<noteq> '''' then
            (if fp \<noteq> tls_ServerFingerprint cfg
             then (Some (Errorf (''tls: server '' @ host @ '' fingerprint mismatch: expected ''
                      @ tls_ServerFingerprint cfg @ '', got '' @ fp)), kh, os)
             else (None, kh, os))
          else case kh of
            None \<Rightarrow> (Some (Errorf ''tls: trust-on-first-use requested but no known_hosts store configured''), kh, os)
          | Some k \<Rightarrow>
              (case kh_Verify k addr fp of
                 None \<Rightarrow> (None, kh, os)
               | Some err \<Rightarrow>
                   if errors_Is err ErrUnknownHost then
                     (case kh_Accept ord os k addr fp of
                        (Some aerr, k1, os1) \<Rightarrow>
                          (Some (Wrap ''tls: trust-on-first-use failed'' aerr), Some k1, os1)
                      | (None, k1, os1) \<Rightarrow> (None, Some k1, os1))
                   else (Some (Wrap ''tls'' err), kh, os)))"

text \<open>
  \<^verbatim>\<open>TLSDial\<close>: \<open>dial\<close> is what \<^verbatim>\<open>tls.Dial\<close> answers when told whether to skip the
  verification against the trusted authorities; a connection comes with the
  fingerprint its server presented. A connection that is refused is closed.
\<close>

definition TLSDial ::
  "((string \<times> string) list \<Rightarrow> (string \<times> string) list) \<Rightarrow> os_env \<Rightarrow> (bool \<Rightarrow> ('c \<times> string option) res)
     \<Rightarrow> string \<Rightarrow> TLSConfig \<Rightarrow> KnownHosts option \<Rightarrow> 'c res \<times> KnownHosts option \<times> os_env" where
  "TLSDial ord os dial addr cfg kh =
     (let manualVerify = tls_TrustOnFirstUse cfg \<or> tls_ServerFingerprint cfg \<noteq> '''' in
      case dial (tls_Insecure cfg \<or> manualVerify) of
        Inl err \<Rightarrow> (Inl (Wrap ''tls dial'' err), kh, os)
      | Inr (c, peer) \<Rightarrow>
          if manualVerify then
            (case verifyServerFingerprint ord os addr peer cfg kh of
               (Some err, kh1, os1) \<Rightarrow> (Inl err, kh1, os1)
             | (None, kh1, os1) \<Rightarrow> (Inr c, kh1, os1))
          else (Inr c, kh, os))"

section \<open>Trust on first use\<close>

text \<open>
  What a store of trusted identities promises its clients: an identity that was
  admitted is recorded, and a recorded identity never changes. A different identity
  is then never admitted, whatever happened in between.
\<close>

locale trust_store =
  fixes lookup :: "'s \<Rightarrow> 'h \<Rightarrow> 'f option"
    and admit :: "'o \<Rightarrow> 's \<Rightarrow> 'h \<Rightarrow> 'f \<Rightarrow> bool \<times> 's"
  assumes admit_records: "fst (admit d s h f) \<Longrightarrow> lookup (snd (admit d s h f)) h = Some f"
    and admit_keeps: "lookup s k = Some g \<Longrightarrow> lookup (snd (admit d s h f)) k = Some g"
    and admit_known: "lookup s h = Some f \<Longrightarrow> fst (admit d s h f)"
begin

abbreviation contacts :: "'s \<Rightarrow> ('o \<times> 'h \<times> 'f) list \<Rightarrow> 's" where
  "contacts \<equiv> foldl (\<lambda>s (d, h, f). snd (admit d s h f))"

lemma contacts_keep: "lookup s k = Some g \<Longrightarrow> lookup (contacts s es) k = Some g"
  by (induction es arbitrary: s) (auto simp: admit_keeps)

lemma pinned:
  assumes "lookup s h = Some g"
  shows "fst (admit d (contacts s es) h f) \<longleftrightarrow> f = g"
  using contacts_keep [OF assms, of es] admit_records [of d "contacts s es" h f]
    admit_keeps [of "contacts s es" h g d h f] admit_known [of "contacts s es" h g d] by auto

lemma first_use_pins:
  assumes "fst (admit d s h g)"
  shows "fst (admit d' (contacts (snd (admit d s h g)) es) h f) \<longleftrightarrow> f = g"
  by (rule pinned) (rule admit_records [OF assms])

end

text \<open>The code's side: the check of a client that trusts on first use.\<close>

definition tofu_cfg :: TLSConfig where
  "tofu_cfg = (NewTLSConfig True)\<lparr>tls_TrustOnFirstUse := True\<rparr>"

definition tofu_check ::
  "((string \<times> string) list \<Rightarrow> (string \<times> string) list) \<Rightarrow> KnownHosts \<times> os_env \<Rightarrow> string \<Rightarrow> string
     \<Rightarrow> bool \<times> KnownHosts \<times> os_env" where
  "tofu_check ord s addr fp =
     (case verifyServerFingerprint ord (snd s) addr (Some fp) tofu_cfg (Some (fst s)) of
        (e, Some k, os) \<Rightarrow> (e = None, k, os)
      | (e, None, os) \<Rightarrow> (e = None, fst s, os))"

definition trusted :: "KnownHosts \<times> os_env \<Rightarrow> string \<Rightarrow> string option" where
  "trusted s host = map_of (kh_entries (fst s)) host"

lemma tofu_check_cases:
  "tofu_check ord (k, os) addr fp =
     (case map_of (kh_entries k) addr of
        Some g \<Rightarrow> (fp = g, k, os)
      | None \<Rightarrow> (let k1 = k\<lparr>kh_entries := AList.update addr fp (kh_entries k)\<rparr> in
                 (fst (saveLocked ord os k1) = None, k1, snd (saveLocked ord os k1))))"
  by (auto simp: tofu_check_def verifyServerFingerprint_def kh_Verify_def kh_Accept_def tofu_cfg_def mismatch_def
      NewTLSConfig_def ErrUnknownHost_def Let_def split: option.splits prod.splits sum.splits)

interpretation tofu: trust_store trusted tofu_check
proof
  fix ord and s :: "KnownHosts \<times> os_env" and h f k g
  obtain kh os where s: "s = (kh, os)" by fastforce
  show "fst (tofu_check ord s h f) \<Longrightarrow> trusted (snd (tofu_check ord s h f)) h = Some f"
    by (auto simp: s tofu_check_cases trusted_def Let_def update_conv' split: option.splits)
  show "trusted s k = Some g \<Longrightarrow> trusted (snd (tofu_check ord s h f)) k = Some g"
    by (auto simp: s tofu_check_cases trusted_def Let_def update_conv' split: option.splits)
  show "trusted s h = Some f \<Longrightarrow> fst (tofu_check ord s h f)"
    by (auto simp: s tofu_check_cases trusted_def split: option.splits)
qed


section \<open>The file holds what the store holds\<close>

definition entry_ok :: "string \<times> string \<Rightarrow> bool" where
  "entry_ok e \<longleftrightarrow> fst e \<noteq> '''' \<and> hd (fst e) \<noteq> CHR ''#'' \<and> (\<forall>c\<in>set (fst e). \<not> is_space c)
     \<and> HasPrefix (snd e) ''SHA256:'' \<and> (\<forall>c\<in>set (snd e). \<not> is_space c)
     \<and> length (fst e) + length (snd e) + 1 < MaxScanTokenSize"

lemma scan_raw_line:
  "\<forall>c\<in>set l. c \<noteq> CHR 0x0A \<Longrightarrow> scan_raw (l @ CHR 0x0A # s) cur = (rev cur @ l) # scan_raw s []"
  by (induction l arbitrary: cur) auto

lemma entry_line:
  assumes "entry_ok e"
  defines "l \<equiv> host_text e"
  shows "\<forall>c\<in>set l. c \<noteq> CHR 0x0A" and "dropCR l = l" and "TrimSpace l = l" and "length l < MaxScanTokenSize"
    and "Fields l = [fst e, snd e]" and "\<not> HasPrefix l ''#''"
proof -
  have h: "fst e \<noteq> []" "hd (fst e) \<noteq> CHR ''#''" "\<forall>c\<in>set (fst e). \<not> is_space c"
    and f: "snd e \<noteq> []" "\<forall>c\<in>set (snd e). \<not> is_space c"
    using assms(1) by (auto simp: entry_ok_def HasPrefix_def)
  have last: "\<not> is_space (last l)" using f by (simp add: l_def host_text_def)
  have first: "\<not> is_space (hd l)" using h by (simp add: l_def host_text_def)
  show "\<forall>c\<in>set l. c \<noteq> CHR 0x0A" using h(3) f(2) by (auto simp: l_def host_text_def is_space_def)
  show "dropCR l = l" using last by (auto simp: dropCR_def is_space_def)
  have "l \<noteq> []" by (simp add: l_def host_text_def)
  then have "dropWhile is_space l = l" "dropWhile is_space (rev l) = rev l"
    using first last by (simp_all add: dropWhile_eq_self_iff hd_rev)
  then show "TrimSpace l = l" by (simp add: TrimSpace_def)
  show "length l < MaxScanTokenSize" using assms(1) by (simp add: l_def host_text_def entry_ok_def)
  have run: "fields_from (w @ s) cur = fields_from s (rev w @ cur)" if "\<forall>c\<in>set w. \<not> is_space c" for w s cur
    using that by (induction w arbitrary: cur) auto
  have sp: "is_space CHR '' ''" by (simp add: is_space_def)
  show "Fields l = [fst e, snd e]"
    using run [OF h(3), of "'' '' @ snd e" "[]"] run [OF f(2), of "[]" "[]"] h(1) f(1) sp
    by (simp add: Fields_def l_def host_text_def)
  show "\<not> HasPrefix l ''#''" using h by (cases "fst e") (auto simp: l_def host_text_def HasPrefix_def)
qed

lemma load_line_entry:
  "entry_ok e \<Longrightarrow> load_line es (host_text e) = AList.update (fst e) (snd e) es"
  using entry_line(3,5,6) [of e]
  by (simp add: load_line_def entry_ok_def) (simp add: host_text_def)

lemma scan_host_lines:
  "list_all entry_ok es \<Longrightarrow> scan_raw (concat (map host_line es)) [] = map host_text es"
proof (induction es)
  case (Cons e es)
  then have "scan_raw ((host_text e) @ CHR 0x0A # concat (map host_line es)) []
      = (rev [] @ host_text e) # scan_raw (concat (map host_line es)) []"
    by (intro scan_raw_line entry_line(1)) simp
  with Cons show ?case by (simp add: host_line_def [of e])
qed simp

lemma load_entries:
  "list_all entry_ok es \<Longrightarrow> distinct (map fst es) \<Longrightarrow> distinct (map fst acc) \<Longrightarrow>
     map_of (foldl load_line acc (map host_text es)) = map_of acc ++ map_of es
     \<and> distinct (map fst (foldl load_line acc (map host_text es)))"
proof (induction es arbitrary: acc)
  case (Cons e es)
  have "map_of (AList.update (fst e) (snd e) acc) ++ map_of es = (map_of acc ++ map_of es)(fst e \<mapsto> snd e)"
    unfolding update_conv' using Cons.prems(2) by (intro map_add_upd_left) (simp add: dom_map_of_conv_image_fst)
  then have "map_of (AList.update (fst e) (snd e) acc) ++ map_of es = map_of acc ++ map_of (e # es)"
    by (cases e) simp
  moreover have "distinct (map fst (AList.update (fst e) (snd e) acc))"
    using Cons.prems(3) by (rule distinct_update)
  ultimately show ?case
    using Cons.IH [of "AList.update (fst e) (snd e) acc"] Cons.prems(1,2) load_line_entry [of e acc]
    by (metis foldl_Cons list.map(2) list.pred_inject(2) distinct.simps(2))
qed simp

lemma LoadKnownHosts_saved:
  assumes "list_all entry_ok es" and "distinct (map fst es)" and "os_readErr os path = None"
    and "os_files os path = Some (concat (map host_line es))"
  shows "\<exists>k. LoadKnownHosts os path = Inr k \<and> kh_path k = path \<and> map_of (kh_entries k) = map_of es"
proof -
  let ?ls = "map host_text es"
  have raw: "scan_raw (concat (map host_line es)) [] = ?ls" by (rule scan_host_lines [OF assms(1)])
  have ok: "\<forall>l\<in>set ?ls. length l < MaxScanTokenSize \<and> dropCR l = l"
    using assms(1) entry_line(2,4) by (auto simp: list_all_iff)
  have "map dropCR ?ls = ?ls" by (rule map_idI) (use ok in blast)
  moreover have "\<not> (\<exists>l\<in>set ?ls. length l \<ge> MaxScanTokenSize)" using ok by fastforce
  moreover have "map_of (foldl load_line [] ?ls) = map_of es"
    using load_entries [OF assms(1,2), of "[]"] by simp
  ultimately show ?thesis
    using assms(3,4) raw by (simp add: LoadKnownHosts_def Let_def del: map_map)
qed

lemma mset_ord:
  assumes "mset ys = mset xs" and "list_all P xs" and "distinct (map fst xs)"
  shows "list_all P ys" and "distinct (map fst ys)" and "map_of ys = map_of xs"
proof -
  have "set ys = set xs" using assms(1) by (metis set_mset_mset)
  then show "list_all P ys" using assms(2) by (simp add: list_all_iff)
  have "mset (map fst ys) = mset (map fst xs)" using assms(1) by simp
  then show d: "distinct (map fst ys)" using assms(3) mset_eq_imp_distinct_iff by blast
  show "map_of ys = map_of xs"
    by (rule map_of_inject_set [THEN iffD2]) (use d assms(3) \<open>set ys = set xs\<close> in auto)
qed

lemma entries_update:
  assumes "list_all entry_ok es" and "distinct (map fst es)" and "entry_ok (h, f)"
  shows "list_all entry_ok (AList.update h f es)" and "distinct (map fst (AList.update h f es))"
proof -
  show "distinct (map fst (AList.update h f es))" using assms(2) by (rule distinct_update)
  show "list_all entry_ok (AList.update h f es)"
    using assms(1,3) by (induction es) auto
qed

lemma save_load:
  assumes "list_all entry_ok (kh_entries k)" and "distinct (map fst (kh_entries k))"
    and "mset (ord (kh_entries k)) = mset (kh_entries k)"
    and "os_readErr os (kh_path k) = None" and "saveLocked ord os k = (None, os1)"
  shows "\<exists>k2. LoadKnownHosts os1 (kh_path k) = Inr k2 \<and> map_of (kh_entries k2) = map_of (kh_entries k)"
proof -
  have os1: "os1 = os\<lparr>os_files := (os_files os)(kh_path k \<mapsto> concat (map host_line (ord (kh_entries k))))\<rparr>"
    using assms(5) by (auto simp: saveLocked_def WriteFile_def split: if_splits option.splits)
  have "\<exists>k2. LoadKnownHosts os1 (kh_path k) = Inr k2 \<and> kh_path k2 = kh_path k
      \<and> map_of (kh_entries k2) = map_of (ord (kh_entries k))"
    by (rule LoadKnownHosts_saved) (use mset_ord [OF assms(3,1,2)] assms(4) in \<open>simp_all add: os1\<close>)
  then show ?thesis using mset_ord(3) [OF assms(3,1,2)] by auto
qed


section \<open>The properties\<close>

text \<open>
  C7: Trust on first use pins: once a fingerprint \<open>g\<close> is recorded for an address, a
  connection to that address passes the check if and only if the server presents
  \<open>g\<close>, whatever servers were contacted since, in whatever order the store was
  written, and whether or not the writes succeeded.
\<close>

theorem tofu_pins:
  assumes "map_of (kh_entries k) addr = Some g"
  shows "fst (tofu_check ord (foldl (\<lambda>s (d, h, f). snd (tofu_check d s h f)) (k, os) es) addr f) \<longleftrightarrow> f = g"
  using assms by (intro tofu.pinned) (simp add: trusted_def)

definition demo_hosts :: KnownHosts where
  "demo_hosts = \<lparr>kh_path = ''/kh'', kh_entries = [(''a:1'', ''SHA256:A'')]\<rparr>"

theorem tofu_pins_witness:
  "map_of (kh_entries demo_hosts) ''a:1'' = Some ''SHA256:A''
   \<and> \<not> fst (tofu_check id (foldl (\<lambda>s (d, h, f). snd (tofu_check d s h f)) (demo_hosts, fresh_os)
          [(rev, ''b:1'', ''SHA256:B''), (id, ''a:1'', ''SHA256:C'')]) ''a:1'' ''SHA256:C'')"
proof -
  have known: "map_of (kh_entries demo_hosts) ''a:1'' = Some ''SHA256:A''" by (simp add: demo_hosts_def)
  then show ?thesis
    using tofu_pins [OF known, of id fresh_os "[(rev, ''b:1'', ''SHA256:B''), (id, ''a:1'', ''SHA256:C'')]" "''SHA256:C''"]
    by simp
qed

text \<open>
  C34: The pin survives a restart: when the first contact with an address was accepted
  and recorded, the store read back from the file has the same fingerprint for every
  address, so the next process accepts that address only with the fingerprint
  first seen. Addresses and fingerprints hold no white space, an address does not
  begin with a hash sign, and the file is readable.
\<close>

theorem tofu_survives_restart:
  assumes "list_all entry_ok (kh_entries k)" and "distinct (map fst (kh_entries k))" and "entry_ok (addr, g)"
    and "\<And>xs. mset (ord xs) = mset xs" and "os_readErr os (kh_path k) = None"
    and "map_of (kh_entries k) addr = None" and "tofu_check ord (k, os) addr g = (True, k1, os1)"
  shows "\<exists>k2. LoadKnownHosts os1 (kh_path k) = Inr k2 \<and> map_of (kh_entries k2) = (map_of (kh_entries k))(addr \<mapsto> g)
           \<and> (\<forall>ord' os2 f. fst (tofu_check ord' (k2, os2) addr f) \<longleftrightarrow> f = g)"
proof -
  let ?k1 = "k\<lparr>kh_entries := AList.update addr g (kh_entries k)\<rparr>"
  have sv: "saveLocked ord os ?k1 = (None, os1)"
    using assms(6,7) by (cases "saveLocked ord os ?k1") (auto simp: tofu_check_cases Let_def)
  have "\<exists>k2. LoadKnownHosts os1 (kh_path ?k1) = Inr k2 \<and> map_of (kh_entries k2) = map_of (kh_entries ?k1)"
    by (rule save_load [OF _ _ _ _ sv]) (use entries_update [OF assms(1,2,3)] assms(4,5) in simp_all)
  then obtain k2 where k2: "LoadKnownHosts os1 (kh_path k) = Inr k2"
      "map_of (kh_entries k2) = (map_of (kh_entries k))(addr \<mapsto> g)"
    by (auto simp: update_conv')
  then have "fst (tofu_check ord' (k2, os2) addr f) \<longleftrightarrow> f = g" for ord' os2 f
    by (auto simp: tofu_check_cases)
  with k2 show ?thesis by blast
qed

theorem tofu_survives_restart_witness:
  "\<exists>k2. LoadKnownHosts (snd (snd (tofu_check rev (demo_hosts, fresh_os) ''b:2'' ''SHA256:B''))) ''/kh'' = Inr k2
     \<and> map_of (kh_entries k2) ''b:2'' = Some ''SHA256:B''"
proof -
  let ?r = "tofu_check rev (demo_hosts, fresh_os) ''b:2'' ''SHA256:B''"
  have ok: "list_all entry_ok (kh_entries demo_hosts)" "entry_ok (''b:2'', ''SHA256:B'')"
    by (simp_all add: demo_hosts_def entry_ok_def HasPrefix_def is_space_def MaxScanTokenSize_def)
  have d: "distinct (map fst (kh_entries demo_hosts))" "os_readErr fresh_os (kh_path demo_hosts) = None"
      "map_of (kh_entries demo_hosts) ''b:2'' = None" "kh_path demo_hosts = ''/kh''"
    by (simp_all add: demo_hosts_def fresh_os_def)
  have "fst ?r"
    by (simp add: demo_hosts_def fresh_os_def tofu_check_cases Let_def saveLocked_def WriteFile_def)
  then have r: "?r = (True, fst (snd ?r), snd (snd ?r))" by (cases ?r) auto
  show ?thesis
    using tofu_survives_restart [OF ok(1) d(1) ok(2) _ d(2,3) r] d(4) by fastforce
qed

text \<open>
  A client that was given the server's fingerprint gets a connection exactly when
  the server it reached presented a certificate with that fingerprint; the store
  of known hosts plays no part.
\<close>

theorem pinned_dial:
  assumes "tls_ServerFingerprint cfg \<noteq> ''''"
  shows "TLSDial ord os dial addr cfg kh = (Inr c, kh1, os1) \<longleftrightarrow>
     dial True = Inr (c, Some (tls_ServerFingerprint cfg)) \<and> kh1 = kh \<and> os1 = os"
  using assms
  by (auto simp: TLSDial_def Let_def verifyServerFingerprint_def split: sum.splits option.splits if_splits)

theorem pinned_dial_witness:
  "tls_ServerFingerprint (tofu_cfg\<lparr>tls_ServerFingerprint := ''SHA256:A''\<rparr>) \<noteq> ''''
   \<and> TLSDial id fresh_os (\<lambda>_. Inr (0, Some ''SHA256:A'')) ''a:1'' (tofu_cfg\<lparr>tls_ServerFingerprint := ''SHA256:A''\<rparr>) None
      = (Inr (0::nat), None, fresh_os)"
  using pinned_dial [of "tofu_cfg\<lparr>tls_ServerFingerprint := ''SHA256:A''\<rparr>" id fresh_os
      "\<lambda>_. Inr (0::nat, Some ''SHA256:A'')" "''a:1''" None 0 None fresh_os]
  by simp

text \<open>
  A first contact whose record could not be written is refused, but the entry stays in
  the store: the next contact with the same server passes although nothing is on disk.
\<close>

lemma unsaved_first_use:
  assumes "map_of (kh_entries k) addr = None"
    and "fst (saveLocked ord os (k\<lparr>kh_entries := AList.update addr g (kh_entries k)\<rparr>)) = Some e"
  shows "\<not> fst (tofu_check ord (k, os) addr g)"
    and "fst (tofu_check ord (snd (tofu_check ord (k, os) addr g)) addr g)"
  using assms by (simp_all add: tofu_check_cases Let_def update_conv')

end
