(* ===== verification/Tunnel_Manager.thy ===== *)
theory Tunnel_Manager
  imports Forward_Spec Log_Buffer Known_Hosts
begin

text \<open>
  The manager of the daemon (\<^verbatim>\<open>manager/manager.go\<close>): the table of running tunnels
  beside the configuration, every operation on them, and the control requests that
  reach them. Managed tunnels are objects the table points to and their goroutines
  keep using after the table has forgotten them, so they live in a store and are
  named by index. Every operation runs under \<^verbatim>\<open>m.mu\<close> and is one definition. A panic
  is the value \<open>None\<close>. Parameters: the YAML package (\<open>marshal\<close>, \<open>unmarshal\<close>), the
  JSON encoding of requests and answers, and \<^verbatim>\<open>time.ParseDuration\<close>.
\<close>

section \<open>State\<close>

record TunnelState =
  ts_Status :: string
  ts_Since :: "int option"
  ts_ReconnectCount :: int
  ts_LastErr :: string

definition zero_TunnelState :: TunnelState where
  "zero_TunnelState = \<lparr>ts_Status = '''', ts_Since = None, ts_ReconnectCount = 0, ts_LastErr = ''''\<rparr>"

definition ts_Set :: "string \<Rightarrow> string \<Rightarrow> int \<Rightarrow> TunnelState \<Rightarrow> TunnelState" where
  "ts_Set status err now ts =
     (let ts1 = (if ts_Status ts \<noteq> status then ts\<lparr>ts_Status := status, ts_Since := Some now\<rparr> else ts) in
      ts1\<lparr>ts_LastErr := err\<rparr>)"

definition SetReconnectCount :: "int \<Rightarrow> TunnelState \<Rightarrow> TunnelState" where
  "SetReconnectCount n ts = ts\<lparr>ts_ReconnectCount := n\<rparr>"

definition ts_Get :: "TunnelState \<Rightarrow> string \<times> int option \<times> int \<times> string" where
  "ts_Get ts = (ts_Status ts, ts_Since ts, ts_ReconnectCount ts, ts_LastErr ts)"

text \<open>The function a tunnel's goroutine runs, and the managed tunnel. \<open>mt_cancelled\<close> says
  that \<^verbatim>\<open>ctx\<close> is closed, \<open>mt_done\<close> that \<^verbatim>\<open>done\<close> is.\<close>

datatype runFn = RunChain | RunLocal | RunDynamic | RunRemoteClientMulti | RunRemoteClient | RunRemoteServer

record managedTunnel =
  mt_cfg :: TunnelConfig
  mt_run :: runFn
  mt_health :: "int option"
  mt_cancelled :: bool
  mt_done :: bool
  mt_lastErr :: "error option"
  mt_state :: TunnelState

record Manager =
  m_cfg :: Config
  m_cfgPath :: string
  m_tunnels :: "(string \<times> nat) list"
  m_mts :: "managedTunnel list"
  m_os :: os_env
  m_knownHosts :: "KnownHosts option"

text \<open>A store of known hosts that cannot be read is a nil pointer, \<open>None\<close>.\<close>

definition NewManager :: "Config \<Rightarrow> string \<Rightarrow> os_env \<Rightarrow> Manager" where
  "NewManager cfg cfgPath os =
     (let kh = LoadKnownHosts os (filepath_Join [DefaultConfigDir os, ''known_hosts'']) in
      \<lparr>m_cfg = cfg, m_cfgPath = cfgPath, m_tunnels = [], m_mts = [], m_os = os,
       m_knownHosts = (case kh of Inl _ \<Rightarrow> None | Inr k \<Rightarrow> Some k)\<rparr>)"

definition upd_mt :: "nat \<Rightarrow> (managedTunnel \<Rightarrow> managedTunnel) \<Rightarrow> Manager \<Rightarrow> Manager" where
  "upd_mt r f m = m\<lparr>m_mts := (m_mts m)[r := f (m_mts m ! r)]\<rparr>"


section \<open>Starting\<close>

definition select_runFn :: "TunnelConfig \<Rightarrow> runFn res" where
  "select_runFn tc =
     (if tc_Mode tc = ''local'' then
        (if length (tc_Hops tc) > 0 then Inr RunChain else Inr RunLocal)
      else if tc_Mode tc = ''dynamic'' then Inr RunDynamic
      else if tc_Mode tc = ''remote'' then
        (if tc_Server tc \<noteq> '''' then
           (if tc_Connections tc > 1 then Inr RunRemoteClientMulti else Inr RunRemoteClient)
         else Inr RunRemoteServer)
      else Inl (Errorf (''unknown mode '' @ quote (tc_Mode tc))))"

definition startOne :: "(string \<Rightarrow> int res) \<Rightarrow> TunnelConfig \<Rightarrow> Manager \<Rightarrow> error option \<times> Manager" where
  "startOne parseDuration tc m =
     (if map_of (m_tunnels m) (tc_Name tc) \<noteq> None then (None, m)
      else case select_runFn tc of
        Inl e \<Rightarrow> (Some e, m)
      | Inr run \<Rightarrow>
          let health = (if tc_HealthCheck tc \<noteq> ''''
                        then (case parseDuration (tc_HealthCheck tc) of Inl _ \<Rightarrow> None | Inr d \<Rightarrow> Some d)
                        else None);
              mt = \<lparr>mt_cfg = tc, mt_run = run, mt_health = health, mt_cancelled = False, mt_done = False,
                    mt_lastErr = None, mt_state = zero_TunnelState\<rparr> in
          (None, m\<lparr>m_mts := m_mts m @ [mt],
                   m_tunnels := AList.update (tc_Name tc) (length (m_mts m)) (m_tunnels m)\<rparr>))"

text \<open>The tunnel's goroutine: its first step, and its last with what the run function returned.\<close>

definition goroutine_begin :: "nat \<Rightarrow> int \<Rightarrow> Manager \<Rightarrow> Manager" where
  "goroutine_begin r now = upd_mt r (\<lambda>mt. mt\<lparr>mt_state := ts_Set ''starting'' '''' now (mt_state mt)\<rparr>)"

definition goroutine_end :: "nat \<Rightarrow> error option \<Rightarrow> int \<Rightarrow> Manager \<Rightarrow> Manager" where
  "goroutine_end r err now = upd_mt r (\<lambda>mt.
     (case err of
        Some e \<Rightarrow> mt\<lparr>mt_lastErr := Some e, mt_state := ts_Set ''error'' (err_text e) now (mt_state mt)\<rparr>
      | None \<Rightarrow> mt\<lparr>mt_state := ts_Set ''stopped'' '''' now (mt_state mt)\<rparr>)\<lparr>mt_done := True\<rparr>)"

fun start_loop :: "(string \<Rightarrow> int res) \<Rightarrow> (TunnelConfig \<Rightarrow> bool) \<Rightarrow> TunnelConfig list \<Rightarrow> Manager \<Rightarrow> Manager" where
  "start_loop pd want [] m = m"
| "start_loop pd want (tc # tcs) m =
     (if want tc then start_loop pd want tcs (snd (startOne pd tc m)) else start_loop pd want tcs m)"

definition startLocked :: "(string \<Rightarrow> int res) \<Rightarrow> Manager \<Rightarrow> Manager" where
  "startLocked pd m = start_loop pd tc_Autostart (Tunnels (m_cfg m)) m"

fun startGroup_loop :: "(string \<Rightarrow> int res) \<Rightarrow> string \<Rightarrow> TunnelConfig list \<Rightarrow> Manager \<Rightarrow> Manager" where
  "startGroup_loop pd grp [] m = m"
| "startGroup_loop pd grp (tc # tcs) m =
     (if tc_Group tc = grp \<and> map_of (m_tunnels m) (tc_Name tc) = None
      then startGroup_loop pd grp tcs (snd (startOne pd tc m))
      else startGroup_loop pd grp tcs m)"

definition StartGroup :: "(string \<Rightarrow> int res) \<Rightarrow> string \<Rightarrow> Manager \<Rightarrow> Manager" where
  "StartGroup pd grp m = startGroup_loop pd grp (Tunnels (m_cfg m)) m"


section \<open>Stopping\<close>

text \<open>
  \<^verbatim>\<open>cancel\<close> closes \<^verbatim>\<open>ctx\<close>; closing it a second time panics. The wait for the
  goroutine that follows a cancellation (at most five seconds) changes no state.
\<close>

definition cancel :: "nat \<Rightarrow> Manager \<Rightarrow> Manager option" where
  "cancel r m =
     (if mt_cancelled (m_mts m ! r) then None
      else Some (upd_mt r (\<lambda>mt. mt\<lparr>mt_cancelled := True\<rparr>) m))"

definition stopTunnelLocked :: "string \<Rightarrow> nat \<Rightarrow> Manager \<Rightarrow> Manager option" where
  "stopTunnelLocked name r m =
     map_option (\<lambda>m1. m1\<lparr>m_tunnels := AList.delete name (m_tunnels m1)\<rparr>) (cancel r m)"

fun stop_loop :: "(managedTunnel \<Rightarrow> bool) \<Rightarrow> (string \<times> nat) list \<Rightarrow> Manager \<Rightarrow> Manager option" where
  "stop_loop want [] m = Some m"
| "stop_loop want ((name, r) # es) m =
     (if want (m_mts m ! r)
      then Option.bind (stopTunnelLocked name r m) (stop_loop want es)
      else stop_loop want es m)"

definition stopLocked :: "Manager \<Rightarrow> Manager option" where
  "stopLocked m = stop_loop (\<lambda>_. True) (m_tunnels m) m"

definition StopGroup :: "string \<Rightarrow> Manager \<Rightarrow> Manager option" where
  "StopGroup grp m = stop_loop (\<lambda>mt. tc_Group (mt_cfg mt) = grp) (m_tunnels m) m"

text \<open>Stop the tunnel of that name if it is in the table.\<close>

definition stop_if_running :: "string \<Rightarrow> Manager \<Rightarrow> Manager option" where
  "stop_if_running name m =
     (case map_of (m_tunnels m) name of None \<Rightarrow> Some m | Some r \<Rightarrow> stopTunnelLocked name r m)"


section \<open>Queries\<close>

fun findConfig_from :: "int \<Rightarrow> string \<Rightarrow> TunnelConfig list \<Rightarrow> int" where
  "findConfig_from i name [] = -1"
| "findConfig_from i name (tc # tcs) = (if tc_Name tc = name then i else findConfig_from (i + 1) name tcs)"

definition findConfig :: "string \<Rightarrow> Manager \<Rightarrow> int" where
  "findConfig name m = findConfig_from 0 name (Tunnels (m_cfg m))"

record TunnelStatus =
  st_Name :: string
  st_Mode :: string
  st_Local :: string
  st_Remote :: string
  st_Status :: string
  st_Group :: string
  st_Error :: string
  st_Since :: "int option"
  st_ReconnectCount :: int

definition tunnelStatusLocked :: "Manager \<Rightarrow> TunnelConfig \<Rightarrow> TunnelStatus" where
  "tunnelStatusLocked m tc =
     (let st = \<lparr>st_Name = tc_Name tc, st_Mode = tc_Mode tc, st_Local = tc_Local tc, st_Remote = tc_Remote tc,
                st_Status = '''', st_Group = tc_Group tc, st_Error = '''', st_Since = None,
                st_ReconnectCount = 0\<rparr> in
      case map_of (m_tunnels m) (tc_Name tc) of
        Some r \<Rightarrow>
          (let (status, since, reconnect, lastErr) = ts_Get (mt_state (m_mts m ! r)) in
           st\<lparr>st_Status := (if status = '''' then ''running'' else status), st_Since := since,
              st_ReconnectCount := reconnect, st_Error := lastErr\<rparr>)
      | None \<Rightarrow> st\<lparr>st_Status := ''stopped''\<rparr>)"

definition mgr_List :: "Manager \<Rightarrow> TunnelStatus list" where
  "mgr_List m = map (tunnelStatusLocked m) (Tunnels (m_cfg m))"

definition not_found :: "string \<Rightarrow> error" where
  "not_found name = Errorf (''tunnel '' @ quote name @ '' not found'')"

definition mgr_Status :: "string \<Rightarrow> Manager \<Rightarrow> TunnelStatus res" where
  "mgr_Status name m =
     (if findConfig name m < 0 then Inl (not_found name)
      else Inr (tunnelStatusLocked m (Tunnels (m_cfg m) ! nat (findConfig name m))))"

definition mgr_Logs :: "LogBuffer \<Rightarrow> string \<Rightarrow> int \<Rightarrow> Manager \<Rightarrow> (string list) res option" where
  "mgr_Logs lb name limit m =
     (if name \<noteq> '''' \<and> findConfig name m < 0 then Some (Inl (not_found name))
      else map_option Inr (Lines lb name limit))"


section \<open>Changing the configuration\<close>

text \<open>\<^verbatim>\<open>SaveConfig(m.cfg, m.cfgPath)\<close> on the manager's environment.\<close>

definition save_cfg :: "(Config \<Rightarrow> string res) \<Rightarrow> Manager \<Rightarrow> error option \<times> Manager" where
  "save_cfg marshal m =
     (case SaveConfig marshal (m_os m) (m_cfg m) (m_cfgPath m) of (e, os) \<Rightarrow> (e, m\<lparr>m_os := os\<rparr>))"

definition set_tunnels :: "TunnelConfig list \<Rightarrow> Manager \<Rightarrow> Manager" where
  "set_tunnels ts m = m\<lparr>m_cfg := (m_cfg m)\<lparr>Tunnels := ts\<rparr>\<rparr>"

definition mgr_Add ::
  "(string \<Rightarrow> int res) \<Rightarrow> (Config \<Rightarrow> string res) \<Rightarrow> TunnelConfig \<Rightarrow> Manager \<Rightarrow> error option \<times> Manager" where
  "mgr_Add pd marshal tc m =
     (if findConfig (tc_Name tc) m \<ge> 0
      then (Some (Errorf (''tunnel '' @ quote (tc_Name tc) @ '' already exists'')), m)
      else
        case save_cfg marshal (set_tunnels (Tunnels (m_cfg m) @ [tc]) m) of
          (Some e, m1) \<Rightarrow> (Some (Wrap ''save config'' e), m1)
        | (None, m1) \<Rightarrow> if tc_Autostart tc then startOne pd tc m1 else (None, m1))"

definition mgr_Remove :: "(Config \<Rightarrow> string res) \<Rightarrow> string \<Rightarrow> Manager \<Rightarrow> (error option \<times> Manager) option" where
  "mgr_Remove marshal name m =
     (case stop_if_running name m of
        None \<Rightarrow> None
      | Some m1 \<Rightarrow>
          let idx = findConfig name m1; ts = Tunnels (m_cfg m1) in
          if idx < 0 then Some (Some (not_found name), m1)
          else Some (save_cfg marshal (set_tunnels (take (nat idx) ts @ drop (nat idx + 1) ts) m1)))"

definition mgr_Reload ::
  "(string \<Rightarrow> int res) \<Rightarrow> (string \<Rightarrow> Config res) \<Rightarrow> Manager \<Rightarrow> (error option \<times> Manager) option" where
  "mgr_Reload pd unmarshal m =
     (case LoadConfig unmarshal (m_os m) (m_cfgPath m) of
        Inl e \<Rightarrow> Some (Some (Wrap ''reload config'' e), m)
      | Inr newCfg \<Rightarrow>
          (case stopLocked m of
             None \<Rightarrow> None
           | Some m1 \<Rightarrow> Some (None, startLocked pd (m1\<lparr>m_cfg := newCfg\<rparr>))))"

definition set_autostart :: "bool \<Rightarrow> int \<Rightarrow> Manager \<Rightarrow> Manager" where
  "set_autostart b idx m =
     (let ts = Tunnels (m_cfg m) in set_tunnels (ts[nat idx := (ts ! nat idx)\<lparr>tc_Autostart := b\<rparr>]) m)"

definition mgr_Enable ::
  "(string \<Rightarrow> int res) \<Rightarrow> (Config \<Rightarrow> string res) \<Rightarrow> string \<Rightarrow> Manager \<Rightarrow> error option \<times> Manager" where
  "mgr_Enable pd marshal name m =
     (let idx = findConfig name m in
      if idx < 0 then (Some (not_found name), m)
      else
        case save_cfg marshal (set_autostart True idx m) of
          (Some e, m1) \<Rightarrow> (Some (Wrap ''save config'' e), m1)
        | (None, m1) \<Rightarrow>
            if map_of (m_tunnels m1) name = None
            then startOne pd (Tunnels (m_cfg m1) ! nat idx) m1
            else (None, m1))"

definition mgr_Disable :: "(Config \<Rightarrow> string res) \<Rightarrow> string \<Rightarrow> Manager \<Rightarrow> (error option \<times> Manager) option" where
  "mgr_Disable marshal name m =
     (let idx = findConfig name m in
      if idx < 0 then Some (Some (not_found name), m)
      else
        case save_cfg marshal (set_autostart False idx m) of
          (Some e, m1) \<Rightarrow> Some (Some (Wrap ''save config'' e), m1)
        | (None, m1) \<Rightarrow> map_option (\<lambda>m2. (None, m2)) (stop_if_running name m1))"

definition mgr_Restart :: "(string \<Rightarrow> int res) \<Rightarrow> string \<Rightarrow> Manager \<Rightarrow> (error option \<times> Manager) option" where
  "mgr_Restart pd name m =
     (let idx = findConfig name m in
      if idx < 0 then Some (Some (not_found name), m)
      else map_option (\<lambda>m1. startOne pd (Tunnels (m_cfg m1) ! nat idx) m1) (stop_if_running name m))"

section \<open>Control requests\<close>

record Request =
  req_Method :: string
  req_Params :: string
  req_ID :: u64

record Response =
  resp_Result :: string
  resp_Error :: string
  resp_ID :: u64

text \<open>The JSON encoding of the parameters and results, as the handler uses it.\<close>

record json_api =
  js_group :: "string \<Rightarrow> string res"
  js_name :: "string \<Rightarrow> string res"
  js_tunnel :: "string \<Rightarrow> TunnelConfig res"
  js_logs :: "string \<Rightarrow> (string \<times> int) res"
  js_list :: "TunnelStatus list \<Rightarrow> string res"
  js_status :: "TunnelStatus \<Rightarrow> string res"
  js_lines :: "string list \<Rightarrow> string res"

definition reply_ok :: "Request \<Rightarrow> string \<Rightarrow> Response" where
  "reply_ok req result = \<lparr>resp_Result = result, resp_Error = '''', resp_ID = req_ID req\<rparr>"

definition reply_err :: "Request \<Rightarrow> string \<Rightarrow> Response" where
  "reply_err req e = \<lparr>resp_Result = '''', resp_Error = e, resp_ID = req_ID req\<rparr>"

definition reply :: "Request \<Rightarrow> error option \<Rightarrow> Response" where
  "reply req e = (case e of None \<Rightarrow> reply_ok req ''null'' | Some e \<Rightarrow> reply_err req (err_text e))"

definition reply_data :: "Request \<Rightarrow> string res \<Rightarrow> Response" where
  "reply_data req d = (case d of Inl e \<Rightarrow> reply_err req (err_text e) | Inr s \<Rightarrow> reply_ok req s)"

text \<open>Decoding the parameters comes first in every case that has some.\<close>

definition with_params ::
  "Request \<Rightarrow> 'p res \<Rightarrow> ('p \<Rightarrow> (Response \<times> Manager) option) \<Rightarrow> Manager \<Rightarrow> (Response \<times> Manager) option" where
  "with_params req p k m =
     (case p of
        Inl e \<Rightarrow> Some (reply_err req (''invalid params: '' @ err_text e), m)
      | Inr x \<Rightarrow> k x)"

definition HandleControl ::
  "json_api \<Rightarrow> (string \<Rightarrow> int res) \<Rightarrow> (Config \<Rightarrow> string res) \<Rightarrow> (string \<Rightarrow> Config res) \<Rightarrow> LogBuffer \<Rightarrow>
     Request \<Rightarrow> Manager \<Rightarrow> (Response \<times> Manager) option" where
  "HandleControl js pd marshal unmarshal lb req m =
     (let answer = (\<lambda>(e, m'). (reply req e, m')); params = req_Params req; meth = req_Method req in
      if meth = ''list'' then Some (reply_data req (js_list js (mgr_List m)), m)
      else if meth = ''stop'' then map_option (\<lambda>m'. (reply req None, m')) (stopLocked m)
      else if meth = ''stop-group'' then
        with_params req (js_group js params) (\<lambda>g. map_option (\<lambda>m'. (reply req None, m')) (StopGroup g m)) m
      else if meth = ''start-group'' then
        with_params req (js_group js params) (\<lambda>g. Some (reply req None, StartGroup pd g m)) m
      else if meth = ''add'' then
        with_params req (js_tunnel js params) (\<lambda>tc. Some (answer (mgr_Add pd marshal tc m))) m
      else if meth = ''remove'' then
        with_params req (js_name js params) (\<lambda>n. map_option answer (mgr_Remove marshal n m)) m
      else if meth = ''enable'' then
        with_params req (js_name js params) (\<lambda>n. Some (answer (mgr_Enable pd marshal n m))) m
      else if meth = ''disable'' then
        with_params req (js_name js params) (\<lambda>n. map_option answer (mgr_Disable marshal n m)) m
      else if meth = ''restart'' then
        with_params req (js_name js params) (\<lambda>n. map_option answer (mgr_Restart pd n m)) m
      else if meth = ''save'' then Some (answer (save_cfg marshal m))
      else if meth = ''status'' then
        with_params req (js_name js params) (\<lambda>n.
          Some (case mgr_Status n m of
                  Inl e \<Rightarrow> reply_err req (err_text e)
                | Inr st \<Rightarrow> reply_data req (js_status js st), m)) m
      else if meth = ''logs'' then
        with_params req (js_logs js params) (\<lambda>(n, limit).
          map_option (\<lambda>r. (case r of
                  Inl e \<Rightarrow> reply_err req (err_text e)
                | Inr ls \<Rightarrow> reply_data req (js_lines js ls), m)) (mgr_Logs lb n limit m)) m
      else if meth = ''reload'' then map_option answer (mgr_Reload pd unmarshal m)
      else Some (reply_err req (''unknown method '' @ quote meth), m))"


section \<open>Monitoring remote clients\<close>

text \<open>
  The run function of a remote client looks its managed tunnel up once, in the
  table, when it starts, and then polls the client every 500 ms. An error of the
  client is stored through that pointer; a nil pointer panics.
\<close>

definition runRemoteClient_lookup :: "string \<Rightarrow> Manager \<Rightarrow> nat option" where
  "runRemoteClient_lookup name m = map_of (m_tunnels m) name"

definition runRemoteClient_tick ::
  "bool \<Rightarrow> int \<Rightarrow> error option \<Rightarrow> int \<Rightarrow> nat option \<Rightarrow> nat \<Rightarrow> Manager \<Rightarrow> Manager option" where
  "runRemoteClient_tick connected reconnects lastError now mt r m =
     (let m1 = upd_mt r (\<lambda>t. t\<lparr>mt_state := SetReconnectCount reconnects
                 (ts_Set (if connected then ''established'' else ''reconnecting'') '''' now (mt_state t))\<rparr>) m in
      case lastError of
        None \<Rightarrow> Some m1
      | Some e \<Rightarrow>
          (case mt of
             None \<Rightarrow> None
           | Some q \<Rightarrow> Some (upd_mt q (\<lambda>t. t\<lparr>mt_lastErr := Some e\<rparr>) m1)))"

definition multi_connections :: "TunnelConfig \<Rightarrow> int" where
  "multi_connections tc =
     (let n = tc_Connections tc; n1 = (if n < 1 then 1 else n) in if n1 > 10 then 10 else n1)"

definition multi_status :: "int \<Rightarrow> (bool \<times> int) list \<Rightarrow> string \<times> int" where
  "multi_status n clients =
     (let connected = foldl (\<lambda>c (up, _). if up then c + 1 else c) (0 :: int) clients;
          reconnects = foldl (\<lambda>t (_, rc). wrap64 (t + rc)) 0 clients in
      (if connected = n then ''established'' else if connected > 0 then ''degraded'' else ''reconnecting'', reconnects))"

definition runRemoteClientMulti_tick ::
  "TunnelConfig \<Rightarrow> (bool \<times> int) list \<Rightarrow> int \<Rightarrow> nat \<Rightarrow> Manager \<Rightarrow> Manager" where
  "runRemoteClientMulti_tick tc clients now r m =
     (let (status, reconnects) = multi_status (multi_connections tc) clients in
      upd_mt r (\<lambda>t. t\<lparr>mt_state := SetReconnectCount reconnects (ts_Set status '''' now (mt_state t))\<rparr>) m)"


section \<open>The invariant of the table\<close>

definition cfg_names :: "Manager \<Rightarrow> string list" where
  "cfg_names m = map tc_Name (Tunnels (m_cfg m))"

text \<open>
  Names and objects of the table are unique, every entry leads to a managed tunnel
  of that name that has not been cancelled, and every running tunnel is configured.
\<close>

definition mgr_wf :: "Manager \<Rightarrow> bool" where
  "mgr_wf m \<longleftrightarrow> distinct (map fst (m_tunnels m)) \<and> distinct (map snd (m_tunnels m))
     \<and> (\<forall>(n, r)\<in>set (m_tunnels m). r < length (m_mts m) \<and> \<not> mt_cancelled (m_mts m ! r)
          \<and> tc_Name (mt_cfg (m_mts m ! r)) = n \<and> n \<in> set (cfg_names m))"

lemma findConfig_from_cases:
  "findConfig_from i name ts = -1 \<and> name \<notin> set (map tc_Name ts)
   \<or> (\<exists>k<length ts. findConfig_from i name ts = i + int k \<and> tc_Name (ts ! k) = name
        \<and> name \<notin> set (map tc_Name (take k ts)))"
proof (induction ts arbitrary: i)
  case (Cons tc ts)
  show ?case
  proof (cases "tc_Name tc = name")
    case True
    then show ?thesis by (intro disjI2 exI [of _ 0]) simp
  next
    case False
    from Cons.IH [of "i + 1"] show ?thesis
    proof (elim disjE exE conjE)
      fix k assume "k < length ts" "findConfig_from (i + 1) name ts = i + 1 + int k" "tc_Name (ts ! k) = name"
        "name \<notin> set (map tc_Name (take k ts))"
      with False show ?thesis by (intro disjI2 exI [of _ "Suc k"]) auto
    qed (use False in auto)
  qed
qed simp

lemma findConfig_neg: "findConfig name m < 0 \<longleftrightarrow> name \<notin> set (cfg_names m)"
  using findConfig_from_cases [of 0 name "Tunnels (m_cfg m)"]
  by (auto simp: findConfig_def cfg_names_def)

lemma findConfig_nth:
  assumes "\<not> findConfig name m < 0"
  shows "nat (findConfig name m) < length (Tunnels (m_cfg m))"
    and "tc_Name (Tunnels (m_cfg m) ! nat (findConfig name m)) = name"
    and "name \<notin> set (map tc_Name (take (nat (findConfig name m)) (Tunnels (m_cfg m))))"
  using findConfig_from_cases [of 0 name "Tunnels (m_cfg m)"] assms
  by (auto simp: findConfig_def)

lemma update_fresh: "map_of al k = None \<Longrightarrow> AList.update k v al = al @ [(k, v)]"
  by (induction al) (auto split: if_splits)

lemma mgr_wf_cong:
  assumes "m_tunnels m' = m_tunnels m" "m_mts m' = m_mts m" "set (cfg_names m) \<subseteq> set (cfg_names m')"
  shows "mgr_wf m \<Longrightarrow> mgr_wf m'"
  using assms unfolding mgr_wf_def by fastforce

lemma startOne_wf:
  assumes "mgr_wf m" "tc_Name tc \<in> set (cfg_names m)" "startOne pd tc m = (e, m')"
  shows "mgr_wf m' \<and> m_cfg m' = m_cfg m"
proof (cases "map_of (m_tunnels m) (tc_Name tc) = None \<and> (\<exists>run. select_runFn tc = Inr run)")
  case True
  then obtain mt where mt: "m_mts m' = m_mts m @ [mt]" "m_tunnels m' = m_tunnels m @ [(tc_Name tc, length (m_mts m))]"
    "m_cfg m' = m_cfg m" "\<not> mt_cancelled mt" "mt_cfg mt = tc"
    using assms(3) by (auto simp: startOne_def Let_def update_fresh)
  have fresh: "tc_Name tc \<notin> fst ` set (m_tunnels m)" using True by (simp add: map_of_eq_None_iff)
  have refs: "length (m_mts m) \<notin> snd ` set (m_tunnels m)"
    using assms(1) by (auto simp: mgr_wf_def)
  show ?thesis
    using assms(1,2) mt fresh refs by (auto simp: mgr_wf_def cfg_names_def nth_append less_SucI)
next
  case False
  then have "m' = m" using assms(3) by (auto simp: startOne_def split: if_splits sum.splits)
  with assms(1) show ?thesis by simp
qed

text \<open>What the stopping operations leave alone.\<close>

definition same_rest :: "Manager \<Rightarrow> Manager \<Rightarrow> bool" where
  "same_rest m m' \<longleftrightarrow> m_cfg m' = m_cfg m \<and> m_cfgPath m' = m_cfgPath m \<and> m_os m' = m_os m
     \<and> length (m_mts m') = length (m_mts m)"

lemma same_rest_trans: "same_rest a b \<Longrightarrow> same_rest b c \<Longrightarrow> same_rest a c"
  by (simp add: same_rest_def)

lemma entry_unique:
  assumes "mgr_wf m" "(n, r) \<in> set (m_tunnels m)" "(n', r') \<in> set (m_tunnels m)"
  shows "n = n' \<longleftrightarrow> r = r'"
  using assms unfolding mgr_wf_def by (auto dest: eq_key_imp_eq_value)
     (metis (mono_tags, lifting) case_prodD)

lemma stopTunnelLocked_ok:
  assumes "mgr_wf m" and "(name, r) \<in> set (m_tunnels m)"
  shows "\<exists>m'. stopTunnelLocked name r m = Some m' \<and> mgr_wf m' \<and> same_rest m m'
     \<and> m_tunnels m' = filter (\<lambda>e. fst e \<noteq> name) (m_tunnels m)
     \<and> m_mts m' = (m_mts m)[r := (m_mts m ! r)\<lparr>mt_cancelled := True\<rparr>]"
proof -
  have r: "r < length (m_mts m)" "\<not> mt_cancelled (m_mts m ! r)" using assms by (auto simp: mgr_wf_def)
  let ?m = "m\<lparr>m_mts := (m_mts m)[r := (m_mts m ! r)\<lparr>mt_cancelled := True\<rparr>],
              m_tunnels := filter (\<lambda>e. fst e \<noteq> name) (m_tunnels m)\<rparr>"
  have del: "AList.delete name (m_tunnels m) = filter (\<lambda>e. fst e \<noteq> name) (m_tunnels m)"
    by (auto simp: AList.delete_eq intro: filter_cong)
  have "stopTunnelLocked name r m = Some ?m"
    using r(2) del by (simp add: stopTunnelLocked_def cancel_def upd_mt_def)
  moreover have "r' \<noteq> r" if "(n', r') \<in> set (m_tunnels m)" "n' \<noteq> name" for n' r'
    using entry_unique [OF assms(1) that(1) assms(2)] that(2) by blast
  then have other: "(m_mts m)[r := x] ! r' = m_mts m ! r'" if "(n', r') \<in> set (m_tunnels m)" "n' \<noteq> name" for n' r' x
    using that by (metis nth_list_update_neq)
  have "mgr_wf ?m"
  proof -
    have "r' < length (m_mts ?m) \<and> \<not> mt_cancelled (m_mts ?m ! r') \<and> tc_Name (mt_cfg (m_mts ?m ! r')) = n'
        \<and> n' \<in> set (cfg_names ?m)" if "(n', r') \<in> set (m_tunnels ?m)" for n' r'
      using assms(1) that other [of n' r'] by (auto simp: mgr_wf_def cfg_names_def)
    then show ?thesis using assms(1) by (auto simp: mgr_wf_def distinct_map_filter)
  qed
  ultimately show ?thesis by (auto simp: same_rest_def)
qed

lemma stop_loop_ok:
  assumes "mgr_wf m" "distinct (map fst es)" "set es \<subseteq> set (m_tunnels m)"
    and "\<And>mt. want (mt\<lparr>mt_cancelled := True\<rparr>) = want mt"
  shows "\<exists>m'. stop_loop want es m = Some m' \<and> mgr_wf m' \<and> same_rest m m'
     \<and> m_tunnels m' = filter (\<lambda>e. \<not> (e \<in> set es \<and> want (m_mts m ! snd e))) (m_tunnels m)
     \<and> (\<forall>r. m_mts m' ! r = (if \<exists>n. (n, r) \<in> set es \<and> want (m_mts m ! r)
               then (m_mts m ! r)\<lparr>mt_cancelled := True\<rparr> else m_mts m ! r))"
  using assms(1-3)
proof (induction es arbitrary: m)
  case Nil
  then show ?case by (auto simp: same_rest_def)
next
  case (Cons e es)
  obtain name r where e: "e = (name, r)" by fastforce
  then have in_t: "(name, r) \<in> set (m_tunnels m)" and rl: "r < length (m_mts m)"
    using Cons.prems by (auto simp: mgr_wf_def)
  have notin: "(n, r) \<notin> set es" for n
    using entry_unique [OF Cons.prems(1) in_t, of n r] Cons.prems(2,3) e by force
  show ?case
  proof (cases "want (m_mts m ! r)")
    case False
    from Cons.IH [OF Cons.prems(1)] Cons.prems(2,3) obtain m' where
      m': "stop_loop want es m = Some m'" "mgr_wf m'" "same_rest m m'"
        "m_tunnels m' = filter (\<lambda>e. \<not> (e \<in> set es \<and> want (m_mts m ! snd e))) (m_tunnels m)"
        "\<forall>r. m_mts m' ! r = (if \<exists>n. (n, r) \<in> set es \<and> want (m_mts m ! r)
               then (m_mts m ! r)\<lparr>mt_cancelled := True\<rparr> else m_mts m ! r)" by auto
    have "m_tunnels m' = filter (\<lambda>x. \<not> (x \<in> set (e # es) \<and> want (m_mts m ! snd x))) (m_tunnels m)"
      unfolding m'(4) using False e by (intro filter_cong) auto
    then show ?thesis using m' False e by (intro exI [of _ m']) auto
  next
    case True
    obtain m1 where m1: "stopTunnelLocked name r m = Some m1" "mgr_wf m1" "same_rest m m1"
      "m_tunnels m1 = filter (\<lambda>e. fst e \<noteq> name) (m_tunnels m)"
      "m_mts m1 = (m_mts m)[r := (m_mts m ! r)\<lparr>mt_cancelled := True\<rparr>]"
      using stopTunnelLocked_ok [OF Cons.prems(1) in_t] by blast
    have sub: "set es \<subseteq> set (m_tunnels m1)" using Cons.prems(2,3) e m1(4) by force
    have w: "want (m_mts m1 ! q) = want (m_mts m ! q)" for q
      using m1(5) rl assms(4) by (cases "q = r") simp_all
    obtain m' where m': "stop_loop want es m1 = Some m'" "mgr_wf m'" "same_rest m1 m'"
        "m_tunnels m' = filter (\<lambda>e. \<not> (e \<in> set es \<and> want (m_mts m1 ! snd e))) (m_tunnels m1)"
        "\<forall>r. m_mts m' ! r = (if \<exists>n. (n, r) \<in> set es \<and> want (m_mts m1 ! r)
               then (m_mts m1 ! r)\<lparr>mt_cancelled := True\<rparr> else m_mts m1 ! r)"
      using Cons.IH [OF m1(2) _ sub] Cons.prems(2) by auto
    have "m_tunnels m' = filter (\<lambda>x. \<not> (x \<in> set (e # es) \<and> want (m_mts m ! snd x))) (m_tunnels m)"
      unfolding m'(4) m1(4) w filter_filter
      using True e in_t entry_unique [OF Cons.prems(1) in_t] by (intro filter_cong) fastforce+
    moreover have "m_mts m' ! q = (if \<exists>n. (n, q) \<in> set (e # es) \<and> want (m_mts m ! q)
               then (m_mts m ! q)\<lparr>mt_cancelled := True\<rparr> else m_mts m ! q)" for q
      using m'(5) m1(5) rl True e notin w by (cases "q = r") auto
    ultimately show ?thesis
      using m1(1) m'(1,2) same_rest_trans [OF m1(3) m'(3)] True e by (intro exI [of _ m']) auto
  qed
qed

lemma stop_all_ok:
  assumes "mgr_wf m" and "\<And>mt. want (mt\<lparr>mt_cancelled := True\<rparr>) = want mt"
  shows "\<exists>m'. stop_loop want (m_tunnels m) m = Some m' \<and> mgr_wf m' \<and> same_rest m m'
     \<and> m_tunnels m' = filter (\<lambda>e. \<not> want (m_mts m ! snd e)) (m_tunnels m)
     \<and> (\<forall>(n, r)\<in>set (m_tunnels m). m_mts m' ! r =
          (if want (m_mts m ! r) then (m_mts m ! r)\<lparr>mt_cancelled := True\<rparr> else m_mts m ! r))"
proof -
  have "distinct (map fst (m_tunnels m))" using assms(1) by (simp add: mgr_wf_def)
  from stop_loop_ok [where want = want, OF assms(1) this order_refl assms(2)] obtain m' where
    m': "stop_loop want (m_tunnels m) m = Some m'" "mgr_wf m'" "same_rest m m'"
      "m_tunnels m' = filter (\<lambda>e. \<not> (e \<in> set (m_tunnels m) \<and> want (m_mts m ! snd e))) (m_tunnels m)"
      "\<forall>r. m_mts m' ! r = (if \<exists>n. (n, r) \<in> set (m_tunnels m) \<and> want (m_mts m ! r)
               then (m_mts m ! r)\<lparr>mt_cancelled := True\<rparr> else m_mts m ! r)" by blast
  have "m_tunnels m' = filter (\<lambda>e. \<not> want (m_mts m ! snd e)) (m_tunnels m)"
    unfolding m'(4) by (intro filter_cong) auto
  with m' show ?thesis by (intro exI [of _ m']) auto
qed

lemma stop_if_running_ok:
  assumes "mgr_wf m"
  shows "\<exists>m'. stop_if_running name m = Some m' \<and> mgr_wf m' \<and> same_rest m m'
     \<and> m_tunnels m' = filter (\<lambda>e. fst e \<noteq> name) (m_tunnels m)
     \<and> (\<forall>r. map_of (m_tunnels m) name = Some r \<longrightarrow> mt_cancelled (m_mts m' ! r))"
proof (cases "map_of (m_tunnels m) name")
  case None
  then have "filter (\<lambda>e. fst e \<noteq> name) (m_tunnels m) = m_tunnels m"
    by (auto simp: map_of_eq_None_iff filter_id_conv)
  with None assms show ?thesis by (auto simp: stop_if_running_def same_rest_def)
next
  case (Some r)
  then have in_t: "(name, r) \<in> set (m_tunnels m)" by (rule map_of_SomeD)
  then have "r < length (m_mts m)" using assms by (auto simp: mgr_wf_def)
  with stopTunnelLocked_ok [OF assms in_t] Some show ?thesis
    by (auto simp: stop_if_running_def)
qed

section \<open>Every operation keeps the invariant and returns\<close>

lemma save_cfg_keeps:
  assumes "save_cfg marshal m = (e, m')"
  shows "m_cfg m' = m_cfg m \<and> m_tunnels m' = m_tunnels m \<and> m_mts m' = m_mts m \<and> m_cfgPath m' = m_cfgPath m"
  using assms by (auto simp: save_cfg_def split: prod.splits)

lemma save_cfg_wf: "mgr_wf m \<Longrightarrow> save_cfg marshal m = (e, m') \<Longrightarrow> mgr_wf m'"
  using save_cfg_keeps [of marshal m e m'] mgr_wf_cong [of m' m] by (simp add: cfg_names_def)

lemma start_loop_wf:
  "mgr_wf m \<Longrightarrow> set tcs \<subseteq> set (Tunnels (m_cfg m)) \<Longrightarrow>
     mgr_wf (start_loop pd want tcs m) \<and> m_cfg (start_loop pd want tcs m) = m_cfg m"
proof (induction tcs arbitrary: m)
  case (Cons tc tcs)
  obtain e m1 where m1: "startOne pd tc m = (e, m1)" by fastforce
  have "tc_Name tc \<in> set (cfg_names m)" using Cons.prems(2) by (auto simp: cfg_names_def)
  with startOne_wf [OF Cons.prems(1) this m1] Cons.IH [of m1] Cons.IH [of m] Cons.prems m1
  show ?case by simp
qed simp

lemma startGroup_loop_wf:
  "mgr_wf m \<Longrightarrow> set tcs \<subseteq> set (Tunnels (m_cfg m)) \<Longrightarrow>
     mgr_wf (startGroup_loop pd g tcs m) \<and> m_cfg (startGroup_loop pd g tcs m) = m_cfg m"
proof (induction tcs arbitrary: m)
  case (Cons tc tcs)
  obtain e m1 where m1: "startOne pd tc m = (e, m1)" by fastforce
  have "tc_Name tc \<in> set (cfg_names m)" using Cons.prems(2) by (auto simp: cfg_names_def)
  with startOne_wf [OF Cons.prems(1) this m1] Cons.IH [of m1] Cons.IH [of m] Cons.prems m1
  show ?case by simp
qed simp

lemma startLocked_wf: "mgr_wf m \<Longrightarrow> mgr_wf (startLocked pd m)"
  using start_loop_wf [of m "Tunnels (m_cfg m)"] by (simp add: startLocked_def)

lemma StartGroup_wf: "mgr_wf m \<Longrightarrow> mgr_wf (StartGroup pd g m)"
  using startGroup_loop_wf [of m "Tunnels (m_cfg m)"] by (simp add: StartGroup_def)

lemma set_tunnels_simps [simp]:
  "Tunnels (m_cfg (set_tunnels ts m)) = ts" "m_tunnels (set_tunnels ts m) = m_tunnels m"
  "m_mts (set_tunnels ts m) = m_mts m" "cfg_names (set_tunnels ts m) = map tc_Name ts"
  "m_cfgPath (set_tunnels ts m) = m_cfgPath m" "m_os (set_tunnels ts m) = m_os m"
  by (simp_all add: set_tunnels_def cfg_names_def)

lemma set_tunnels_wf:
  assumes "mgr_wf m" and "set (cfg_names m) - X \<subseteq> set (map tc_Name ts)" and "X \<inter> fst ` set (m_tunnels m) = {}"
  shows "mgr_wf (set_tunnels ts m)"
proof -
  have "n \<in> set (map tc_Name ts)" if "(n, r) \<in> set (m_tunnels m)" for n r
  proof -
    have "n \<in> set (cfg_names m)" using assms(1) that by (auto simp: mgr_wf_def)
    moreover have "n \<notin> X" using assms(3) that by force
    ultimately show ?thesis using assms(2) by blast
  qed
  then show ?thesis using assms(1) by (auto simp: mgr_wf_def)
qed

lemma set_autostart_names:
  assumes "\<not> findConfig name m < 0"
  shows "cfg_names (set_autostart b (findConfig name m) m) = cfg_names m"
  using findConfig_nth(1) [OF assms]
  by (simp add: set_autostart_def Let_def map_update cfg_names_def) (metis list_update_id nth_map)

lemma Add_wf:
  assumes "mgr_wf m" and "mgr_Add pd marshal tc m = (e, m')"
  shows "mgr_wf m'"
proof (cases "findConfig (tc_Name tc) m \<ge> 0")
  case False
  let ?m0 = "set_tunnels (Tunnels (m_cfg m) @ [tc]) m"
  obtain e1 m1 where s: "save_cfg marshal ?m0 = (e1, m1)" by fastforce
  have "mgr_wf ?m0" using assms(1) by (rule set_tunnels_wf [of _ "{}"]) (auto simp: cfg_names_def)
  then have wf1: "mgr_wf m1" using s by (rule save_cfg_wf)
  have "tc_Name tc \<in> set (cfg_names m1)" using save_cfg_keeps [OF s] by (simp add: cfg_names_def)
  with startOne_wf [OF wf1 this] wf1 False s assms(2) show ?thesis
    by (auto simp: mgr_Add_def split: option.splits if_splits)
qed (use assms in \<open>simp add: mgr_Add_def\<close>)

lemma Remove_ok:
  assumes "mgr_wf m"
  shows "\<exists>e m'. mgr_Remove marshal name m = Some (e, m') \<and> mgr_wf m'"
proof -
  obtain m1 where m1: "stop_if_running name m = Some m1" "mgr_wf m1"
    "m_tunnels m1 = filter (\<lambda>e. fst e \<noteq> name) (m_tunnels m)"
    using stop_if_running_ok [OF assms] by blast
  show ?thesis
  proof (cases "findConfig name m1 < 0")
    case False
    let ?i = "nat (findConfig name m1)" and ?ts = "Tunnels (m_cfg m1)"
    let ?m2 = "set_tunnels (take ?i ?ts @ drop (?i + 1) ?ts) m1"
    have "map tc_Name ?ts = map tc_Name (take ?i ?ts) @ name # map tc_Name (drop (?i + 1) ?ts)"
      using findConfig_nth [OF False] id_take_nth_drop [of ?i ?ts] by (metis Suc_eq_plus1 list.simps(9) map_append)
    then have "set (cfg_names m1) - {name} \<subseteq> set (map tc_Name (take ?i ?ts @ drop (?i + 1) ?ts))"
      by (auto simp: cfg_names_def)
    then have "mgr_wf ?m2" using m1(2,3) by (intro set_tunnels_wf [of _ "{name}"]) auto
    moreover obtain e m' where "save_cfg marshal ?m2 = (e, m')" by fastforce
    ultimately show ?thesis
      using m1(1) False save_cfg_wf by (auto simp: mgr_Remove_def Let_def)
  qed (use m1 in \<open>simp add: mgr_Remove_def\<close>)
qed

lemma stopLocked_ok:
  assumes "mgr_wf m"
  shows "\<exists>m'. stopLocked m = Some m' \<and> mgr_wf m' \<and> same_rest m m' \<and> m_tunnels m' = []
     \<and> (\<forall>(n, r)\<in>set (m_tunnels m). mt_cancelled (m_mts m' ! r))"
proof -
  obtain m' where m': "stopLocked m = Some m'" "mgr_wf m'" "same_rest m m'" "m_tunnels m' = []"
    "\<forall>(n, r)\<in>set (m_tunnels m). m_mts m' ! r = (m_mts m ! r)\<lparr>mt_cancelled := True\<rparr>"
    using stop_all_ok [OF assms, of "\<lambda>_. True"] by (auto simp: stopLocked_def)
  have "mt_cancelled (m_mts m' ! r)" if "(n, r) \<in> set (m_tunnels m)" for n r
    using bspec [OF m'(5) that] by simp
  with m' show ?thesis by blast
qed

lemma Reload_ok:
  assumes "mgr_wf m"
  shows "\<exists>e m'. mgr_Reload pd unmarshal m = Some (e, m') \<and> mgr_wf m'"
proof (cases "LoadConfig unmarshal (m_os m) (m_cfgPath m)")
  case (Inr cfg)
  obtain m1 where m1: "stopLocked m = Some m1" "m_tunnels m1 = []" using stopLocked_ok [OF assms] by blast
  then have "mgr_wf (m1\<lparr>m_cfg := cfg\<rparr>)" by (simp add: mgr_wf_def)
  with Inr m1 startLocked_wf show ?thesis by (simp add: mgr_Reload_def)
qed (use assms in \<open>simp add: mgr_Reload_def\<close>)

lemma set_autostart_keeps [simp]:
  "m_tunnels (set_autostart b i m) = m_tunnels m" "m_mts (set_autostart b i m) = m_mts m"
  "m_cfgPath (set_autostart b i m) = m_cfgPath m" "m_os (set_autostart b i m) = m_os m"
  by (simp_all add: set_autostart_def Let_def)

lemma set_autostart_wf:
  assumes "mgr_wf m" and "\<not> findConfig name m < 0"
  shows "mgr_wf (set_autostart b (findConfig name m) m)"
  using assms set_autostart_names [OF assms(2)] mgr_wf_cong [of "set_autostart b (findConfig name m) m" m]
  by simp

lemma Enable_wf:
  assumes "mgr_wf m" and "mgr_Enable pd marshal name m = (e, m')"
  shows "mgr_wf m'"
proof (cases "findConfig name m < 0")
  case False
  let ?i = "findConfig name m"
  obtain e1 m1 where s: "save_cfg marshal (set_autostart True ?i m) = (e1, m1)" by fastforce
  have wf1: "mgr_wf m1" using set_autostart_wf [OF assms(1) False] s by (rule save_cfg_wf)
  have "Tunnels (m_cfg m1) ! nat ?i \<in> set (Tunnels (m_cfg m1))"
    using save_cfg_keeps [OF s] findConfig_nth(1) [OF False]
    by (intro nth_mem) (simp add: set_autostart_def Let_def)
  then have "tc_Name (Tunnels (m_cfg m1) ! nat ?i) \<in> set (cfg_names m1)" by (simp add: cfg_names_def)
  with startOne_wf [OF wf1 this] wf1 False s assms(2) show ?thesis
    by (auto simp: mgr_Enable_def Let_def split: option.splits if_splits)
qed (use assms in \<open>simp add: mgr_Enable_def\<close>)

lemma Disable_ok:
  assumes "mgr_wf m"
  shows "\<exists>e m'. mgr_Disable marshal name m = Some (e, m') \<and> mgr_wf m'"
proof (cases "findConfig name m < 0")
  case False
  obtain e1 m1 where s: "save_cfg marshal (set_autostart False (findConfig name m) m) = (e1, m1)" by fastforce
  have wf1: "mgr_wf m1" using set_autostart_wf [OF assms False] s by (rule save_cfg_wf)
  with stop_if_running_ok [OF wf1, of name] False s show ?thesis
    by (auto simp: mgr_Disable_def Let_def split: option.splits)
qed (use assms in \<open>simp add: mgr_Disable_def\<close>)

lemma Restart_ok:
  assumes "mgr_wf m"
  shows "\<exists>e m'. mgr_Restart pd name m = Some (e, m') \<and> mgr_wf m'"
proof (cases "findConfig name m < 0")
  case False
  let ?i = "findConfig name m"
  obtain m1 where m1: "stop_if_running name m = Some m1" "mgr_wf m1" "same_rest m m1"
    using stop_if_running_ok [OF assms, of name] by blast
  obtain e m2 where m2: "startOne pd (Tunnels (m_cfg m1) ! nat ?i) m1 = (e, m2)" by fastforce
  have "Tunnels (m_cfg m1) ! nat ?i \<in> set (Tunnels (m_cfg m1))"
    using m1(3) findConfig_nth(1) [OF False] by (simp add: same_rest_def)
  then have "tc_Name (Tunnels (m_cfg m1) ! nat ?i) \<in> set (cfg_names m1)" by (simp add: cfg_names_def)
  with startOne_wf [OF m1(2) this m2] m1(1) m2 False show ?thesis
    by (auto simp: mgr_Restart_def Let_def)
qed (use assms in \<open>simp add: mgr_Restart_def\<close>)

lemma StopGroup_ok:
  assumes "mgr_wf m"
  shows "\<exists>m'. StopGroup g m = Some m' \<and> mgr_wf m' \<and> same_rest m m'
     \<and> m_tunnels m' = filter (\<lambda>e. tc_Group (mt_cfg (m_mts m ! snd e)) \<noteq> g) (m_tunnels m)"
  using stop_all_ok [OF assms, of "\<lambda>mt. tc_Group (mt_cfg mt) = g"] by (auto simp: StopGroup_def)

lemma Lines_panics: "Lines lb name limit = None \<longleftrightarrow> limit > make_limit"
  by (auto simp: Lines_def Let_def make_limit_def)

lemma mgr_Logs_panics: "mgr_Logs lb name limit m = None \<Longrightarrow> limit > make_limit"
  by (auto simp: mgr_Logs_def Lines_panics split: if_splits)

text \<open>The outcomes that are allowed: a panic only for one request, and the invariant.\<close>

definition handled :: "json_api \<Rightarrow> Request \<Rightarrow> (Response \<times> Manager) option \<Rightarrow> bool" where
  "handled js req r \<longleftrightarrow>
     (case r of
        None \<Rightarrow> req_Method req = ''logs'' \<and> (\<exists>n limit. js_logs js (req_Params req) = Inr (n, limit) \<and> limit > make_limit)
      | Some (resp, m') \<Rightarrow> mgr_wf m')"

lemma handled_with_params:
  assumes "mgr_wf m" and "\<And>x. p = Inr x \<Longrightarrow> handled js req (k x)"
  shows "handled js req (with_params req p k m)"
  using assms by (cases p) (auto simp: with_params_def handled_def)

lemma handled_answer:
  "(\<exists>e m'. r = Some (e, m') \<and> mgr_wf m') \<Longrightarrow> handled js req (map_option (\<lambda>(e, m'). (reply req e, m')) r)"
  by (auto simp: handled_def)

lemma handled_if:
  "(b \<Longrightarrow> handled js req r) \<Longrightarrow> (\<not> b \<Longrightarrow> handled js req r') \<Longrightarrow> handled js req (if b then r else r')"
  by simp

lemma HandleControl_handled:
  assumes "mgr_wf m"
  shows "handled js req (HandleControl js pd marshal unmarshal lb req m)"
proof -
  let ?p = "req_Params req"
  have q: "handled js req (Some (r, m))" for r using assms by (simp add: handled_def)
  have a: "handled js req (Some (case r of (e, m') \<Rightarrow> (reply req e, m')))" if "\<And>e m'. r = (e, m') \<Longrightarrow> mgr_wf m'" for r
    using that by (cases r) (simp add: handled_def)
  have stop: "handled js req (map_option (Pair (reply req None)) (stopLocked m))"
    using stopLocked_ok [OF assms] by (auto simp: handled_def)
  have stopg: "handled js req (map_option (Pair (reply req None)) (StopGroup g m))" for g
    using StopGroup_ok [OF assms, of g] by (auto simp: handled_def)
  have startg: "handled js req (Some (reply req None, StartGroup pd g m))" for g
    using StartGroup_wf [OF assms] by (simp add: handled_def)
  have add: "handled js req (Some (case mgr_Add pd marshal tc m of (e, m') \<Rightarrow> (reply req e, m')))" for tc
    using Add_wf [OF assms] by (rule a)
  have enable: "handled js req (Some (case mgr_Enable pd marshal n m of (e, m') \<Rightarrow> (reply req e, m')))" for n
    using Enable_wf [OF assms] by (rule a)
  have save: "handled js req (Some (case save_cfg marshal m of (e, m') \<Rightarrow> (reply req e, m')))"
    using save_cfg_wf [OF assms] by (rule a)
  have logs: "handled js req (case x of (n, limit) \<Rightarrow> map_option (\<lambda>r. (f r, m)) (mgr_Logs lb n limit m))"
    if "js_logs js ?p = Inr x" "req_Method req = ''logs''" for x f
    using that assms mgr_Logs_panics by (cases x) (auto simp: handled_def split: option.splits)
  note parts = q stop handled_with_params [OF assms] stopg startg add enable save
    handled_answer [OF Remove_ok [OF assms]] handled_answer [OF Disable_ok [OF assms]]
    handled_answer [OF Restart_ok [OF assms]] handled_answer [OF Reload_ok [OF assms]] logs
  show ?thesis
    unfolding HandleControl_def Let_def by (intro handled_if parts) assumption+
qed

section \<open>The manager as a state machine\<close>

text \<open>
  The daemon's steps: a control request, the initial start, a reload on a signal,
  the first and last step of a tunnel's goroutine and its polls in between, and any
  change other processes make to files and environment.
\<close>

inductive manager_step :: "Manager \<Rightarrow> Manager \<Rightarrow> bool" where
  ms_control: "HandleControl js pd marshal unmarshal lb req m = Some (resp, m') \<Longrightarrow> manager_step m m'"
| ms_start: "manager_step m (startLocked pd m)"
| ms_reload: "mgr_Reload pd unmarshal m = Some (e, m') \<Longrightarrow> manager_step m m'"
| ms_begin: "manager_step m (goroutine_begin r now m)"
| ms_end: "manager_step m (goroutine_end r err now m)"
| ms_tick: "runRemoteClient_tick up n e now mt r m = Some m' \<Longrightarrow> manager_step m m'"
| ms_multi: "manager_step m (runRemoteClientMulti_tick tc clients now r m)"
| ms_os: "manager_step m (m\<lparr>m_os := os\<rparr>)"

definition manager_init :: "Manager \<Rightarrow> bool" where
  "manager_init m \<longleftrightarrow> (\<exists>cfg path os. m = NewManager cfg path os)"

lemma upd_mt_wf:
  assumes "mgr_wf m" and "\<And>mt. mt_cancelled (f mt) = mt_cancelled mt" and "\<And>mt. mt_cfg (f mt) = mt_cfg mt"
  shows "mgr_wf (upd_mt r f m)"
proof -
  have "mt_cancelled ((m_mts m)[r := f (m_mts m ! r)] ! k) = mt_cancelled (m_mts m ! k)
      \<and> mt_cfg ((m_mts m)[r := f (m_mts m ! r)] ! k) = mt_cfg (m_mts m ! k)" for k
    using assms(2,3) by (cases "k = r"; cases "r < length (m_mts m)") (auto simp: list_update_beyond)
  then show ?thesis using assms(1) by (auto simp: mgr_wf_def upd_mt_def cfg_names_def)
qed

lemma manager_step_wf:
  assumes "manager_step m m'" and "mgr_wf m"
  shows "mgr_wf m'"
  using assms(1)
proof cases
  case (ms_control js pd marshal unmarshal lb req resp)
  then show ?thesis using HandleControl_handled [OF assms(2), of js req pd marshal unmarshal lb] by (simp add: handled_def)
next
  case (ms_reload pd unmarshal e)
  then show ?thesis using Reload_ok [OF assms(2), of pd unmarshal] by auto
next
  case (ms_tick up n e now mt r)
  then show ?thesis
    using assms(2)
    by (auto simp: runRemoteClient_tick_def Let_def split: option.splits intro!: upd_mt_wf)
qed (use assms(2) startLocked_wf in \<open>auto simp: goroutine_begin_def goroutine_end_def runRemoteClientMulti_tick_def
       mgr_wf_cong Let_def cfg_names_def split: option.splits prod.splits intro!: upd_mt_wf mgr_wf_cong [of _ m]\<close>)

lemma manager_init_wf: "manager_init m \<Longrightarrow> mgr_wf m"
  by (auto simp: manager_init_def NewManager_def mgr_wf_def)

interpretation mgr: invariant_system manager_init manager_step mgr_wf
  by unfold_locales (auto intro: manager_init_wf manager_step_wf)

abbreviation manager_reachable :: "Manager \<Rightarrow> bool" where
  "manager_reachable \<equiv> reachable manager_init manager_step"


section \<open>What is running after a start\<close>

definition running :: "Manager \<Rightarrow> string set" where
  "running m = fst ` set (m_tunnels m)"

lemma startOne_running:
  "running (snd (startOne pd tc m)) =
     (if \<exists>run. select_runFn tc = Inr run then insert (tc_Name tc) (running m) else running m)"
proof -
  have "tc_Name tc \<in> running m" if "map_of (m_tunnels m) (tc_Name tc) \<noteq> None"
    using that by (simp add: running_def map_of_eq_None_iff)
  then show ?thesis
    by (auto simp: startOne_def Let_def running_def update_fresh split: sum.splits)
qed

lemma start_loop_running:
  "running (start_loop pd want tcs m) =
     running m \<union> {tc_Name tc |tc. tc \<in> set tcs \<and> want tc \<and> (\<exists>run. select_runFn tc = Inr run)}"
  by (induction tcs arbitrary: m) (auto simp: startOne_running)

section \<open>Properties\<close>

definition demo_tc :: TunnelConfig where
  "demo_tc = zero_TunnelConfig\<lparr>tc_Name := ''web'', tc_Mode := ''local'', tc_Local := ''127.0.0.1:8080'',
     tc_Remote := ''web:80'', tc_Autostart := True\<rparr>"

definition demo_cfg :: Config where
  "demo_cfg = \<lparr>Tunnels = [demo_tc], Global = \<lparr>LogFile = '''', ControlSocket = ''''\<rparr>\<rparr>"

definition demo_mgr :: Manager where
  "demo_mgr = NewManager demo_cfg ''/t.yaml'' demo_os"

definition demo_pd :: "string \<Rightarrow> int res" where
  "demo_pd _ = Inl (Errorf ''time: invalid duration'')"

definition demo_running :: Manager where
  "demo_running = startLocked demo_pd demo_mgr"

lemma demo_reachable: "manager_reachable demo_mgr" "manager_reachable demo_running"
proof -
  show 1: "manager_reachable demo_mgr"
    by (rule reachable_init) (auto simp: manager_init_def demo_mgr_def)
  show "manager_reachable demo_running"
    unfolding demo_running_def by (rule reachable_step [OF 1 ms_start])
qed

lemma demo_running_tunnels: "m_tunnels demo_running = [(''web'', 0)]" "m_cfg demo_running = demo_cfg"
  by (simp_all add: demo_running_def startLocked_def demo_mgr_def NewManager_def demo_cfg_def demo_tc_def
      zero_TunnelConfig_def startOne_def select_runFn_def Let_def)



text \<open>
  Reloading replaces everything. After a reload in any reachable state the
  configuration is the one read from disk, every tunnel that was running has been
  cancelled, and exactly the configured tunnels with \<^verbatim>\<open>autostart\<close> and a known mode run.
\<close>

theorem reload_replaces_tunnels:
  assumes "manager_reachable m" and "LoadConfig unmarshal (m_os m) (m_cfgPath m) = Inr cfg"
  shows "\<exists>m'. mgr_Reload pd unmarshal m = Some (None, m') \<and> m_cfg m' = cfg
     \<and> running m' = {tc_Name tc |tc. tc \<in> set (Tunnels cfg) \<and> tc_Autostart tc \<and> (\<exists>run. select_runFn tc = Inr run)}
     \<and> (\<forall>(n, r)\<in>set (m_tunnels m). \<exists>m1. stopLocked m = Some m1 \<and> mt_cancelled (m_mts m1 ! r))"
proof -
  obtain m1 where m1: "stopLocked m = Some m1" "m_tunnels m1 = []"
    "\<forall>(n, r)\<in>set (m_tunnels m). mt_cancelled (m_mts m1 ! r)"
    using stopLocked_ok [OF mgr.reachable_inv [OF assms(1)]] by blast
  let ?m = "m1\<lparr>m_cfg := cfg\<rparr>"
  have wf: "mgr_wf ?m" using m1(2) by (simp add: mgr_wf_def)
  have "running ?m = {}" using m1(2) by (simp add: running_def)
  then have "running (startLocked pd ?m)
      = {tc_Name tc |tc. tc \<in> set (Tunnels cfg) \<and> tc_Autostart tc \<and> (\<exists>run. select_runFn tc = Inr run)}"
    by (simp add: startLocked_def start_loop_running)
  moreover have "m_cfg (startLocked pd ?m) = cfg"
    using start_loop_wf [OF wf, of "Tunnels cfg" pd tc_Autostart] by (simp add: startLocked_def)
  ultimately show ?thesis using assms(2) m1 by (auto simp: mgr_Reload_def)
qed

theorem reload_replaces_tunnels_witness:
  "\<exists>m'. mgr_Reload demo_pd (\<lambda>_. Inr demo_cfg) (demo_running\<lparr>m_os := demo_os\<lparr>os_files := (\<lambda>_. Some ''x'')\<rparr>\<rparr>)
      = Some (None, m') \<and> ''web'' \<in> running m'"
proof -
  let ?m = "demo_running\<lparr>m_os := demo_os\<lparr>os_files := (\<lambda>_. Some ''x'')\<rparr>\<rparr>"
  have "manager_reachable ?m" by (rule reachable_step [OF demo_reachable(2) ms_os])
  moreover have "LoadConfig (\<lambda>_. Inr demo_cfg) (m_os ?m) (m_cfgPath ?m) = Inr demo_cfg"
    by (simp add: LoadConfig_def demo_os_def)
  ultimately show ?thesis
    using reload_replaces_tunnels [of ?m "\<lambda>_. Inr demo_cfg" demo_cfg demo_pd]
    by (force simp: demo_cfg_def demo_tc_def zero_TunnelConfig_def select_runFn_def)
qed

lemma Add_effect:
  assumes "mgr_Add pd marshal tc m = (None, m1)"
  shows "tc_Name tc \<notin> set (cfg_names m)"
    and "m_cfg m1 = (m_cfg m)\<lparr>Tunnels := Tunnels (m_cfg m) @ [tc]\<rparr>"
    and "\<exists>es. m_tunnels m1 = m_tunnels m @ es \<and> fst ` set es \<subseteq> {tc_Name tc}"
proof -
  let ?m0 = "set_tunnels (Tunnels (m_cfg m) @ [tc]) m"
  have f: "findConfig (tc_Name tc) m < 0" using assms by (auto simp: mgr_Add_def split: if_splits)
  then show "tc_Name tc \<notin> set (cfg_names m)" by (simp add: findConfig_neg)
  obtain m2 where s: "save_cfg marshal ?m0 = (None, m2)"
    and r: "if tc_Autostart tc then startOne pd tc m2 = (None, m1) else m1 = m2"
    using assms f by (auto simp: mgr_Add_def split: prod.splits option.splits if_splits)
  have "m_cfg m1 = m_cfg m2 \<and> (\<exists>es. m_tunnels m1 = m_tunnels m2 @ es \<and> fst ` set es \<subseteq> {tc_Name tc})"
    using r by (auto simp: startOne_def Let_def update_fresh split: if_splits sum.splits)
  with save_cfg_keeps [OF s] show "m_cfg m1 = (m_cfg m)\<lparr>Tunnels := Tunnels (m_cfg m) @ [tc]\<rparr>"
    "\<exists>es. m_tunnels m1 = m_tunnels m @ es \<and> fst ` set es \<subseteq> {tc_Name tc}"
    by (simp_all add: set_tunnels_def)
qed

lemma findConfig_last:
  assumes "Tunnels (m_cfg m) = ts @ [tc]" and "tc_Name tc \<notin> set (map tc_Name ts)"
  shows "findConfig (tc_Name tc) m = int (length ts)"
proof -
  have f: "\<not> findConfig (tc_Name tc) m < 0" using assms(1) by (simp add: findConfig_neg cfg_names_def)
  let ?i = "nat (findConfig (tc_Name tc) m)"
  have "\<not> ?i < length ts"
  proof
    assume "?i < length ts"
    then have "tc_Name (ts ! ?i) = tc_Name tc" using findConfig_nth(2) [OF f] assms(1) by (simp add: nth_append)
    with \<open>?i < length ts\<close> assms(2) show False by (metis length_map nth_map nth_mem)
  qed
  with findConfig_nth(1) [OF f] assms(1) f show ?thesis by simp
qed

text \<open>
  Removing a tunnel undoes adding it. In every reachable state, a tunnel that
  \<^verbatim>\<open>Add\<close> accepted can be removed, and the configuration and the table of running
  tunnels are then what they were.
\<close>

theorem remove_undoes_add:
  assumes "manager_reachable m" and "mgr_Add pd marshal tc m = (None, m1)"
  shows "tc_Name tc \<in> set (cfg_names m1)
     \<and> (\<exists>e m2. mgr_Remove marshal' (tc_Name tc) m1 = Some (e, m2)
          \<and> m_cfg m2 = m_cfg m \<and> m_tunnels m2 = m_tunnels m)"
proof -
  let ?n = "tc_Name tc" and ?ts = "Tunnels (m_cfg m)"
  note eff = Add_effect [OF assms(2)]
  have wf: "mgr_wf m" by (rule mgr.reachable_inv [OF assms(1)])
  have nin: "?n \<notin> fst ` set (m_tunnels m)" using wf eff(1) by (auto simp: mgr_wf_def)
  obtain es where es: "m_tunnels m1 = m_tunnels m @ es" "fst ` set es \<subseteq> {?n}" using eff(3) by blast
  have flt: "filter (\<lambda>e. fst e \<noteq> ?n) (m_tunnels m1) = m_tunnels m"
  proof -
    have "filter (\<lambda>e. fst e \<noteq> ?n) (m_tunnels m) = m_tunnels m" by (rule filter_True) (use nin in force)
    moreover have "filter (\<lambda>e. fst e \<noteq> ?n) es = []" by (rule filter_False) (use es(2) in force)
    ultimately show ?thesis using es(1) by simp
  qed
  obtain m1' where m1': "stop_if_running ?n m1 = Some m1'" "same_rest m1 m1'"
    "m_tunnels m1' = m_tunnels m"
    using stop_if_running_ok [OF Add_wf [OF wf assms(2)], of ?n] flt by auto
  have ts: "Tunnels (m_cfg m1') = ?ts @ [tc]" "m_cfg m1' = (m_cfg m)\<lparr>Tunnels := ?ts @ [tc]\<rparr>"
    using m1'(2) eff(2) by (simp_all add: same_rest_def)
  have idx: "findConfig ?n m1' = int (length ?ts)"
    by (rule findConfig_last [OF ts(1)]) (use eff(1) in \<open>simp add: cfg_names_def\<close>)
  obtain e m2 where s: "save_cfg marshal' (set_tunnels ?ts m1') = (e, m2)" by fastforce
  have "mgr_Remove marshal' ?n m1 = Some (e, m2)"
    using m1'(1) idx ts(1) s by (simp add: mgr_Remove_def Let_def)
  moreover have "m_cfg m2 = m_cfg m" "m_tunnels m2 = m_tunnels m"
    using save_cfg_keeps [OF s] ts(2) m1'(3) by (simp_all add: set_tunnels_def)
  ultimately show ?thesis using eff(2) by (auto simp: cfg_names_def)
qed

theorem remove_undoes_add_witness:
  "\<exists>m1 e m2. mgr_Add demo_pd demo_marshal (demo_tc\<lparr>tc_Name := ''db''\<rparr>) demo_running = (None, m1)
     \<and> mgr_Remove demo_marshal ''db'' m1 = Some (e, m2) \<and> m_tunnels m2 = [(''web'', 0)]"
proof -
  let ?tc = "demo_tc\<lparr>tc_Name := ''db''\<rparr>"
  have os: "m_os demo_running = demo_os" "m_cfgPath demo_running = ''/t.yaml''"
    by (simp_all add: demo_running_def startLocked_def demo_mgr_def NewManager_def demo_cfg_def demo_tc_def
        zero_TunnelConfig_def startOne_def select_runFn_def Let_def)
  have "fst (mgr_Add demo_pd demo_marshal ?tc demo_running) = None"
    by (simp add: mgr_Add_def findConfig_def demo_running_tunnels demo_cfg_def demo_tc_def zero_TunnelConfig_def
        save_cfg_def os SaveConfig_def demo_os_def demo_marshal_def WriteFile_def startOne_def select_runFn_def Let_def set_tunnels_def)
  then obtain m1 where m1: "mgr_Add demo_pd demo_marshal ?tc demo_running = (None, m1)"
    by (metis prod.collapse)
  from remove_undoes_add [OF demo_reachable(2) m1, of demo_marshal] m1 show ?thesis
    by (auto simp: demo_running_tunnels)
qed

lemma startOne_keeps:
  "startOne pd tc m = (e, m') \<Longrightarrow> m_cfg m' = m_cfg m \<and> m_os m' = m_os m \<and> m_cfgPath m' = m_cfgPath m"
  by (auto simp: startOne_def Let_def split: if_splits sum.splits)

lemma startOne_success:
  assumes "startOne pd tc m = (None, m')"
  shows "tc_Name tc \<in> running m'"
proof (cases "select_runFn tc")
  case (Inl e)
  then have "map_of (m_tunnels m) (tc_Name tc) \<noteq> None" "m' = m"
    using assms by (auto simp: startOne_def split: if_splits)
  then show ?thesis by (simp add: running_def map_of_eq_None_iff)
next
  case (Inr run)
  then show ?thesis using startOne_running [of pd tc m] assms by simp
qed

lemma save_cfg_written:
  assumes "save_cfg marshal m = (None, m')" and "m_cfgPath m \<noteq> ''''"
  shows "\<exists>data. marshal (m_cfg m') = Inr data \<and> os_files (m_os m') (m_cfgPath m) = Some data"
  using assms SaveConfig_written [of marshal "m_os m" "m_cfg m" "m_cfgPath m"]
  by (auto simp: save_cfg_def split: prod.splits)

lemma set_autostart_nth:
  assumes "\<not> findConfig name m < 0"
  shows "Tunnels (m_cfg (set_autostart b (findConfig name m) m)) ! nat (findConfig name m)
     = (Tunnels (m_cfg m) ! nat (findConfig name m))\<lparr>tc_Autostart := b\<rparr>"
  using findConfig_nth(1) [OF assms] by (simp add: set_autostart_def Let_def)

lemma Enable_effect:
  assumes "mgr_Enable pd marshal name m = (None, m')" and "m_cfgPath m \<noteq> ''''"
  shows "name \<in> running m' \<and> tc_Autostart (Tunnels (m_cfg m') ! nat (findConfig name m))
     \<and> (\<exists>data. marshal (m_cfg m') = Inr data \<and> os_files (m_os m') (m_cfgPath m) = Some data)"
proof -
  let ?i = "findConfig name m"
  have f: "\<not> ?i < 0" using assms(1) by (auto simp: mgr_Enable_def Let_def split: if_splits)
  obtain m1 where s: "save_cfg marshal (set_autostart True ?i m) = (None, m1)"
    and r: "if map_of (m_tunnels m1) name = None then startOne pd (Tunnels (m_cfg m1) ! nat ?i) m1 = (None, m')
            else m' = m1"
    using assms(1) f by (auto simp: mgr_Enable_def Let_def split: prod.splits option.splits if_splits)
  have tc: "Tunnels (m_cfg m1) ! nat ?i = (Tunnels (m_cfg m) ! nat ?i)\<lparr>tc_Autostart := True\<rparr>"
    using save_cfg_keeps [OF s] set_autostart_nth [OF f] by simp
  have same: "m_cfg m' = m_cfg m1" "m_os m' = m_os m1"
    using r startOne_keeps [of pd _ m1 None m'] by (auto split: if_splits)
  have "name \<in> running m'"
  proof (cases "map_of (m_tunnels m1) name = None")
    case True
    with r have "startOne pd (Tunnels (m_cfg m1) ! nat ?i) m1 = (None, m')" by simp
    from startOne_success [OF this] tc findConfig_nth(2) [OF f] show ?thesis by simp
  next
    case False
    with r show ?thesis by (simp add: running_def map_of_eq_None_iff)
  qed
  then show ?thesis using same tc save_cfg_written [OF s] assms(2) by simp
qed

lemma Disable_effect:
  assumes "mgr_wf m" and "mgr_Disable marshal name m = Some (None, m')" and "m_cfgPath m \<noteq> ''''"
  shows "name \<notin> running m' \<and> \<not> tc_Autostart (Tunnels (m_cfg m') ! nat (findConfig name m))
     \<and> (\<exists>data. marshal (m_cfg m') = Inr data \<and> os_files (m_os m') (m_cfgPath m) = Some data)"
proof -
  let ?i = "findConfig name m"
  have f: "\<not> ?i < 0" using assms(2) by (auto simp: mgr_Disable_def Let_def split: if_splits)
  obtain m1 where s: "save_cfg marshal (set_autostart False ?i m) = (None, m1)"
    and r: "stop_if_running name m1 = Some m'"
    using assms(2) f by (auto simp: mgr_Disable_def Let_def split: prod.splits option.splits if_splits)
  have wf1: "mgr_wf m1" using set_autostart_wf [OF assms(1) f] s by (rule save_cfg_wf)
  have m': "same_rest m1 m'" "m_tunnels m' = filter (\<lambda>e. fst e \<noteq> name) (m_tunnels m1)"
    using stop_if_running_ok [OF wf1, of name] r by auto
  have "Tunnels (m_cfg m1) ! nat ?i = (Tunnels (m_cfg m) ! nat ?i)\<lparr>tc_Autostart := False\<rparr>"
    using save_cfg_keeps [OF s] set_autostart_nth [OF f] by simp
  then show ?thesis
    using m' save_cfg_written [OF s] assms(3) by (auto simp: same_rest_def running_def)
qed

text \<open>
  Enabling and disabling take effect and persist. When \<^verbatim>\<open>Enable\<close> succeeds the
  tunnel is configured to start automatically and is running; when \<^verbatim>\<open>Disable\<close> succeeds
  it is configured not to start and its entry is gone from the table; and the file
  written last holds the configuration the manager now has.
\<close>

theorem enable_disable_effect:
  assumes "manager_reachable m" and "m_cfgPath m \<noteq> ''''"
  shows "(mgr_Enable pd marshal name m = (None, m') \<longrightarrow>
       name \<in> running m' \<and> tc_Autostart (Tunnels (m_cfg m') ! nat (findConfig name m))
       \<and> (\<exists>data. marshal (m_cfg m') = Inr data \<and> os_files (m_os m') (m_cfgPath m) = Some data))
     \<and> (mgr_Disable marshal name m = Some (None, m') \<longrightarrow>
       name \<notin> running m' \<and> \<not> tc_Autostart (Tunnels (m_cfg m') ! nat (findConfig name m))
       \<and> (\<exists>data. marshal (m_cfg m') = Inr data \<and> os_files (m_os m') (m_cfgPath m) = Some data))"
  using Enable_effect [of pd marshal name m m'] Disable_effect [OF mgr.reachable_inv [OF assms(1)], of marshal name m'] assms(2)
  by blast

theorem enable_disable_effect_witness:
  "\<exists>m'. mgr_Disable demo_marshal ''web'' demo_mgr = Some (None, m') \<and> ''web'' \<notin> running m'
     \<and> os_files (m_os m') ''/t.yaml'' = Some ''?''"
proof -
  have p: "m_cfgPath demo_mgr = ''/t.yaml''" by (simp add: demo_mgr_def NewManager_def)
  have "\<exists>m'. mgr_Disable demo_marshal ''web'' demo_mgr = Some (None, m') \<and> m_cfg m' \<noteq> DefaultConfig"
    by (simp add: mgr_Disable_def demo_mgr_def NewManager_def findConfig_def demo_cfg_def demo_tc_def
        zero_TunnelConfig_def save_cfg_def set_autostart_def set_tunnels_def SaveConfig_def demo_os_def demo_marshal_def
        WriteFile_def stop_if_running_def Let_def DefaultConfig_def)
  then obtain m' where m': "mgr_Disable demo_marshal ''web'' demo_mgr = Some (None, m')" "m_cfg m' \<noteq> DefaultConfig"
    by blast
  with enable_disable_effect [OF demo_reachable(1), of demo_pd demo_marshal "''web''" m'] p show ?thesis
    by (auto simp: demo_marshal_def)
qed

text \<open>
  A tunnel that failed stays in the table. Once a tunnel's goroutine has ended
  with an error, starting it again, starting its group or enabling it changes no
  managed tunnel and reports success; only a restart or a stop brings it back.
\<close>

theorem failed_tunnel_not_restarted:
  assumes "map_of (m_tunnels m) (tc_Name tc) = Some r" and "m' = goroutine_end r (Some err) now m"
  shows "startOne pd tc m' = (None, m')
     \<and> m_mts (snd (mgr_Enable pd marshal (tc_Name tc) m')) = m_mts m'
     \<and> (r < length (m_mts m) \<longrightarrow> mt_done (m_mts m' ! r) \<and> ts_Status (mt_state (m_mts m' ! r)) = ''error'')"
proof -
  have t: "map_of (m_tunnels m') (tc_Name tc) = Some r" using assms by (simp add: goroutine_end_def upd_mt_def)
  have "m_mts (snd (mgr_Enable pd marshal (tc_Name tc) m')) = m_mts m'"
    using t save_cfg_keeps by (auto simp: mgr_Enable_def Let_def split: prod.splits option.splits)
  with t assms(2) show ?thesis
    by (auto simp: startOne_def goroutine_end_def upd_mt_def ts_Set_def Let_def)
qed

theorem failed_tunnel_not_restarted_witness:
  "startOne demo_pd demo_tc (goroutine_end 0 (Some (SysError ''address in use'')) 7 demo_running)
     = (None, goroutine_end 0 (Some (SysError ''address in use'')) 7 demo_running)"
  using failed_tunnel_not_restarted [of demo_running demo_tc 0 _ "SysError ''address in use''" 7 demo_pd]
  by (simp add: demo_running_tunnels demo_tc_def)

text \<open>
  A tunnel \<^verbatim>\<open>Add\<close> could not save is configured all the same. When writing the
  configuration fails, \<^verbatim>\<open>Add\<close> returns the error but keeps the tunnel in memory: it is
  listed, it is not started, and adding it again fails because it already exists.
\<close>

theorem failed_add_keeps_tunnel:
  assumes "findConfig (tc_Name tc) m < 0"
    and "fst (SaveConfig marshal (m_os m) ((m_cfg m)\<lparr>Tunnels := Tunnels (m_cfg m) @ [tc]\<rparr>) (m_cfgPath m)) = Some e"
  shows "\<exists>m'. mgr_Add pd marshal tc m = (Some (Wrap ''save config'' e), m') \<and> tc \<in> set (Tunnels (m_cfg m'))
     \<and> m_tunnels m' = m_tunnels m \<and> (\<exists>e2. mgr_Add pd marshal2 tc m' = (Some e2, m'))"
proof -
  let ?m0 = "set_tunnels (Tunnels (m_cfg m) @ [tc]) m"
  obtain m' where s: "save_cfg marshal ?m0 = (Some e, m')"
    using assms(2) by (cases "SaveConfig marshal (m_os m) (m_cfg ?m0) (m_cfgPath m)")
      (auto simp: save_cfg_def set_tunnels_def)
  note k = save_cfg_keeps [OF s]
  have "mgr_Add pd marshal tc m = (Some (Wrap ''save config'' e), m')" using assms(1) s by (simp add: mgr_Add_def)
  moreover have "tc \<in> set (Tunnels (m_cfg m'))" "m_tunnels m' = m_tunnels m" using k by simp_all
  moreover from this(1) have "\<not> findConfig (tc_Name tc) m' < 0" by (auto simp: findConfig_neg cfg_names_def)
  ultimately show ?thesis by (auto simp: mgr_Add_def)
qed

theorem failed_add_keeps_tunnel_witness:
  "\<exists>m' e. mgr_Add demo_pd (\<lambda>_. Inl (Errorf ''yaml'')) (demo_tc\<lparr>tc_Name := ''db''\<rparr>) demo_mgr = (Some e, m')
     \<and> demo_tc\<lparr>tc_Name := ''db''\<rparr> \<in> set (Tunnels (m_cfg m'))"
proof -
  let ?tc = "demo_tc\<lparr>tc_Name := ''db''\<rparr>"
  have "findConfig (tc_Name ?tc) demo_mgr < 0"
    "fst (SaveConfig (\<lambda>_. Inl (Errorf ''yaml'')) (m_os demo_mgr)
       ((m_cfg demo_mgr)\<lparr>Tunnels := Tunnels (m_cfg demo_mgr) @ [?tc]\<rparr>) (m_cfgPath demo_mgr)) = Some (Errorf ''yaml'')"
    by (simp_all add: demo_mgr_def NewManager_def findConfig_def demo_cfg_def demo_tc_def SaveConfig_def demo_os_def)
  from failed_add_keeps_tunnel [OF this, of demo_pd demo_marshal] show ?thesis by blast
qed

text \<open>
  A remote client's first error can crash the daemon. \<^verbatim>\<open>startOne\<close> puts the tunnel
  into the table only after it launched the goroutine; a goroutine that looks itself
  up before that gets a nil pointer, and the first poll that finds an error panics.
\<close>

theorem early_lookup_panics:
  assumes "select_runFn tc = Inr RunRemoteClient" and "map_of (m_tunnels m) (tc_Name tc) = None"
  shows "runRemoteClient_tick up n (Some err) now (runRemoteClient_lookup (tc_Name tc) m) r m' = None
     \<and> (\<exists>m1 q. startOne pd tc m = (None, m1) \<and> runRemoteClient_lookup (tc_Name tc) m1 = Some q
          \<and> runRemoteClient_tick up n (Some err) now (Some q) r m' \<noteq> None)"
  using assms
  by (auto simp: startOne_def runRemoteClient_lookup_def runRemoteClient_tick_def Let_def update_conv')

theorem early_lookup_panics_witness:
  "runRemoteClient_tick False 0 (Some (SysError ''refused'')) 1 (runRemoteClient_lookup ''vps'' demo_mgr) 0 demo_mgr = None"
proof -
  let ?tc = "demo_tc\<lparr>tc_Name := ''vps'', tc_Mode := ''remote'', tc_Server := ''vps:9000''\<rparr>"
  have "select_runFn ?tc = Inr RunRemoteClient" "map_of (m_tunnels demo_mgr) (tc_Name ?tc) = None" "tc_Name ?tc = ''vps''"
    by (simp_all add: select_runFn_def demo_tc_def zero_TunnelConfig_def demo_mgr_def NewManager_def)
  then show ?thesis using early_lookup_panics [of ?tc demo_mgr False 0 "SysError ''refused''" 1 0 demo_mgr demo_pd] by metis
qed

end
