(* ===== verification/Manager_Spec.thy ===== *)
theory Manager_Spec
  imports Tunnel_Manager
begin

text \<open>
  What the manager promises, without its tables and objects: a book of the
  configured tunnels, in order, and of the running ones, each with the
  configuration it was started with. Every control order has its meaning on the
  book, given what the environment answers (whether the configuration file can be
  written, what is read from it). The manager of \<^verbatim>\<open>manager/manager.go\<close> refines the
  book: every request does on the manager what its order does on the book and
  reports the error the book reports, and every other step of the daemon leaves the
  book alone.
\<close>

section \<open>Simulation\<close>

locale simulation =
  fixes cinit :: "'c \<Rightarrow> bool" and cstep :: "'c \<Rightarrow> 'c \<Rightarrow> bool" and cinv :: "'c \<Rightarrow> bool"
    and ainit :: "'a \<Rightarrow> bool" and astep :: "'a \<Rightarrow> 'a \<Rightarrow> bool" and abst :: "'c \<Rightarrow> 'a"
  assumes sim_inv: "reachable cinit cstep c \<Longrightarrow> cinv c"
    and sim_init: "cinit c \<Longrightarrow> ainit (abst c)"
    and sim_step: "cinv c \<Longrightarrow> cstep c c' \<Longrightarrow> abst c' = abst c \<or> astep (abst c) (abst c')"
begin

lemma simulates: "reachable cinit cstep c \<Longrightarrow> reachable ainit astep (abst c)"
proof (induction rule: reachable.induct)
  case (reachable_init s)
  then show ?case by (simp add: reachable.reachable_init sim_init)
next
  case (reachable_step s t)
  from sim_step [OF sim_inv [OF reachable_step(1)] reachable_step(2)] reachable_step(3) show ?case
    by (auto intro: reachable.reachable_step)
qed

lemma abstract_invariant:
  assumes "invariant_system ainit astep ainv" and "reachable cinit cstep c"
  shows "ainv (abst c)"
  using invariant_system.reachable_inv [OF assms(1) simulates [OF assms(2)]] .

end


section \<open>The book\<close>

record book =
  bk_cfgs :: "TunnelConfig list"
  bk_live :: "string \<rightharpoonup> TunnelConfig"

definition known_mode :: "TunnelConfig \<Rightarrow> bool" where
  "known_mode tc \<longleftrightarrow> tc_Mode tc \<in> {''local'', ''dynamic'', ''remote''}"

definition bk_find :: "string \<Rightarrow> book \<Rightarrow> TunnelConfig option" where
  "bk_find name b = find (\<lambda>tc. tc_Name tc = name) (bk_cfgs b)"

definition bk_start :: "TunnelConfig \<Rightarrow> book \<Rightarrow> error option \<times> book" where
  "bk_start tc b =
     (if bk_live b (tc_Name tc) \<noteq> None then (None, b)
      else if known_mode tc then (None, b\<lparr>bk_live := (bk_live b)(tc_Name tc \<mapsto> tc)\<rparr>)
      else (Some (Errorf (''unknown mode '' @ quote (tc_Mode tc))), b))"

text \<open>Starting all wanted tunnels: a running one stays, of several with one name the first is started.\<close>

definition bk_start_all :: "(TunnelConfig \<Rightarrow> bool) \<Rightarrow> book \<Rightarrow> book" where
  "bk_start_all want b = b\<lparr>bk_live := (\<lambda>n. case bk_live b n of
       Some tc \<Rightarrow> Some tc
     | None \<Rightarrow> find (\<lambda>tc. tc_Name tc = n \<and> want tc \<and> known_mode tc) (bk_cfgs b))\<rparr>"

definition bk_stop :: "string \<Rightarrow> book \<Rightarrow> book" where
  "bk_stop name b = b\<lparr>bk_live := (bk_live b)(name := None)\<rparr>"

definition bk_stop_all :: "(TunnelConfig \<Rightarrow> bool) \<Rightarrow> book \<Rightarrow> book" where
  "bk_stop_all want b = b\<lparr>bk_live := (\<lambda>n. case bk_live b n of
       Some tc \<Rightarrow> if want tc then None else Some tc | None \<Rightarrow> None)\<rparr>"

text \<open>Changing the first configuration of a name, and deleting it.\<close>

fun map_first :: "(TunnelConfig \<Rightarrow> TunnelConfig list) \<Rightarrow> string \<Rightarrow> TunnelConfig list \<Rightarrow> TunnelConfig list" where
  "map_first f name [] = []"
| "map_first f name (tc # tcs) = (if tc_Name tc = name then f tc @ tcs else tc # map_first f name tcs)"

definition bk_switch :: "bool \<Rightarrow> string \<Rightarrow> book \<Rightarrow> book" where
  "bk_switch on name b = b\<lparr>bk_cfgs := map_first (\<lambda>tc. [tc\<lparr>tc_Autostart := on\<rparr>]) name (bk_cfgs b)\<rparr>"

definition bk_delete :: "string \<Rightarrow> book \<Rightarrow> book" where
  "bk_delete name b = b\<lparr>bk_cfgs := map_first (\<lambda>_. []) name (bk_cfgs b)\<rparr>"

datatype order =
    OStop | OStopGroup string | OStartGroup string | OAdd TunnelConfig | ORemove string | OEnable string
  | ODisable string | ORestart string | OSave | OReload

text \<open>
  The meaning of an order. \<open>wr ts\<close> is the error of writing the configuration file with
  the tunnels \<open>ts\<close>, \<open>rd\<close> what reading it gives. A failed write leaves the change in
  the book and nothing is started or stopped for it.
\<close>

fun obey :: "order \<Rightarrow> (TunnelConfig list \<Rightarrow> error option) \<Rightarrow> Config res \<Rightarrow> book \<Rightarrow> error option \<times> book" where
  "obey OStop wr rd b = (None, bk_stop_all (\<lambda>_. True) b)"
| "obey (OStopGroup g) wr rd b = (None, bk_stop_all (\<lambda>tc. tc_Group tc = g) b)"
| "obey (OStartGroup g) wr rd b = (None, bk_start_all (\<lambda>tc. tc_Group tc = g) b)"
| "obey (OAdd tc) wr rd b =
     (if bk_find (tc_Name tc) b \<noteq> None
      then (Some (Errorf (''tunnel '' @ quote (tc_Name tc) @ '' already exists'')), b)
      else let b1 = b\<lparr>bk_cfgs := bk_cfgs b @ [tc]\<rparr> in
        case wr (bk_cfgs b1) of
          Some e \<Rightarrow> (Some (Wrap ''save config'' e), b1)
        | None \<Rightarrow> if tc_Autostart tc then bk_start tc b1 else (None, b1))"
| "obey (ORemove n) wr rd b =
     (let b1 = bk_stop n b in
      if bk_find n b = None then (Some (not_found n), b1)
      else (wr (bk_cfgs (bk_delete n b1)), bk_delete n b1))"
| "obey (OEnable n) wr rd b =
     (case bk_find n b of
        None \<Rightarrow> (Some (not_found n), b)
      | Some tc \<Rightarrow>
          let b1 = bk_switch True n b in
          case wr (bk_cfgs b1) of
            Some e \<Rightarrow> (Some (Wrap ''save config'' e), b1)
          | None \<Rightarrow> bk_start (tc\<lparr>tc_Autostart := True\<rparr>) b1)"
| "obey (ODisable n) wr rd b =
     (if bk_find n b = None then (Some (not_found n), b)
      else let b1 = bk_switch False n b in
        case wr (bk_cfgs b1) of
          Some e \<Rightarrow> (Some (Wrap ''save config'' e), b1)
        | None \<Rightarrow> (None, bk_stop n b1))"
| "obey (ORestart n) wr rd b =
     (case bk_find n b of None \<Rightarrow> (Some (not_found n), b) | Some tc \<Rightarrow> bk_start tc (bk_stop n b))"
| "obey OSave wr rd b = (wr (bk_cfgs b), b)"
| "obey OReload wr rd b =
     (case rd of
        Inl e \<Rightarrow> (Some (Wrap ''reload config'' e), b)
      | Inr cfg \<Rightarrow> (None, bk_start_all tc_Autostart \<lparr>bk_cfgs = Tunnels cfg, bk_live = Map.empty\<rparr>))"

text \<open>The order a control request carries; \<open>None\<close> for queries and for requests that are refused.\<close>

definition order_of :: "json_api \<Rightarrow> Request \<Rightarrow> order option" where
  "order_of js req =
     (let p = req_Params req; ok = (\<lambda>r f. case r of Inl _ \<Rightarrow> None | Inr x \<Rightarrow> Some (f x)) in
      if req_Method req = ''stop'' then Some OStop
      else if req_Method req = ''stop-group'' then ok (js_group js p) OStopGroup
      else if req_Method req = ''start-group'' then ok (js_group js p) OStartGroup
      else if req_Method req = ''add'' then (case js_tunnel js p of Inl _ \<Rightarrow> None | Inr tc \<Rightarrow> Some (OAdd tc))
      else if req_Method req = ''remove'' then ok (js_name js p) ORemove
      else if req_Method req = ''enable'' then ok (js_name js p) OEnable
      else if req_Method req = ''disable'' then ok (js_name js p) ODisable
      else if req_Method req = ''restart'' then ok (js_name js p) ORestart
      else if req_Method req = ''save'' then Some OSave
      else if req_Method req = ''reload'' then Some OReload
      else None)"


section \<open>The book of a manager\<close>

definition live_of :: "Manager \<Rightarrow> string \<rightharpoonup> TunnelConfig" where
  "live_of m n = map_option (\<lambda>r. mt_cfg (m_mts m ! r)) (map_of (m_tunnels m) n)"

definition book_of :: "Manager \<Rightarrow> book" where
  "book_of m = \<lparr>bk_cfgs = Tunnels (m_cfg m), bk_live = live_of m\<rparr>"

definition write_answer :: "(Config \<Rightarrow> string res) \<Rightarrow> Manager \<Rightarrow> TunnelConfig list \<Rightarrow> error option" where
  "write_answer marshal m ts = fst (SaveConfig marshal (m_os m) ((m_cfg m)\<lparr>Tunnels := ts\<rparr>) (m_cfgPath m))"

definition read_answer :: "(string \<Rightarrow> Config res) \<Rightarrow> Manager \<Rightarrow> Config res" where
  "read_answer unmarshal m = LoadConfig unmarshal (m_os m) (m_cfgPath m)"

lemma book_of_sel [simp]: "bk_cfgs (book_of m) = Tunnels (m_cfg m)" "bk_live (book_of m) = live_of m"
  by (simp_all add: book_of_def)

lemma book_of_eqI:
  "Tunnels (m_cfg m) = bk_cfgs b \<Longrightarrow> (\<And>n. live_of m n = bk_live b n) \<Longrightarrow> book_of m = b"
  by (cases b) (simp add: book_of_def fun_eq_iff)

lemma live_of_cong: "m_tunnels m' = m_tunnels m \<Longrightarrow> m_mts m' = m_mts m \<Longrightarrow> live_of m' = live_of m"
  by (simp add: live_of_def fun_eq_iff)

lemma select_runFn_mode:
  "select_runFn tc = Inl e \<longleftrightarrow> \<not> known_mode tc \<and> e = Errorf (''unknown mode '' @ quote (tc_Mode tc))"
  "(\<exists>run. select_runFn tc = Inr run) \<longleftrightarrow> known_mode tc"
  by (auto simp: select_runFn_def known_mode_def)

lemma startOne_book:
  assumes "mgr_wf m"
  shows "fst (startOne pd tc m) = fst (bk_start tc (book_of m))"
    and "book_of (snd (startOne pd tc m)) = snd (bk_start tc (book_of m))"
proof -
  show "fst (startOne pd tc m) = fst (bk_start tc (book_of m))"
    using select_runFn_mode [of tc]
    by (auto simp: startOne_def bk_start_def live_of_def Let_def split: sum.splits)
  show "book_of (snd (startOne pd tc m)) = snd (bk_start tc (book_of m))"
  proof (cases "map_of (m_tunnels m) (tc_Name tc) = None \<and> known_mode tc")
    case True
    then obtain run where run: "select_runFn tc = Inr run" using select_runFn_mode(2) by blast
    have "map_of (m_tunnels m) n = Some r \<Longrightarrow> r < length (m_mts m)" for n r
      using assms by (auto simp: mgr_wf_def dest!: map_of_SomeD)
    with True run show ?thesis
      by (intro book_of_eqI)
         (auto simp: startOne_def bk_start_def live_of_def Let_def update_conv' nth_append intro!: option.map_cong)
  next
    case False
    then have "snd (startOne pd tc m) = m"
      using select_runFn_mode(2) [of tc] by (auto simp: startOne_def split: sum.splits)
    with False show ?thesis by (auto simp: bk_start_def live_of_def)
  qed
qed

lemma start_loop_book:
  assumes "mgr_wf m" and "set tcs \<subseteq> set (Tunnels (m_cfg m))"
  shows "m_cfg (start_loop pd want tcs m) = m_cfg m"
    and "live_of (start_loop pd want tcs m) n = (case live_of m n of Some tc \<Rightarrow> Some tc
       | None \<Rightarrow> find (\<lambda>tc. tc_Name tc = n \<and> want tc \<and> known_mode tc) tcs)"
proof -
  show "m_cfg (start_loop pd want tcs m) = m_cfg m" using start_loop_wf [OF assms] by simp
  show "live_of (start_loop pd want tcs m) n = (case live_of m n of Some tc \<Rightarrow> Some tc
       | None \<Rightarrow> find (\<lambda>tc. tc_Name tc = n \<and> want tc \<and> known_mode tc) tcs)"
    using assms
  proof (induction tcs arbitrary: m)
    case (Cons tc tcs)
    obtain e m1 where m1: "startOne pd tc m = (e, m1)" by fastforce
    have "tc_Name tc \<in> set (cfg_names m)" using Cons.prems(2) by (auto simp: cfg_names_def)
    note wf1 = startOne_wf [OF Cons.prems(1) this m1]
    have "live_of m1 n = bk_live (snd (bk_start tc (book_of m))) n"
      using startOne_book(2) [OF Cons.prems(1), of pd tc] m1 by (metis book_of_sel(2) snd_conv)
    with Cons.IH [of m1] Cons.IH [of m] Cons.prems wf1 m1 show ?case
      by (auto simp: bk_start_def split: option.splits if_splits)
  qed (simp split: option.splits)
qed

lemma startGroup_is_start: "startGroup_loop pd g tcs m = start_loop pd (\<lambda>tc. tc_Group tc = g) tcs m"
proof (induction tcs arbitrary: m)
  case (Cons tc tcs)
  have "snd (startOne pd tc m) = m" if "map_of (m_tunnels m) (tc_Name tc) \<noteq> None"
    using that by (simp add: startOne_def)
  with Cons show ?case by auto
qed simp

lemma start_all_book:
  assumes "mgr_wf m"
  shows "book_of (startLocked pd m) = bk_start_all tc_Autostart (book_of m)"
    and "book_of (StartGroup pd g m) = bk_start_all (\<lambda>tc. tc_Group tc = g) (book_of m)"
  using start_loop_book [OF assms order_refl]
  by (auto simp: startLocked_def StartGroup_def startGroup_is_start bk_start_all_def intro!: book_of_eqI
      split: option.splits)

lemma stop_loop_book:
  assumes "mgr_wf m"
  shows "\<exists>m'. stop_loop (\<lambda>mt. want (mt_cfg mt)) (m_tunnels m) m = Some m' \<and> mgr_wf m' \<and> same_rest m m'
     \<and> book_of m' = bk_stop_all want (book_of m)"
proof -
  obtain m' where m': "stop_loop (\<lambda>mt. want (mt_cfg mt)) (m_tunnels m) m = Some m'" "mgr_wf m'" "same_rest m m'"
      "m_tunnels m' = filter (\<lambda>e. \<not> want (mt_cfg (m_mts m ! snd e))) (m_tunnels m)"
      "\<forall>(n, r)\<in>set (m_tunnels m). m_mts m' ! r =
          (if want (mt_cfg (m_mts m ! r)) then (m_mts m ! r)\<lparr>mt_cancelled := True\<rparr> else m_mts m ! r)"
    using stop_all_ok [OF assms, of "\<lambda>mt. want (mt_cfg mt)"] by auto
  have d: "distinct (map fst (m_tunnels m))" using assms by (simp add: mgr_wf_def)
  have cfg: "mt_cfg (m_mts m' ! r) = mt_cfg (m_mts m ! r)" if "map_of (m_tunnels m) n = Some r" for n r
    using bspec [OF m'(5) map_of_SomeD [OF that]] by simp
  have "live_of m' n = bk_live (bk_stop_all want (book_of m)) n" for n
  proof (cases "map_of (m_tunnels m) n")
    case None
    then have "map_of (m_tunnels m') n = None" by (auto simp: m'(4) map_of_eq_None_iff)
    with None show ?thesis by (simp add: live_of_def bk_stop_all_def)
  next
    case (Some r)
    have "map_of (m_tunnels m') n = (if want (mt_cfg (m_mts m ! r)) then None else Some r)"
      using d Some map_of_SomeD [OF Some] unfolding m'(4)
      by (auto simp: map_of_eq_None_iff distinct_map_filter dest: eq_key_imp_eq_value intro!: map_of_is_SomeI)
    with Some cfg [OF Some] show ?thesis by (simp add: live_of_def bk_stop_all_def)
  qed
  then have "book_of m' = bk_stop_all want (book_of m)"
    using m'(3) by (intro book_of_eqI) (simp_all add: same_rest_def bk_stop_all_def)
  with m' show ?thesis by blast
qed

lemma map_of_filter_fst: "map_of (filter (\<lambda>e. fst e \<noteq> k) es) n = (if n = k then None else map_of es n)"
  by (induction es) auto

lemma stop_if_running_book:
  assumes "mgr_wf m"
  shows "\<exists>m'. stop_if_running name m = Some m' \<and> mgr_wf m' \<and> same_rest m m' \<and> book_of m' = bk_stop name (book_of m)"
proof (cases "map_of (m_tunnels m) name")
  case None
  then have "(live_of m)(name := None) = live_of m" by (simp add: live_of_def fun_eq_iff)
  with None assms show ?thesis
    by (auto simp: stop_if_running_def same_rest_def bk_stop_def intro!: book_of_eqI)
next
  case (Some r)
  then have in_t: "(name, r) \<in> set (m_tunnels m)" by (rule map_of_SomeD)
  obtain m' where m': "stopTunnelLocked name r m = Some m'" "mgr_wf m'" "same_rest m m'"
      "m_tunnels m' = filter (\<lambda>e. fst e \<noteq> name) (m_tunnels m)"
      "m_mts m' = (m_mts m)[r := (m_mts m ! r)\<lparr>mt_cancelled := True\<rparr>]"
    using stopTunnelLocked_ok [OF assms in_t] by blast
  have "mt_cfg (m_mts m' ! q) = mt_cfg (m_mts m ! q)" for q
    unfolding m'(5) by (cases "q = r"; cases "r < length (m_mts m)") (auto simp: list_update_beyond)
  moreover have "map_of (m_tunnels m') n = (if n = name then None else map_of (m_tunnels m) n)" for n
    unfolding m'(4) by (rule map_of_filter_fst)
  ultimately have "book_of m' = bk_stop name (book_of m)"
    using m'(3) by (intro book_of_eqI) (auto simp: live_of_def bk_stop_def same_rest_def)
  with m' Some show ?thesis by (auto simp: stop_if_running_def)
qed

text \<open>The first configuration of a name, by index and by search.\<close>

lemma findConfig_find:
  "bk_find name (book_of m) =
     (if findConfig name m < 0 then None else Some (Tunnels (m_cfg m) ! nat (findConfig name m)))"
proof (cases "findConfig name m < 0")
  case True
  then show ?thesis by (auto simp: bk_find_def find_None_iff findConfig_neg cfg_names_def)
next
  case False
  let ?i = "nat (findConfig name m)" and ?ts = "Tunnels (m_cfg m)"
  note i = findConfig_nth [OF False]
  have "tc_Name (?ts ! j) \<noteq> name" if "j < ?i" for j
    using i(1,3) that nth_mem [of j "take ?i ?ts"] by (auto simp del: nth_mem)
  with False i show ?thesis by (auto simp: bk_find_def find_Some_iff intro!: exI [of _ ?i])
qed

lemma map_first_nth:
  "k < length ts \<Longrightarrow> tc_Name (ts ! k) = name \<Longrightarrow> name \<notin> set (map tc_Name (take k ts)) \<Longrightarrow>
     map_first f name ts = take k ts @ f (ts ! k) @ drop (Suc k) ts"
proof (induction ts arbitrary: k)
  case (Cons tc ts)
  then show ?case by (cases k) auto
qed simp

lemma set_autostart_book:
  assumes "\<not> findConfig name m < 0"
  shows "book_of (set_autostart b (findConfig name m) m) = bk_switch b name (book_of m)"
proof -
  note i = findConfig_nth [OF assms]
  show ?thesis
    using map_first_nth [OF i, of "\<lambda>tc. [tc\<lparr>tc_Autostart := b\<rparr>]"] i(1)
    by (intro book_of_eqI)
       (simp_all add: set_autostart_def bk_switch_def Let_def upd_conv_take_nth_drop live_of_def)
qed

lemma save_cfg_answer:
  assumes "m_os m0 = m_os m" and "m_cfgPath m0 = m_cfgPath m" and "Global (m_cfg m0) = Global (m_cfg m)"
  shows "fst (save_cfg marshal m0) = write_answer marshal m (Tunnels (m_cfg m0))"
    and "book_of (snd (save_cfg marshal m0)) = book_of m0"
proof -
  have "(m_cfg m)\<lparr>Tunnels := Tunnels (m_cfg m0)\<rparr> = m_cfg m0" using assms(3) by simp
  then show "fst (save_cfg marshal m0) = write_answer marshal m (Tunnels (m_cfg m0))"
    using assms(1,2) by (simp add: save_cfg_def write_answer_def split: prod.splits)
  show "book_of (snd (save_cfg marshal m0)) = book_of m0"
    by (simp add: save_cfg_def book_of_def live_of_def fun_eq_iff split: prod.splits)
qed

lemma live_of_set [simp]: "live_of (set_tunnels ts m) = live_of m" "live_of (set_autostart b i m) = live_of m"
  by (rule live_of_cong; simp)+

lemma set_tunnels_global [simp]:
  "Global (m_cfg (set_tunnels ts m)) = Global (m_cfg m)" "Global (m_cfg (set_autostart b i m)) = Global (m_cfg m)"
  by (simp_all add: set_tunnels_def set_autostart_def Let_def)


section \<open>Every order is carried out\<close>

abbreviation obeys :: "(error option \<times> Manager) option \<Rightarrow> error option \<times> book \<Rightarrow> bool" where
  "obeys r q \<equiv> \<exists>e m'. r = Some (e, m') \<and> q = (e, book_of m')"

lemma Add_book:
  assumes "mgr_wf m"
  shows "obeys (Some (mgr_Add pd marshal tc m)) (obey (OAdd tc) (write_answer marshal m) rd (book_of m))"
proof (cases "findConfig (tc_Name tc) m < 0")
  case False
  then show ?thesis by (simp add: mgr_Add_def findConfig_find)
next
  case True
  let ?m0 = "set_tunnels (Tunnels (m_cfg m) @ [tc]) m"
  obtain e m1 where s: "save_cfg marshal ?m0 = (e, m1)" by fastforce
  have b: "book_of ?m0 = (book_of m)\<lparr>bk_cfgs := Tunnels (m_cfg m) @ [tc]\<rparr>"
    by (intro book_of_eqI) (simp_all add: live_of_def)
  have a: "e = write_answer marshal m (Tunnels (m_cfg m) @ [tc])" "book_of m1 = book_of ?m0"
    using save_cfg_answer [of ?m0 m marshal] s by simp_all
  have "mgr_wf ?m0" using assms by (rule set_tunnels_wf [of _ "{}"]) (auto simp: cfg_names_def)
  then have "mgr_wf m1" using s by (rule save_cfg_wf)
  from startOne_book [OF this, of pd tc] a b s True show ?thesis
    by (cases "startOne pd tc m1") (auto simp: mgr_Add_def findConfig_find Let_def split: option.splits)
qed

lemma Remove_book:
  assumes "mgr_wf m"
  shows "obeys (mgr_Remove marshal n m) (obey (ORemove n) (write_answer marshal m) rd (book_of m))"
proof -
  obtain m1 where m1: "stop_if_running n m = Some m1" "same_rest m m1" "book_of m1 = bk_stop n (book_of m)"
    using stop_if_running_book [OF assms, of n] by blast
  have cf: "m_cfg m1 = m_cfg m" using m1(2) by (simp add: same_rest_def)
  then have f: "findConfig n m1 = findConfig n m" by (simp add: findConfig_def)
  show ?thesis
  proof (cases "findConfig n m < 0")
    case True
    with m1 f show ?thesis by (simp add: mgr_Remove_def findConfig_find)
  next
    case False
    let ?i = "nat (findConfig n m)" and ?ts = "Tunnels (m_cfg m)"
    let ?m2 = "set_tunnels (take ?i ?ts @ drop (?i + 1) ?ts) m1"
    obtain e m' where s: "save_cfg marshal ?m2 = (e, m')" by fastforce
    have b: "book_of ?m2 = bk_delete n (bk_stop n (book_of m))"
      using map_first_nth [OF findConfig_nth [OF False], of "\<lambda>_. []"] m1(3)
      by (intro book_of_eqI) (auto simp: bk_delete_def book_of_def bk_stop_def)
    have "e = write_answer marshal m (bk_cfgs (bk_delete n (bk_stop n (book_of m))))" "book_of m' = book_of ?m2"
      using save_cfg_answer [of ?m2 m marshal] s m1(2) b [symmetric] by (simp_all add: same_rest_def)
    with b s m1 f cf False show ?thesis by (simp add: mgr_Remove_def findConfig_find Let_def)
  qed
qed

lemma switched_book:
  assumes "mgr_wf m" and "\<not> findConfig n m < 0" and "save_cfg marshal (set_autostart on (findConfig n m) m) = (e, m1)"
  shows "mgr_wf m1" and "book_of m1 = bk_switch on n (book_of m)"
    and "e = write_answer marshal m (bk_cfgs (bk_switch on n (book_of m)))"
    and "m_tunnels m1 = m_tunnels m"
    and "Tunnels (m_cfg m1) ! nat (findConfig n m) = (Tunnels (m_cfg m) ! nat (findConfig n m))\<lparr>tc_Autostart := on\<rparr>"
proof -
  let ?m0 = "set_autostart on (findConfig n m) m"
  show "mgr_wf m1" using set_autostart_wf [OF assms(1,2)] assms(3) by (rule save_cfg_wf)
  note b = set_autostart_book [OF assms(2), of on]
  show "book_of m1 = bk_switch on n (book_of m)"
    using save_cfg_answer(2) [of ?m0 m marshal] assms(3) b by simp
  have "Tunnels (m_cfg ?m0) = bk_cfgs (bk_switch on n (book_of m))" by (simp flip: b)
  then show "e = write_answer marshal m (bk_cfgs (bk_switch on n (book_of m)))"
    using save_cfg_answer(1) [of ?m0 m marshal] assms(3) by simp
  show "m_tunnels m1 = m_tunnels m"
    "Tunnels (m_cfg m1) ! nat (findConfig n m) = (Tunnels (m_cfg m) ! nat (findConfig n m))\<lparr>tc_Autostart := on\<rparr>"
    using save_cfg_keeps [OF assms(3)] set_autostart_nth [OF assms(2)] by simp_all
qed

lemma Enable_book:
  assumes "mgr_wf m"
  shows "obeys (Some (mgr_Enable pd marshal n m)) (obey (OEnable n) (write_answer marshal m) rd (book_of m))"
proof (cases "findConfig n m < 0")
  case True
  then show ?thesis by (simp add: mgr_Enable_def findConfig_find)
next
  case False
  let ?tc = "(Tunnels (m_cfg m) ! nat (findConfig n m))\<lparr>tc_Autostart := True\<rparr>"
  obtain e m1 where s: "save_cfg marshal (set_autostart True (findConfig n m) m) = (e, m1)" by fastforce
  note b = switched_book [OF assms False s]
  have n: "tc_Name ?tc = n" using findConfig_nth(2) [OF False] by simp
  have l: "bk_live (bk_switch True n (book_of m)) = live_of m" by (simp add: bk_switch_def)
  have "startOne pd ?tc m1 = (None, m1)" if "map_of (m_tunnels m1) n \<noteq> None"
    using that n by (simp add: startOne_def)
  then have "mgr_Enable pd marshal n m =
      (case e of Some e \<Rightarrow> (Some (Wrap ''save config'' e), m1) | None \<Rightarrow> startOne pd ?tc m1)"
    using False s b(5) by (auto simp: mgr_Enable_def Let_def split: option.splits)
  with startOne_book [OF b(1), of pd ?tc] b(2,3) False show ?thesis
    by (cases "startOne pd ?tc m1") (auto simp: findConfig_find Let_def split: option.splits)
qed

lemma Disable_book:
  assumes "mgr_wf m"
  shows "obeys (mgr_Disable marshal n m) (obey (ODisable n) (write_answer marshal m) rd (book_of m))"
proof (cases "findConfig n m < 0")
  case True
  then show ?thesis by (simp add: mgr_Disable_def findConfig_find)
next
  case False
  obtain e m1 where s: "save_cfg marshal (set_autostart False (findConfig n m) m) = (e, m1)" by fastforce
  note b = switched_book [OF assms False s]
  obtain m2 where "stop_if_running n m1 = Some m2" "book_of m2 = bk_stop n (book_of m1)"
    using stop_if_running_book [OF b(1), of n] by blast
  with False s b(2,3) show ?thesis
    by (auto simp: mgr_Disable_def findConfig_find Let_def split: option.splits)
qed

lemma Restart_book:
  assumes "mgr_wf m"
  shows "obeys (mgr_Restart pd n m) (obey (ORestart n) wr rd (book_of m))"
proof (cases "findConfig n m < 0")
  case True
  then show ?thesis by (simp add: mgr_Restart_def findConfig_find)
next
  case False
  obtain m1 where m1: "stop_if_running n m = Some m1" "mgr_wf m1" "same_rest m m1" "book_of m1 = bk_stop n (book_of m)"
    using stop_if_running_book [OF assms, of n] by blast
  let ?tc = "Tunnels (m_cfg m) ! nat (findConfig n m)"
  from startOne_book [OF m1(2), of pd ?tc] m1 False show ?thesis
    by (cases "startOne pd ?tc m1") (simp add: mgr_Restart_def findConfig_find Let_def same_rest_def)
qed

lemma Reload_book:
  assumes "mgr_wf m"
  shows "obeys (mgr_Reload pd unmarshal m) (obey OReload wr (read_answer unmarshal m) (book_of m))"
proof (cases "LoadConfig unmarshal (m_os m) (m_cfgPath m)")
  case (Inr cfg)
  obtain m1 where m1: "stopLocked m = Some m1" "m_tunnels m1 = []" using stopLocked_ok [OF assms] by blast
  let ?m = "m1\<lparr>m_cfg := cfg\<rparr>"
  have "mgr_wf ?m" using m1(2) by (simp add: mgr_wf_def)
  moreover have "book_of ?m = \<lparr>bk_cfgs = Tunnels cfg, bk_live = Map.empty\<rparr>"
    using m1(2) by (intro book_of_eqI) (simp_all add: live_of_def)
  ultimately show ?thesis
    using start_all_book(1) [of ?m pd] Inr m1(1) by (simp add: mgr_Reload_def read_answer_def)
qed (simp add: mgr_Reload_def read_answer_def)

lemma Stop_book:
  assumes "mgr_wf m"
  shows "\<exists>m'. stopLocked m = Some m' \<and> obey OStop wr rd (book_of m) = (None, book_of m')"
    and "\<exists>m'. StopGroup g m = Some m' \<and> obey (OStopGroup g) wr rd (book_of m) = (None, book_of m')"
  using stop_loop_book [OF assms, of "\<lambda>_. True"] stop_loop_book [OF assms, of "\<lambda>tc. tc_Group tc = g"]
  by (auto simp: stopLocked_def StopGroup_def)

section \<open>The manager refines the book\<close>

definition carried_out ::
  "json_api \<Rightarrow> (Config \<Rightarrow> string res) \<Rightarrow> (string \<Rightarrow> Config res) \<Rightarrow> Request \<Rightarrow> Manager \<Rightarrow>
     (Response \<times> Manager) option \<Rightarrow> bool" where
  "carried_out js marshal unmarshal req m r \<longleftrightarrow>
     (case order_of js req of
        Some ord \<Rightarrow>
          (let q = obey ord (write_answer marshal m) (read_answer unmarshal m) (book_of m) in
           \<exists>m'. r = Some (reply req (fst q), m') \<and> book_of m' = snd q)
      | None \<Rightarrow> \<forall>resp m'. r = Some (resp, m') \<longrightarrow> m' = m)"

declare obey.simps [simp del]

lemma HandleControl_carried_out:
  assumes "mgr_wf m"
  shows "carried_out js marshal unmarshal req m (HandleControl js pd marshal unmarshal lb req m)"
proof -
  let ?ok = "carried_out js marshal unmarshal req m (HandleControl js pd marshal unmarshal lb req m)"
  let ?wr = "write_answer marshal m" and ?rd = "read_answer unmarshal m"
  note defs = carried_out_def HandleControl_def order_of_def with_params_def Let_def
  have a: "\<exists>m'. map_option (\<lambda>(e, m'). (reply req e, m')) r = Some (reply req (fst q), m') \<and> book_of m' = snd q"
    if "obeys r q" for r q using that by auto
  have ?ok if "req_Method req = ''stop-group''"
    using Stop_book(2) [OF assms, of _ ?wr ?rd] that by (fastforce simp: defs split: sum.splits)
  moreover have ?ok if "req_Method req = ''start-group''"
    using start_all_book(2) [OF assms, of pd] that by (simp add: defs obey.simps split: sum.splits)
  moreover have ?ok if "req_Method req = ''add''"
    using a [OF Add_book [OF assms, of pd marshal _ ?rd]] that by (simp add: defs split: sum.splits)
  moreover have ?ok if "req_Method req = ''remove''"
    using a [OF Remove_book [OF assms, of marshal _ ?rd]] that by (simp add: defs split: sum.splits)
  moreover have ?ok if "req_Method req = ''enable''"
    using a [OF Enable_book [OF assms, of pd marshal _ ?rd]] that by (simp add: defs split: sum.splits)
  moreover have ?ok if "req_Method req = ''disable''"
    using a [OF Disable_book [OF assms, of marshal _ ?rd]] that by (simp add: defs split: sum.splits)
  moreover have ?ok if "req_Method req = ''restart''"
    using a [OF Restart_book [OF assms, of pd _ ?wr ?rd]] that by (simp add: defs split: sum.splits)
  moreover have ?ok if "req_Method req = ''stop''"
    using Stop_book(1) [OF assms, of ?wr ?rd] that by (auto simp: defs)
  moreover have ?ok if "req_Method req = ''reload''"
    using a [OF Reload_book [OF assms, of pd unmarshal ?wr]] that by (simp add: defs)
  moreover have ?ok if "req_Method req = ''save''"
    using save_cfg_answer [of m m marshal] that by (cases "save_cfg marshal m") (simp add: defs obey.simps)
  moreover have ?ok if "req_Method req \<notin> {''stop-group'', ''start-group'', ''add'', ''remove'', ''enable'', ''disable'',
      ''restart'', ''stop'', ''reload'', ''save'', ''logs''}"
    using that by (auto simp: defs split: sum.splits if_splits)
  moreover have ?ok if "req_Method req = ''logs''"
    using that by (cases "js_logs js (req_Params req)") (auto simp: defs)
  ultimately show ?thesis by blast
qed

text \<open>A codec of the parameters for the examples: names as they are, nothing else.\<close>

definition demo_js :: json_api where
  "demo_js = \<lparr>js_group = Inr, js_name = Inr, js_tunnel = (\<lambda>_. Inl (Errorf ''json'')), js_logs = (\<lambda>s. Inr (s, 0)),
     js_list = (\<lambda>_. Inr ''[]''), js_status = (\<lambda>_. Inr ''{}''), js_lines = (\<lambda>_. Inr ''[]'')\<rparr>"

text \<open>The steps of the book, and the steps of the daemon that are none.\<close>

inductive book_step :: "book \<Rightarrow> book \<Rightarrow> bool" where
  bs_order: "book_step b (snd (obey ord wr rd b))"
| bs_start: "book_step b (bk_start_all tc_Autostart b)"

definition book_init :: "book \<Rightarrow> bool" where
  "book_init b \<longleftrightarrow> bk_live b = Map.empty"

lemma upd_mt_book:
  assumes "\<And>mt. mt_cfg (f mt) = mt_cfg mt"
  shows "book_of (upd_mt r f m) = book_of m"
proof -
  have "mt_cfg ((m_mts m)[r := f (m_mts m ! r)] ! q) = mt_cfg (m_mts m ! q)" for q
    using assms by (cases "q = r"; cases "r < length (m_mts m)") (auto simp: list_update_beyond)
  then show ?thesis by (simp add: book_of_def live_of_def upd_mt_def fun_eq_iff)
qed

lemma manager_step_book:
  assumes "mgr_wf m" and "manager_step m m'"
  shows "book_of m' = book_of m \<or> book_step (book_of m) (book_of m')"
  using assms(2)
proof (cases rule: manager_step.cases)
  case (ms_control js pd marshal unmarshal lb req resp)
  with HandleControl_carried_out [OF assms(1), of js marshal unmarshal req pd lb] show ?thesis
    by (auto simp: carried_out_def Let_def intro: bs_order split: option.splits)
next
  case (ms_start pd)
  with start_all_book(1) [OF assms(1)] show ?thesis by (auto intro: bs_start)
next
  case (ms_reload pd unmarshal e)
  then obtain "(e, book_of m') = obey OReload (\<lambda>_. None) (read_answer unmarshal m) (book_of m)"
    using Reload_book [OF assms(1), of pd unmarshal "\<lambda>_. None"] by auto
  then show ?thesis using bs_order by (metis snd_conv)
next
  case (ms_tick up n e now mt r)
  then show ?thesis
    by (auto simp: runRemoteClient_tick_def Let_def upd_mt_book split: option.splits)
next
  case (ms_os os)
  then show ?thesis by (simp add: book_of_def live_of_def fun_eq_iff)
qed (auto simp: goroutine_begin_def goroutine_end_def runRemoteClientMulti_tick_def Let_def upd_mt_book
    split: option.splits prod.splits)

interpretation managed: simulation manager_init manager_step mgr_wf book_init book_step book_of
proof
  show "reachable manager_init manager_step m \<Longrightarrow> mgr_wf m" for m by (rule mgr.reachable_inv)
  show "manager_init m \<Longrightarrow> book_init (book_of m)" for m
    by (auto simp: manager_init_def NewManager_def book_init_def live_of_def fun_eq_iff)
  show "mgr_wf m \<Longrightarrow> manager_step m m' \<Longrightarrow> book_of m' = book_of m \<or> book_step (book_of m) (book_of m')" for m m'
    by (rule manager_step_book)
qed

text \<open>What holds of every book: a running tunnel is configured by name and has a mode that exists.\<close>

definition book_wf :: "book \<Rightarrow> bool" where
  "book_wf b \<longleftrightarrow> (\<forall>n tc. bk_live b n = Some tc \<longrightarrow>
     tc_Name tc = n \<and> known_mode tc \<and> n \<in> tc_Name ` set (bk_cfgs b))"

lemma find_SomeD: "find P xs = Some x \<Longrightarrow> x \<in> set xs \<and> P x"
  by (auto simp: find_Some_iff)

lemma bk_start_wf:
  assumes "book_wf b" and "tc_Name tc \<in> tc_Name ` set (bk_cfgs b)"
  shows "book_wf (snd (bk_start tc b))"
  using assms by (auto simp: book_wf_def bk_start_def)

lemma bk_start_all_wf: "book_wf b \<Longrightarrow> book_wf (bk_start_all want b)"
  by (fastforce simp: book_wf_def bk_start_all_def dest: find_SomeD split: option.splits)

lemma bk_stop_wf: "book_wf b \<Longrightarrow> book_wf (bk_stop n b)" "book_wf b \<Longrightarrow> book_wf (bk_stop_all want b)"
  by (auto simp: book_wf_def bk_stop_def bk_stop_all_def split: option.splits if_splits)

lemma map_first_names:
  "(\<And>tc. tc_Name ` set (f tc) = {tc_Name tc}) \<Longrightarrow> tc_Name ` set (map_first f n ts) = tc_Name ` set ts"
  "tc_Name ` set ts - {n} \<subseteq> tc_Name ` set (map_first f n ts)"
  by (induction ts) (auto simp: image_Un)

lemma obey_wf:
  assumes "book_wf b"
  shows "book_wf (snd (obey ord wr rd b))"
proof (cases ord)
  case (OAdd tc)
  have "book_wf (b\<lparr>bk_cfgs := bk_cfgs b @ [tc]\<rparr>)" using assms by (auto simp: book_wf_def)
  then show ?thesis
    using OAdd assms bk_start_wf [of "b\<lparr>bk_cfgs := bk_cfgs b @ [tc]\<rparr>" tc]
    by (auto simp: obey.simps Let_def split: option.splits)
next
  case (ORemove n)
  have "book_wf (bk_delete n (bk_stop n b))"
    using assms map_first_names(2) [of "bk_cfgs b" n "\<lambda>_. []"]
    by (fastforce simp: book_wf_def bk_delete_def bk_stop_def split: if_splits)
  then show ?thesis using ORemove bk_stop_wf(1) [OF assms] by (simp add: obey.simps Let_def)
next
  case (OEnable n)
  have sw: "book_wf (bk_switch True n b)"
    using assms map_first_names(1) [of "\<lambda>tc. [tc\<lparr>tc_Autostart := True\<rparr>]" n "bk_cfgs b"]
    by (simp add: book_wf_def bk_switch_def)
  have "tc_Name tc \<in> tc_Name ` set (bk_cfgs (bk_switch True n b))" if "bk_find n b = Some tc" for tc
    using find_SomeD [of _ "bk_cfgs b" tc] that map_first_names(1) [of "\<lambda>tc. [tc\<lparr>tc_Autostart := True\<rparr>]" n "bk_cfgs b"]
    by (auto simp: bk_find_def bk_switch_def)
  with OEnable assms sw bk_start_wf [OF sw] show ?thesis
    by (auto simp: obey.simps Let_def split: option.splits)
next
  case (ODisable n)
  have "book_wf (bk_switch False n b)"
    using assms map_first_names(1) [of "\<lambda>tc. [tc\<lparr>tc_Autostart := False\<rparr>]" n "bk_cfgs b"]
    by (simp add: book_wf_def bk_switch_def)
  then show ?thesis using ODisable assms bk_stop_wf(1) by (auto simp: obey.simps Let_def split: option.splits)
next
  case (ORestart n)
  have "tc_Name tc \<in> tc_Name ` set (bk_cfgs (bk_stop n b))" if "bk_find n b = Some tc" for tc
    using find_SomeD [of _ "bk_cfgs b" tc] that by (auto simp: bk_find_def bk_stop_def)
  with ORestart assms bk_start_wf [OF bk_stop_wf(1) [OF assms]] show ?thesis
    by (auto simp: obey.simps split: option.splits)
next
  case OReload
  have "book_wf (bk_start_all tc_Autostart \<lparr>bk_cfgs = ts, bk_live = Map.empty\<rparr>)" for ts
    by (rule bk_start_all_wf) (simp add: book_wf_def)
  with OReload assms show ?thesis by (auto simp: obey.simps split: sum.splits)
qed (use assms bk_stop_wf bk_start_all_wf in \<open>simp_all add: obey.simps\<close>)

interpretation book: invariant_system book_init book_step book_wf
proof
  show "book_init b \<Longrightarrow> book_wf b" for b by (simp add: book_init_def book_wf_def)
  show "book_wf b \<Longrightarrow> book_step b b' \<Longrightarrow> book_wf b'" for b b'
    by (auto elim!: book_step.cases intro!: obey_wf bk_start_all_wf)
qed


section \<open>Properties\<close>

text \<open>
  C3: The manager refines its book. In every reachable state, a control request that
  carries an order does on the manager exactly what the order does on the book of
  configured and running tunnels, and the answer reports the error the book reports;
  every other request leaves the manager as it is. So no order can start a tunnel it
  does not name, lose one, or change the configuration behind the caller's back.
\<close>

theorem manager_refines_book:
  assumes "manager_reachable m"
  shows "carried_out js marshal unmarshal req m (HandleControl js pd marshal unmarshal lb req m)"
  by (rule HandleControl_carried_out [OF mgr.reachable_inv [OF assms]])

theorem manager_refines_book_witness:
  "\<exists>m'. HandleControl demo_js demo_pd demo_marshal demo_unmarshal (NewLogBuffer 0)
       \<lparr>req_Method = ''restart'', req_Params = ''web'', req_ID = 7\<rparr> demo_running
     = Some (reply \<lparr>req_Method = ''restart'', req_Params = ''web'', req_ID = 7\<rparr> None, m')
     \<and> book_of m' = book_of demo_running"
proof -
  let ?req = "\<lparr>req_Method = ''restart'', req_Params = ''web'', req_ID = 7\<rparr>"
  have l: "live_of demo_running ''web'' = Some demo_tc" "\<And>n. n \<noteq> ''web'' \<Longrightarrow> live_of demo_running n = None"
    "bk_find ''web'' (book_of demo_running) = Some demo_tc"
    by (simp_all add: live_of_def demo_running_def startLocked_def demo_mgr_def NewManager_def demo_cfg_def demo_tc_def
      zero_TunnelConfig_def startOne_def select_runFn_def bk_find_def Let_def)
  have "obey (ORestart ''web'') (write_answer demo_marshal demo_running) (read_answer demo_unmarshal demo_running)
      (book_of demo_running) = (None, book_of demo_running)"
    using l by (auto simp: obey.simps bk_start_def bk_stop_def demo_tc_def zero_TunnelConfig_def known_mode_def
        book_of_def fun_eq_iff)
  with manager_refines_book [OF demo_reachable(2), of demo_js demo_marshal demo_unmarshal ?req demo_pd "NewLogBuffer 0"]
  show ?thesis by (auto simp: carried_out_def order_of_def demo_js_def)
qed

text \<open>
  The running tunnels are always accounted for. Whatever sequence of requests,
  signals, goroutine steps and file changes the daemon goes through, its book is one
  the abstract operations can produce, and every running tunnel runs under the name
  of a configured one and in a mode that exists.
\<close>

theorem book_reachable:
  assumes "manager_reachable m"
  shows "reachable book_init book_step (book_of m) \<and> book_wf (book_of m)"
  using managed.simulates [OF assms] managed.abstract_invariant [OF book.invariant_system_axioms assms] by blast

theorem book_reachable_witness:
  "reachable book_init book_step (book_of demo_running) \<and> live_of demo_running ''web'' = Some demo_tc"
  using book_reachable [OF demo_reachable(2)]
  by (simp add: live_of_def demo_running_def startLocked_def demo_mgr_def NewManager_def demo_cfg_def demo_tc_def
      zero_TunnelConfig_def startOne_def select_runFn_def Let_def)

end
