(* ===== verification/Proxies.thy ===== *)
theory Proxies
  imports Relay_Copy Known_Hosts
begin

text \<open>
  The listeners of local tunnels: \<^verbatim>\<open>relay/tcpproxy.go\<close>, \<^verbatim>\<open>relay/chainproxy.go\<close> and
  the health check that watches one (\<^verbatim>\<open>relay/healthcheck.go\<close>). A proxy accepts
  connections until it is closed and hands each to a goroutine. What the code of
  \<^verbatim>\<open>tcpproxy.go\<close> and \<^verbatim>\<open>socks5proxy.go\<close> shares is a record that both extend.
\<close>

section \<open>The common part\<close>

text \<open>
  \<open>px_open\<close> says whether the listener still accepts, \<open>px_done\<close> whether the channel
  \<^verbatim>\<open>done\<close> is closed.
\<close>

record proxy_base =
  px_open :: bool
  px_done :: bool
  px_closed :: bool
  px_stats :: Stats
  px_connCount :: int

text \<open>
  One turn of \<^verbatim>\<open>Serve\<close>, given what \<^verbatim>\<open>Accept\<close> answered: the loop returns, or a goroutine
  handles the connection.
\<close>

datatype 'c accept_turn = ServeEnds "error option" | Handle 'c

definition Serve_answer :: "bool \<Rightarrow> 'c res \<Rightarrow> 'c accept_turn" where
  "Serve_answer closed answer =
     (case answer of
        Inl err \<Rightarrow> if closed then ServeEnds None else ServeEnds (Some err)
      | Inr c \<Rightarrow> Handle c)"

definition add_stats :: "Stats \<Rightarrow> Stats \<Rightarrow> Stats" where
  "add_stats acc s =
     \<lparr>SentBytes = wrap64 (SentBytes acc + SentBytes s), RecvBytes = wrap64 (RecvBytes acc + RecvBytes s),
      SentErr = (if SentErr s \<noteq> None then SentErr s else SentErr acc),
      RecvErr = (if RecvErr s \<noteq> None then RecvErr s else RecvErr acc)\<rparr>"

text \<open>The steps of a handler around \<^verbatim>\<open>Relay\<close>: counting in, adding the statistics, counting out.\<close>

definition handle_begin :: "'a proxy_base_scheme \<Rightarrow> 'a proxy_base_scheme" where
  "handle_begin p = p\<lparr>px_connCount := wrap64 (px_connCount p + 1)\<rparr>"

definition handle_stats :: "Stats \<Rightarrow> 'a proxy_base_scheme \<Rightarrow> 'a proxy_base_scheme" where
  "handle_stats s p = p\<lparr>px_stats := add_stats (px_stats p) s\<rparr>"

definition handle_end :: "'a proxy_base_scheme \<Rightarrow> 'a proxy_base_scheme" where
  "handle_end p = p\<lparr>px_connCount := wrap64 (px_connCount p - 1)\<rparr>"

text \<open>
  \<^verbatim>\<open>Close\<close>: closing the listener again is an error, closing \<^verbatim>\<open>done\<close> happens once.
\<close>

definition px_Close :: "'a proxy_base_scheme \<Rightarrow> error option \<times> 'a proxy_base_scheme" where
  "px_Close p =
     ((if px_open p then None else Some ErrNetClosed), p\<lparr>px_closed := True, px_open := False, px_done := True\<rparr>)"


section \<open>TCP proxy (tcpproxy.go)\<close>

record Proxy = proxy_base +
  px_dialAddr :: string

text \<open>\<open>listen\<close> is what \<^verbatim>\<open>net.Listen\<close> (or \<^verbatim>\<open>tls.Listen\<close>) answers.\<close>

definition proxy_on :: "string \<Rightarrow> Proxy" where
  "proxy_on dialAddr = \<lparr>px_open = True, px_done = False, px_closed = False, px_stats = zero_Stats,
     px_connCount = 0, px_dialAddr = dialAddr\<rparr>"

definition NewProxy :: "(string \<Rightarrow> error option) \<Rightarrow> string \<Rightarrow> string \<Rightarrow> Proxy res" where
  "NewProxy listen listenAddr dialAddr =
     (case listen listenAddr of Some e \<Rightarrow> Inl e | None \<Rightarrow> Inr (proxy_on dialAddr))"

definition NewTLSProxy ::
  "(string \<Rightarrow> tls_Certificate \<Rightarrow> unit res) \<Rightarrow> string \<Rightarrow> string \<Rightarrow> TLSConfig \<Rightarrow> Proxy res" where
  "NewTLSProxy listen listenAddr dialAddr tlsCfg =
     (case TLSListener listen listenAddr tlsCfg of Inl e \<Rightarrow> Inl e | Inr _ \<Rightarrow> Inr (proxy_on dialAddr))"

definition proxy_Serve_turn :: "Proxy \<Rightarrow> endpoint res \<Rightarrow> endpoint accept_turn" where
  "proxy_Serve_turn p answer = Serve_answer (px_closed p) answer"

text \<open>
  \<^verbatim>\<open>handle\<close> up to \<^verbatim>\<open>Relay\<close>: without an upstream the downstream connection is closed and
  nothing is counted. The state of the relay is the one of the goroutine.
\<close>

datatype handled = Refused endpoint | Relayed relay_state

definition close_ep :: "endpoint \<Rightarrow> endpoint" where
  "close_ep c = c\<lparr>ep_conn := conn_Close (ep_conn c)\<rparr>"

definition proxy_handle :: "(string \<Rightarrow> endpoint res) \<Rightarrow> Proxy \<Rightarrow> endpoint \<Rightarrow> handled \<times> Proxy" where
  "proxy_handle dial p downstream =
     (case dial (px_dialAddr p) of
        Inl err \<Rightarrow> (Refused (close_ep downstream), p)
      | Inr upstream \<Rightarrow> (Relayed (Relay_start upstream downstream), handle_begin p))"

text \<open>After \<^verbatim>\<open>Relay\<close>: the statistics, then the deferred calls.\<close>

definition proxy_handle_end :: "Stats \<Rightarrow> relay_state \<Rightarrow> Proxy \<Rightarrow> (endpoint \<times> endpoint) \<times> Proxy" where
  "proxy_handle_end s rl p =
     ((close_ep (end_a rl), close_ep (end_b rl)), handle_end (handle_stats s p))"

definition proxy_Close :: "Proxy \<Rightarrow> error option \<times> Proxy" where
  "proxy_Close p = px_Close p"


section \<open>Chain proxy (chainproxy.go)\<close>

record ChainProxy =
  cp_open :: bool
  cp_hops :: "string list"
  cp_closed :: bool

text \<open>Without hops the code returns neither a proxy nor an error: \<open>Inr None\<close>.\<close>

definition NewChainProxy :: "(string \<Rightarrow> error option) \<Rightarrow> string \<Rightarrow> string list \<Rightarrow> ChainProxy option res" where
  "NewChainProxy listen listenAddr hops =
     (if length hops = 0 then Inr None
      else case listen listenAddr of
        Some e \<Rightarrow> Inl e
      | None \<Rightarrow> Inr (Some \<lparr>cp_open = True, cp_hops = hops, cp_closed = False\<rparr>))"

definition chain_Serve_turn :: "ChainProxy \<Rightarrow> endpoint res \<Rightarrow> endpoint accept_turn" where
  "chain_Serve_turn cp answer = Serve_answer (cp_closed cp) answer"

text \<open>\<open>None\<close> is the panic of \<^verbatim>\<open>cp.hops[0]\<close>.\<close>

definition chain_handle :: "(string \<Rightarrow> endpoint res) \<Rightarrow> ChainProxy \<Rightarrow> endpoint \<Rightarrow> handled option" where
  "chain_handle dial cp c =
     (case cp_hops cp of
        [] \<Rightarrow> None
      | hop # _ \<Rightarrow>
          Some (case dial hop of Inl err \<Rightarrow> Refused (close_ep c) | Inr next \<Rightarrow> Relayed (Relay_start c next)))"

definition chain_Close :: "ChainProxy \<Rightarrow> error option \<times> ChainProxy" where
  "chain_Close cp = ((if cp_open cp then None else Some ErrNetClosed), cp\<lparr>cp_closed := True, cp_open := False\<rparr>)"

section \<open>Health check (healthcheck.go)\<close>

text \<open>
  One tick of \<^verbatim>\<open>HealthCheck\<close>: whether the dial succeeded, the counter, and the line that is
  logged.
\<close>

datatype health_log = Down int | Recovered

definition HealthCheck_tick :: "int \<Rightarrow> bool \<Rightarrow> int \<Rightarrow> int \<times> health_log option" where
  "HealthCheck_tick failures ok consecutive =
     (if \<not> ok then
        let c = consecutive + 1 in (c, if c \<ge> failures then Some (Down c) else None)
      else (0, if consecutive \<ge> failures then Some Recovered else None))"

fun HealthCheck_ticks :: "int \<Rightarrow> bool list \<Rightarrow> int \<Rightarrow> int \<times> health_log option list" where
  "HealthCheck_ticks failures [] c = (c, [])"
| "HealthCheck_ticks failures (ok # oks) c =
     (case HealthCheck_tick failures ok c of (c1, l) \<Rightarrow>
        (case HealthCheck_ticks failures oks c1 of (c2, ls) \<Rightarrow> (c2, l # ls)))"

lemma HealthCheck_ticks_append:
  "HealthCheck_ticks f (xs @ ys) c =
     (case HealthCheck_ticks f xs c of (c1, ls) \<Rightarrow> (case HealthCheck_ticks f ys c1 of (c2, ms) \<Rightarrow> (c2, ls @ ms)))"
  by (induction xs arbitrary: c) (auto split: prod.splits)

lemma HealthCheck_counts:
  "fst (HealthCheck_ticks f oks 0) = int (length (takeWhile Not (rev oks)))"
proof (induction oks rule: rev_induct)
  case (snoc ok oks)
  then show ?case by (auto simp: HealthCheck_ticks_append HealthCheck_tick_def Let_def split: prod.splits)
qed simp


section \<open>Accounting\<close>

text \<open>
  What a proxy promises about its counters, whatever it does with a connection: a
  handler counts itself in, and on leaving adds its statistics and counts itself
  out. Handlers run concurrently, so the events come in any order.
\<close>

datatype proxy_event = In | Out Stats

locale proxy_counters =
  fixes enter :: "'p \<Rightarrow> 'p" and leave :: "Stats \<Rightarrow> 'p \<Rightarrow> 'p"
    and count :: "'p \<Rightarrow> int" and stats :: "'p \<Rightarrow> Stats"
  assumes enter_count: "count (enter p) = wrap64 (count p + 1)" and enter_stats: "stats (enter p) = stats p"
    and leave_count: "count (leave s p) = wrap64 (count p - 1)" and leave_stats: "stats (leave s p) = add_stats (stats p) s"
begin

fun event :: "'p \<Rightarrow> proxy_event \<Rightarrow> 'p" where
  "event p In = enter p"
| "event p (Out s) = leave s p"

definition outs :: "proxy_event list \<Rightarrow> Stats list" where
  "outs es = concat (map (\<lambda>e. case e of In \<Rightarrow> [] | Out s \<Rightarrow> [s]) es)"

lemma events_count:
  assumes "- (2 ^ 62) \<le> count p" and "count p + int (length es) < 2 ^ 62" and "length es < 2 ^ 62"
  shows "count (foldl event p es) = count p + int (length (filter ((=) In) es)) - int (length (outs es))"
proof -
  have "count (foldl event p es) = count p + int (length (filter ((=) In) es)) - int (length (outs es))
     \<and> length (filter ((=) In) es) + length (outs es) = length es"
    using assms(2,3)
  proof (induction es rule: rev_induct)
    case (snoc e es)
    then have ih: "count (foldl event p es) = count p + int (length (filter ((=) In) es)) - int (length (outs es))"
      "length (filter ((=) In) es) + length (outs es) = length es" by simp_all
    have w: "wrap64 x = x" if "\<bar>x - count (foldl event p es)\<bar> \<le> 1" for x
      using that ih snoc.prems assms(1) by (intro wrap64_id) (simp_all add: abs_le_iff)
    show ?case
      using ih by (cases e) (simp_all add: enter_count leave_count outs_def w)
  qed (simp add: outs_def)
  then show ?thesis by simp
qed

lemma events_stats: "stats (foldl event p es) = foldl add_stats (stats p) (outs es)"
proof (induction es rule: rev_induct)
  case (snoc e es)
  then show ?case by (cases e) (simp_all add: enter_stats leave_stats outs_def)
qed (simp add: outs_def)

end

interpretation tcp: proxy_counters handle_begin "\<lambda>s p. handle_end (handle_stats s p)" px_connCount px_stats
  by unfold_locales (simp_all add: handle_begin_def handle_end_def handle_stats_def)

text \<open>Totals of a list of statistics: the sums wrap, the last error of each direction stays.\<close>

lemma wrap64_add [simp]: "wrap64 (wrap64 x + y) = wrap64 (x + y)"
  unfolding wrap64_def by (simp add: mod_simps algebra_simps)

lemma foldl_add_stats:
  "SentBytes (foldl add_stats t ss) = (if ss = [] then SentBytes t else wrap64 (SentBytes t + sum_list (map SentBytes ss)))"
  "RecvBytes (foldl add_stats t ss) = (if ss = [] then RecvBytes t else wrap64 (RecvBytes t + sum_list (map RecvBytes ss)))"
  by (induction ss arbitrary: t) (auto simp: add_stats_def add.assoc)

section \<open>Properties\<close>

text \<open>
  The counters of a TCP proxy under any interleaving of its handlers: each connection
  that is relayed comes in through \<^verbatim>\<open>handle\<close> and leaves with its statistics.
\<close>

fun tcp_event :: "Proxy \<Rightarrow> proxy_event \<Rightarrow> Proxy" where
  "tcp_event p In = handle_begin p"
| "tcp_event p (Out s) = handle_end (handle_stats s p)"

lemma tcp_event_eq: "foldl tcp_event p es = foldl tcp.event p es"
  by (rule foldl_cong) (metis proxy_event.exhaust tcp.event.simps tcp_event.simps)+

text \<open>
  The statistics of a proxy are exact. In whatever order connections start and
  end, the count is the number of connections being relayed, and the byte totals are
  the sums over the connections that ended (in 64 bits).
\<close>

theorem proxy_accounting:
  fixes es :: "proxy_event list" and addr :: string
  assumes "length es < 2 ^ 62"
  defines "p \<equiv> foldl tcp_event (proxy_on addr) es" and "ended \<equiv> [s. Out s \<leftarrow> es]"
  shows "px_connCount p = int (length (filter ((=) In) es)) - int (length ended)
     \<and> SentBytes (px_stats p) = wrap64 (sum_list (map SentBytes ended))
     \<and> RecvBytes (px_stats p) = wrap64 (sum_list (map RecvBytes ended))"
proof -
  have outs: "tcp.outs es = ended" by (simp add: tcp.outs_def ended_def)
  have z: "wrap64 0 = 0" by (simp add: wrap64_id)
  have "px_connCount p = int (length (filter ((=) In) es)) - int (length ended)"
    using tcp.events_count [of "proxy_on addr" es] assms(1)
    by (simp add: p_def tcp_event_eq outs proxy_on_def)
  moreover have "px_stats p = foldl add_stats zero_Stats ended"
    using tcp.events_stats [of "proxy_on addr" es] by (simp add: p_def tcp_event_eq outs proxy_on_def)
  ultimately show ?thesis by (simp add: foldl_add_stats zero_Stats_def z)
qed

theorem proxy_accounting_witness:
  "px_connCount (foldl tcp_event (proxy_on ''a:1'') [In, In, Out (zero_Stats\<lparr>SentBytes := 7\<rparr>)]) = 1"
  using proxy_accounting [of "[In, In, Out (zero_Stats\<lparr>SentBytes := 7\<rparr>)]" "''a:1''"] by simp

text \<open>
  The health check reports an address down at a probe if and only if that probe and
  the ones before it, as many as configured in a row, failed; the number reported is
  the length of the row. It reports a recovery exactly when such a row ends.
\<close>

theorem health_reports:
  assumes "1 \<le> failures"
  defines "row \<equiv> \<lambda>oks. int (length (takeWhile Not (rev oks)))"
  shows "last (snd (HealthCheck_ticks failures (oks @ [ok]) 0)) =
     (if ok then (if failures \<le> row oks then Some Recovered else None)
      else (if failures \<le> row (oks @ [ok]) then Some (Down (row (oks @ [ok]))) else None))"
  using HealthCheck_counts [of failures oks]
  by (auto simp: row_def HealthCheck_ticks_append HealthCheck_tick_def Let_def split: prod.splits)

theorem health_reports_witness:
  "snd (HealthCheck_ticks 2 [True, False, False] 0) \<noteq> [] \<and>
   last (snd (HealthCheck_ticks 2 ([True, False] @ [False]) 0)) = Some (Down 2)"
  using health_reports [of 2 "[True, False]" False] by (simp add: HealthCheck_tick_def)

end
