(* ===== verification/Socks5.thy ===== *)
theory Socks5
  imports Proxies
begin

text \<open>
  The SOCKS5 server of dynamic tunnels: the handshake of RFC 1928 and the password
  negotiation of RFC 1929 (\<^verbatim>\<open>relay/socks5.go\<close>), and the proxy around it
  (\<^verbatim>\<open>relay/socks5proxy.go\<close>).
\<close>

section \<open>Addresses in text\<close>

text \<open>
  \<^verbatim>\<open>net.IP.String\<close>: four bytes, or sixteen bytes that hold an IPv4 address, in dotted
  decimal; other sixteen bytes in groups of hexadecimal digits with the first longest
  run of two or more zero groups left out.
\<close>

definition To4 :: "bytes \<Rightarrow> bytes option" where
  "To4 ip =
     (if length ip = 4 then Some ip
      else if length ip = 16 \<and> take 10 ip = replicate 10 0 \<and> ip ! 10 = 0xff \<and> ip ! 11 = 0xff then Some (drop 12 ip)
      else None)"

definition To16 :: "bytes \<Rightarrow> bytes option" where
  "To16 ip =
     (if length ip = 4 then Some (replicate 10 0 @ [0xff, 0xff] @ ip)
      else if length ip = 16 then Some ip else None)"

definition dotted :: "bytes \<Rightarrow> string" where
  "dotted ip = itoa (unat (ip ! 0)) @ ''.'' @ itoa (unat (ip ! 1)) @ ''.'' @ itoa (unat (ip ! 2)) @ ''.'' @ itoa (unat (ip ! 3))"

fun hex :: "nat \<Rightarrow> string" where
  "hex n = (if n < 16 then [''0123456789abcdef'' ! n] else hex (n div 16) @ [''0123456789abcdef'' ! (n mod 16)])"

declare hex.simps [simp del]

fun words16 :: "bytes \<Rightarrow> nat list" where
  "words16 (a # b # r) = (unat a * 256 + unat b) # words16 r"
| "words16 _ = []"

definition zero_run :: "nat list \<Rightarrow> nat \<Rightarrow> nat" where
  "zero_run gs i = length (takeWhile ((=) 0) (drop i gs))"

text \<open>The start and the end of the run that is left out; \<open>None\<close> when there is none.\<close>

definition longest_run :: "nat list \<Rightarrow> (nat \<times> nat) option" where
  "longest_run gs =
     foldl (\<lambda>best i. let l = zero_run gs i in
        if l \<ge> 2 \<and> (case best of None \<Rightarrow> True | Some (s, e) \<Rightarrow> e - s < l) then Some (i, i + l) else best)
       None [0..<length gs]"

definition join_colon :: "string list \<Rightarrow> string" where
  "join_colon ss = (case ss of [] \<Rightarrow> '''' | s # r \<Rightarrow> s @ concat (map (\<lambda>t. '':'' @ t) r))"

definition string6 :: "bytes \<Rightarrow> string" where
  "string6 ip =
     (let gs = words16 ip in
      case longest_run gs of
        None \<Rightarrow> join_colon (map hex gs)
      | Some (s, e) \<Rightarrow> join_colon (map hex (take s gs)) @ ''::'' @ join_colon (map hex (drop e gs)))"

definition IP_String :: "bytes \<Rightarrow> string" where
  "IP_String ip = (case To4 ip of Some ip4 \<Rightarrow> dotted ip4 | None \<Rightarrow> string6 ip)"


section \<open>The handshake (socks5.go)\<close>

definition socksVer5 :: byte where "socksVer5 = 5"
definition socksCmdConnect :: byte where "socksCmdConnect = 1"
definition socksAtypIPv4 :: byte where "socksAtypIPv4 = 1"
definition socksAtypDomain :: byte where "socksAtypDomain = 3"
definition socksAtypIPv6 :: byte where "socksAtypIPv6 = 4"
definition socksAuthNone :: byte where "socksAuthNone = 0"
definition socksAuthPassword :: byte where "socksAuthPassword = 2"
definition socksAuthNoAccept :: byte where "socksAuthNoAccept = 0xff"
definition socksRepSuccess :: byte where "socksRepSuccess = 0"

lemmas socks_consts = socksVer5_def socksCmdConnect_def socksAtypIPv4_def socksAtypDomain_def socksAtypIPv6_def
  socksAuthNone_def socksAuthPassword_def socksAuthNoAccept_def socksRepSuccess_def

record socksTarget =
  t_raw :: bytes
  t_addr :: string

text \<open>
  The read every step of the handshake makes: exactly \<open>n\<close> bytes, or the error with the
  prefix of that step.
\<close>

definition readN :: "net_conn \<Rightarrow> nat \<Rightarrow> string \<Rightarrow> (bytes \<Rightarrow> net_conn \<Rightarrow> 'a res \<times> net_conn) \<Rightarrow> 'a res \<times> net_conn" where
  "readN c n what k =
     (case ReadFull c n of
        (Inl e, c1) \<Rightarrow> (Inl (Wrap what e), c1)
      | (Inr b, c1) \<Rightarrow> k b c1)"

definition socksPasswordAuth :: "net_conn \<Rightarrow> string \<Rightarrow> string \<Rightarrow> unit res \<times> net_conn" where
  "socksPasswordAuth c user pass =
     readN c 2 ''socks password auth'' (\<lambda>header c.
       if header ! 0 \<noteq> 1 then
         (Inl (Errorf (''socks password auth: unsupported version '' @ itoa (unat (header ! 0)))), snd (conn_Write c [1, 1]))
       else
         let userLen = unat (header ! 1) in
         if userLen < 1 \<or> userLen > 255 then
           (Inl (Errorf (''socks password auth: invalid username length '' @ itoa userLen)), snd (conn_Write c [1, 2]))
         else readN c userLen ''socks password auth username'' (\<lambda>userBuf c.
           readN c 1 ''socks password auth password len'' (\<lambda>plen c.
             let passLen = unat (plen ! 0) in
             if passLen < 1 \<or> passLen > 255 then
               (Inl (Errorf (''socks password auth: invalid password length '' @ itoa passLen)), snd (conn_Write c [1, 2]))
             else readN c passLen ''socks password auth password'' (\<lambda>passBuf c.
               if string_of_bytes userBuf \<noteq> user \<or> string_of_bytes passBuf \<noteq> pass then
                 (Inl (Errorf ''socks: authentication failed''), snd (conn_Write c [1, 1]))
               else case conn_Write c [1, 0] of
                 (Some e, c1) \<Rightarrow> (Inl (Wrap ''socks password auth success'' e), c1)
               | (None, c1) \<Rightarrow> (Inr (), c1)))))"

text \<open>The address of the request, by its type: its bytes with the type in front, and its text.\<close>

definition socks_address :: "byte \<Rightarrow> net_conn \<Rightarrow> (bytes \<times> string) res \<times> net_conn" where
  "socks_address atyp c =
     (if atyp = socksAtypIPv4 then
        readN c 4 ''socks ipv4'' (\<lambda>addr c. (Inr (atyp # addr, IP_String addr), c))
      else if atyp = socksAtypIPv6 then
        readN c 16 ''socks ipv6'' (\<lambda>addr c. (Inr (atyp # addr, IP_String addr), c))
      else if atyp = socksAtypDomain then
        readN c 1 ''socks domain len'' (\<lambda>lenByte c.
          readN c (unat (lenByte ! 0)) ''socks domain'' (\<lambda>domain c.
            (Inr (atyp # lenByte ! 0 # domain, string_of_bytes domain), c)))
      else (Inl (Errorf (''socks: unknown address type '' @ itoa (unat atyp))), c))"

definition socks_request :: "net_conn \<Rightarrow> socksTarget res \<times> net_conn" where
  "socks_request c =
     readN c 4 ''socks request'' (\<lambda>req c.
       if req ! 0 \<noteq> socksVer5 then (Inl (Errorf (''socks: request version '' @ itoa (unat (req ! 0)))), c)
       else if req ! 1 \<noteq> socksCmdConnect then (Inl (Errorf (''socks: unsupported command '' @ itoa (unat (req ! 1)))), c)
       else case socks_address (req ! 3) c of
         (Inl e, c1) \<Rightarrow> (Inl e, c1)
       | (Inr (raw, addr), c1) \<Rightarrow>
           readN c1 2 ''socks port'' (\<lambda>port c.
             (Inr \<lparr>t_raw = raw @ port, t_addr = JoinHostPort addr (itoa (unat (be_get16 port)))\<rparr>, c)))"

definition choose_method :: "bool \<Rightarrow> bytes \<Rightarrow> byte" where
  "choose_method requireAuth methods =
     (if requireAuth then (if socksAuthPassword \<in> set methods then socksAuthPassword else socksAuthNoAccept)
      else socksAuthNone)"

definition socksHandshake :: "net_conn \<Rightarrow> string \<Rightarrow> string \<Rightarrow> socksTarget res \<times> net_conn" where
  "socksHandshake c user pass =
     (let requireAuth = (user \<noteq> '''' \<or> pass \<noteq> '''') in
      readN c 2 ''socks greeting'' (\<lambda>header c.
        if header ! 0 \<noteq> socksVer5 then (Inl (Errorf (''socks: unsupported version '' @ itoa (unat (header ! 0)))), c)
        else
          let nmethods = unat (header ! 1) in
          if nmethods < 1 then (Inl (Errorf ''socks: no auth methods''), c)
          else readN c nmethods ''socks methods'' (\<lambda>methods c.
            let chosen = choose_method requireAuth methods in
            case conn_Write c [socksVer5, chosen] of
              (Some e, c1) \<Rightarrow> (Inl (Wrap ''socks auth response'' e), c1)
            | (None, c1) \<Rightarrow>
                if chosen = socksAuthNoAccept then (Inl (Errorf ''socks: no acceptable auth method''), c1)
                else if chosen = socksAuthPassword then
                  (case socksPasswordAuth c1 user pass of
                     (Inl e, c2) \<Rightarrow> (Inl e, c2)
                   | (Inr _, c2) \<Rightarrow> socks_request c2)
                else socks_request c1)))"

definition socksReply :: "net_conn \<Rightarrow> byte \<Rightarrow> byte \<Rightarrow> bytes \<Rightarrow> bytes \<Rightarrow> error option \<times> net_conn" where
  "socksReply c rep atyp addr port = conn_Write c ([socksVer5, rep, 0, atyp] @ addr @ port)"


section \<open>The proxy (socks5proxy.go)\<close>

record SocksProxy = proxy_base +
  sp_user :: string
  sp_pass :: string

definition NewSocksProxyWithAuth :: "(string \<Rightarrow> error option) \<Rightarrow> string \<Rightarrow> string \<Rightarrow> string \<Rightarrow> SocksProxy res" where
  "NewSocksProxyWithAuth listen listenAddr user pass =
     (case listen listenAddr of
        Some e \<Rightarrow> Inl e
      | None \<Rightarrow> Inr \<lparr>px_open = True, px_done = False, px_closed = False, px_stats = zero_Stats, px_connCount = 0,
                    sp_user = user, sp_pass = pass\<rparr>)"

definition NewSocksProxy :: "(string \<Rightarrow> error option) \<Rightarrow> string \<Rightarrow> SocksProxy res" where
  "NewSocksProxy listen listenAddr = NewSocksProxyWithAuth listen listenAddr '''' ''''"

definition ListenSocks :: "(string \<Rightarrow> error option) \<Rightarrow> string \<Rightarrow> unit res" where
  "ListenSocks listen addr = (case listen addr of Some e \<Rightarrow> Inl (Wrap ''socks listen'' e) | None \<Rightarrow> Inr ())"

definition socks_Serve_turn :: "SocksProxy \<Rightarrow> endpoint res \<Rightarrow> endpoint accept_turn" where
  "socks_Serve_turn p answer = Serve_answer (px_closed p) answer"

text \<open>The local address of the upstream connection.\<close>

datatype net_addr = TCPAddr bytes u16 | OtherAddr

definition packedAddr :: "net_addr \<Rightarrow> bytes" where
  "packedAddr addr =
     (case addr of
        OtherAddr \<Rightarrow> [socksAtypIPv4, 0, 0, 0, 0, 0, 0]
      | TCPAddr ip p \<Rightarrow>
          let port = be_put16 p in
          (case To4 ip of
             Some ip4 \<Rightarrow> socksAtypIPv4 # ip4 @ port
           | None \<Rightarrow>
               (case To16 ip of
                  Some ip16 \<Rightarrow> socksAtypIPv6 # ip16 @ port
                | None \<Rightarrow> socksAtypIPv4 # [0, 0, 0, 0] @ port)))"

text \<open>
  \<^verbatim>\<open>handle\<close> up to \<^verbatim>\<open>Relay\<close>; a connection that is refused is closed, and so is an
  upstream that was opened before.
\<close>

definition socks_handle ::
  "(string \<Rightarrow> (endpoint \<times> net_addr) res) \<Rightarrow> SocksProxy \<Rightarrow> endpoint \<Rightarrow> handled \<times> SocksProxy" where
  "socks_handle dial p c =
     (case socksHandshake (ep_conn c) (sp_user p) (sp_pass p) of
        (Inl _, c1) \<Rightarrow> (Refused (close_ep (c\<lparr>ep_conn := c1\<rparr>)), p)
      | (Inr target, c1) \<Rightarrow>
          (case dial (t_addr target) of
             Inl _ \<Rightarrow>
               (Refused (close_ep (c\<lparr>ep_conn := snd (socksReply c1 4 socksAtypIPv4 [0, 0, 0, 0] [0, 0])\<rparr>)), p)
           | Inr (upstream, localAddr) \<Rightarrow>
               let rawAddr = packedAddr localAddr; n = length rawAddr in
               (case socksReply c1 socksRepSuccess (rawAddr ! 0) (drop 1 (take (n - 2) rawAddr)) (drop (n - 2) rawAddr) of
                  (Some _, c2) \<Rightarrow> (Refused (close_ep (c\<lparr>ep_conn := c2\<rparr>)), p)
                | (None, c2) \<Rightarrow> (Relayed (Relay_start upstream (c\<lparr>ep_conn := c2\<rparr>)), handle_begin p))))"

definition socks_handle_end :: "Stats \<Rightarrow> relay_state \<Rightarrow> SocksProxy \<Rightarrow> (endpoint \<times> endpoint) \<times> SocksProxy" where
  "socks_handle_end s rl p =
     ((close_ep (end_a rl), close_ep (end_b rl)), handle_end (handle_stats s p))"

definition socks_Close :: "SocksProxy \<Rightarrow> error option \<times> SocksProxy" where
  "socks_Close p = px_Close p"

section \<open>Reading\<close>

lemma readN_exact:
  assumes "\<not> shut c" and "inp c = b @ r" and "length b = n"
  shows "readN c n what k = k b (c\<lparr>inp := r\<rparr>)"
  using ReadFull_exact [OF assms] by (simp add: readN_def)

lemma readN_InrE:
  assumes "readN c n what k = (Inr x, c')"
  obtains b c1 where "k b c1 = (Inr x, c')" and "length b = n" and "inp c = b @ inp c1" and "out c1 = out c"
proof -
  obtain b c1 where rd: "ReadFull c n = (Inr b, c1)" and k: "k b c1 = (Inr x, c')"
    using assms by (auto simp: readN_def split: prod.splits sum.splits)
  have "out c1 = out c" using rd by (auto simp: ReadFull_def split: if_splits)
  with that [OF k] ReadFull_SomeD [OF rd] show thesis by blast
qed

lemma two_bytes: "length b = 2 \<Longrightarrow> b = [b ! 0, b ! 1]"
  by (auto simp: length_Suc_conv numeral_2_eq_2)

lemma unat_length_byte: "n < 256 \<Longrightarrow> unat (word_of_nat n :: byte) = n"
  by (simp add: unat_of_nat)


section \<open>Requests\<close>

text \<open>What a client asks for, as RFC 1928 puts it on the wire.\<close>

datatype socks_dest = Dest4 bytes | Dest6 bytes | DestName string

fun dest_ok :: "socks_dest \<Rightarrow> bool" where
  "dest_ok (Dest4 ip) \<longleftrightarrow> length ip = 4"
| "dest_ok (Dest6 ip) \<longleftrightarrow> length ip = 16"
| "dest_ok (DestName s) \<longleftrightarrow> length s < 256"

fun dest_bytes :: "socks_dest \<Rightarrow> bytes" where
  "dest_bytes (Dest4 ip) = 1 # ip"
| "dest_bytes (Dest6 ip) = 4 # ip"
| "dest_bytes (DestName s) = 3 # word_of_nat (length s) # bytes_of_string s"

fun dest_host :: "socks_dest \<Rightarrow> string" where
  "dest_host (Dest4 ip) = IP_String ip"
| "dest_host (Dest6 ip) = IP_String ip"
| "dest_host (DestName s) = s"

lemma socks_address_dest:
  assumes "dest_ok d" and "\<not> shut c" and "inp c = tl (dest_bytes d) @ r"
  shows "socks_address (hd (dest_bytes d)) c = (Inr (dest_bytes d, dest_host d), c\<lparr>inp := r\<rparr>)"
proof (cases d)
  case (DestName s)
  have "readN c 1 w k = k [word_of_nat (length s)] (c\<lparr>inp := bytes_of_string s @ r\<rparr>)" for w and k :: "_ \<Rightarrow> _ \<Rightarrow> (bytes \<times> string) res \<times> _"
    using assms DestName by (intro readN_exact) simp_all
  moreover have "readN (c\<lparr>inp := bytes_of_string s @ r\<rparr>) (length s) w k = k (bytes_of_string s) (c\<lparr>inp := r\<rparr>)"
    for w and k :: "_ \<Rightarrow> _ \<Rightarrow> (bytes \<times> string) res \<times> _"
    using assms by (subst readN_exact) simp_all
  ultimately show ?thesis
    using assms(1) DestName by (simp add: socks_address_def socks_consts unat_length_byte)
qed (use assms in \<open>simp_all add: socks_address_def socks_consts readN_exact\<close>)

lemma socks_request_dest:
  assumes "dest_ok d" and "\<not> shut c" and "inp c = [5, 1, rsv] @ dest_bytes d @ be_put16 port @ r"
  shows "socks_request c = (Inr \<lparr>t_raw = dest_bytes d @ be_put16 port,
     t_addr = JoinHostPort (dest_host d) (itoa (unat port))\<rparr>, c\<lparr>inp := r\<rparr>)"
proof -
  let ?a = "hd (dest_bytes d)" and ?t = "tl (dest_bytes d) @ be_put16 port @ r"
  have d: "dest_bytes d = ?a # tl (dest_bytes d)" by (cases d) simp_all
  have "inp c = [5, 1, rsv, ?a] @ ?t" using assms(3) d by (metis append.simps)
  then have "readN c 4 w k = k [5, 1, rsv, ?a] (c\<lparr>inp := ?t\<rparr>)" for w and k :: "_ \<Rightarrow> _ \<Rightarrow> socksTarget res \<times> _"
    using assms(2) by (intro readN_exact) simp_all
  moreover have "socks_address ?a (c\<lparr>inp := ?t\<rparr>) = (Inr (dest_bytes d, dest_host d), c\<lparr>inp := be_put16 port @ r\<rparr>)"
    using socks_address_dest [OF assms(1), of "c\<lparr>inp := ?t\<rparr>" "be_put16 port @ r"] assms(2) by simp
  moreover have "readN (c\<lparr>inp := be_put16 port @ r\<rparr>) 2 w k = k (be_put16 port) (c\<lparr>inp := r\<rparr>)"
    for w and k :: "_ \<Rightarrow> _ \<Rightarrow> socksTarget res \<times> _"
    using assms(2) by (subst readN_exact) simp_all
  ultimately show ?thesis by (simp add: socks_request_def socks_consts)
qed

text \<open>The credentials on the wire (RFC 1929).\<close>

definition cred_bytes :: "string \<Rightarrow> string \<Rightarrow> bytes" where
  "cred_bytes user pass = [1, word_of_nat (length user)] @ bytes_of_string user
     @ [word_of_nat (length pass)] @ bytes_of_string pass"

definition cred_ok :: "string \<Rightarrow> bool" where
  "cred_ok s \<longleftrightarrow> 1 \<le> length s \<and> length s \<le> 255"

lemma socksPasswordAuth_ok:
  assumes "cred_ok user" and "cred_ok pass" and "writable c" and "inp c = cred_bytes user pass @ r"
  shows "socksPasswordAuth c user pass = (Inr (), c\<lparr>inp := r, out := out c @ [1, 0]\<rparr>)"
proof -
  let ?u = "bytes_of_string user" and ?p = "bytes_of_string pass"
  have ns: "\<not> shut c" using assms(3) by (simp add: writable_def)
  have len: "unat (word_of_nat (length user) :: byte) = length user" "unat (word_of_nat (length pass) :: byte) = length pass"
    using assms(1,2) by (simp_all add: cred_ok_def unat_length_byte)
  have r1: "readN c 2 w k = k [1, word_of_nat (length user)] (c\<lparr>inp := ?u @ [word_of_nat (length pass)] @ ?p @ r\<rparr>)"
    for w and k :: "_ \<Rightarrow> _ \<Rightarrow> unit res \<times> _"
    using assms(4) ns by (intro readN_exact) (simp_all add: cred_bytes_def)
  have r2: "readN (c\<lparr>inp := ?u @ q\<rparr>) (length user) w k = k ?u (c\<lparr>inp := q\<rparr>)" for w q and k :: "_ \<Rightarrow> _ \<Rightarrow> unit res \<times> _"
    using ns by (subst readN_exact) simp_all
  have r3: "readN (c\<lparr>inp := [word_of_nat (length pass)] @ q\<rparr>) 1 w k = k [word_of_nat (length pass)] (c\<lparr>inp := q\<rparr>)"
    for w q and k :: "_ \<Rightarrow> _ \<Rightarrow> unit res \<times> _"
    using ns by (subst readN_exact) simp_all
  have r4: "readN (c\<lparr>inp := ?p @ r\<rparr>) (length pass) w k = k ?p (c\<lparr>inp := r\<rparr>)" for w and k :: "_ \<Rightarrow> _ \<Rightarrow> unit res \<times> _"
    using ns by (subst readN_exact) simp_all
  from assms(1,2) have "\<not> (length user < 1 \<or> 255 < length user)" "\<not> (length pass < 1 \<or> 255 < length pass)"
    by (auto simp: cred_ok_def)
  then show ?thesis
    unfolding socksPasswordAuth_def r1 using assms(3) by (simp add: len r2 r3 [simplified] r4)
qed

lemma socksPasswordAuth_sound:
  assumes "socksPasswordAuth c user pass = (Inr u, c')"
  shows "cred_ok user \<and> cred_ok pass \<and> inp c = cred_bytes user pass @ inp c' \<and> out c' = out c @ [1, 0]"
proof -
  from assms obtain header c1 where h: "length header = 2" "inp c = header @ inp c1" "out c1 = out c" "header ! 0 = 1"
    "\<not> (unat (header ! 1) < 1 \<or> unat (header ! 1) > 255)"
    "readN c1 (unat (header ! 1)) ''socks password auth username'' (\<lambda>userBuf c.
       readN c 1 ''socks password auth password len'' (\<lambda>plen c.
         let passLen = unat (plen ! 0) in
         if passLen < 1 \<or> passLen > 255 then
           (Inl (Errorf (''socks password auth: invalid password length '' @ itoa passLen)), snd (conn_Write c [1, 2]))
         else readN c passLen ''socks password auth password'' (\<lambda>passBuf c.
           if string_of_bytes userBuf \<noteq> user \<or> string_of_bytes passBuf \<noteq> pass then
             (Inl (Errorf ''socks: authentication failed''), snd (conn_Write c [1, 1]))
           else case conn_Write c [1, 0] of
             (Some e, c1) \<Rightarrow> (Inl (Wrap ''socks password auth success'' e), c1)
           | (None, c1) \<Rightarrow> (Inr (), c1)))) = (Inr u, c')"
    unfolding socksPasswordAuth_def by (elim readN_InrE) (auto simp: Let_def split: if_splits)
  from h(6) obtain ub plen pb c4 where
    u: "length ub = unat (header ! 1)" "inp c1 = ub @ plen @ pb @ inp c4" "out c4 = out c1"
    and l: "length plen = 1" "\<not> (unat (plen ! 0) < 1 \<or> unat (plen ! 0) > 255)" "length pb = unat (plen ! 0)"
    and eq: "string_of_bytes ub = user" "string_of_bytes pb = pass" and w: "conn_Write c4 [1, 0] = (None, c')"
    by (elim readN_InrE) (auto simp: Let_def elim!: readN_InrE split: if_splits prod.splits option.splits)
  have bytes: "ub = bytes_of_string user" "pb = bytes_of_string pass" using eq by auto
  have "length user = unat (header ! 1)" using u(1) bytes(1) by simp
  then have "header ! 1 = word_of_nat (length user)" by simp
  then have "header = [1, word_of_nat (length user)]" using two_bytes [OF h(1)] h(4) by metis
  moreover have "plen = [word_of_nat (length pass)]"
    using l(1,3) bytes(2) by (cases plen) auto
  ultimately have "inp c = cred_bytes user pass @ inp c4"
    using h(2) u(2) bytes by (simp add: cred_bytes_def)
  moreover have "cred_ok user" "cred_ok pass"
    using h(5) l(2,3) u(1) bytes by (simp_all add: cred_ok_def)
  ultimately show ?thesis
    using conn_Write_ok [OF w] h(3) u(3) by simp
qed


section \<open>Properties\<close>

text \<open>
  C35: A proper client gets through. A client that offers the right methods, sends the
  configured credentials (when there are any) and asks for an IPv4, IPv6 or domain
  address gets the replies of the RFCs, and the server learns exactly the requested
  host and port; nothing of what follows the request is consumed.
\<close>

theorem socks_handshake_complete:
  assumes "writable c" and "dest_ok d" and "methods \<noteq> []" and "length methods < 256"
    and "user = '''' \<and> pass = '''' \<and> auth = [] \<and> m = 0
       \<or> cred_ok user \<and> cred_ok pass \<and> auth = cred_bytes user pass \<and> m = 2 \<and> 2 \<in> set methods"
    and "inp c = [5, word_of_nat (length methods)] @ methods @ auth @ [5, 1, rsv] @ dest_bytes d @ be_put16 port @ rest"
  shows "socksHandshake c user pass =
     (Inr \<lparr>t_raw = dest_bytes d @ be_put16 port, t_addr = JoinHostPort (dest_host d) (itoa (unat port))\<rparr>,
      c\<lparr>inp := rest, out := out c @ [5, m] @ (if m = 2 then [1, 0] else [])\<rparr>)"
proof -
  let ?req = "[5, 1, rsv] @ dest_bytes d @ be_put16 port @ rest"
  have ns: "\<not> shut c" using assms(1) by (simp add: writable_def)
  have n: "unat (word_of_nat (length methods) :: byte) = length methods" by (rule unat_length_byte [OF assms(4)])
  have r1: "readN c 2 w k = k [5, word_of_nat (length methods)] (c\<lparr>inp := methods @ auth @ ?req\<rparr>)"
    for w and k :: "_ \<Rightarrow> _ \<Rightarrow> socksTarget res \<times> _"
    using assms(6) ns by (intro readN_exact) simp_all
  have r2: "readN (c\<lparr>inp := methods @ q\<rparr>) (length methods) w k = k methods (c\<lparr>inp := q\<rparr>)"
    for w q and k :: "_ \<Rightarrow> _ \<Rightarrow> socksTarget res \<times> _"
    using ns by (subst readN_exact) simp_all
  have m: "choose_method (user \<noteq> '''' \<or> pass \<noteq> '''') methods = m" "m \<noteq> 255"
    using assms(5) by (auto simp: choose_method_def socks_consts cred_ok_def)
  have req: "socks_request (c\<lparr>inp := ?req, out := w\<rparr>) =
      (Inr \<lparr>t_raw = dest_bytes d @ be_put16 port, t_addr = JoinHostPort (dest_host d) (itoa (unat port))\<rparr>,
       c\<lparr>inp := rest, out := w\<rparr>)" for w
    using socks_request_dest [OF assms(2), of "c\<lparr>inp := ?req, out := w\<rparr>"] ns by simp
  have auth: "socksPasswordAuth (c\<lparr>inp := auth @ ?req, out := w\<rparr>) user pass = (Inr (), c\<lparr>inp := ?req, out := w @ [1, 0]\<rparr>)"
    if "m = 2" for w
    using socksPasswordAuth_ok [of user pass "c\<lparr>inp := auth @ ?req, out := w\<rparr>"] assms(1,5) that by simp
  have "auth = []" if "m \<noteq> 2" using assms(5) that by blast
  moreover have "m = 0 \<or> m = 2" using assms(5) by blast
  ultimately show ?thesis
    unfolding socksHandshake_def Let_def r1
    using assms(1,3) m n r2 [of "auth @ ?req"] req auth [of "out c @ [5, 2]"] by (auto simp: socks_consts)
qed

definition demo_socks :: net_conn where
  "demo_socks = new_conn ([5, 1, 0, 5, 1, 0, 3, 3] @ bytes_of_string ''web'' @ [0, 80, 9])"

theorem socks_handshake_complete_witness:
  "socksHandshake demo_socks '''' '''' =
     (Inr \<lparr>t_raw = [3, 3] @ bytes_of_string ''web'' @ [0, 80], t_addr = ''web:80''\<rparr>,
      demo_socks\<lparr>inp := [9], out := [5, 0]\<rparr>)"
proof -
  have port: "be_put16 80 = [0, 80]" by (simp add: be_put16_def)
  have joined: "JoinHostPort ''web'' (itoa 80) = ''web:80''" by (simp add: JoinHostPort_def itoa.simps)
  have "socksHandshake demo_socks '''' '''' =
     (Inr \<lparr>t_raw = dest_bytes (DestName ''web'') @ be_put16 80,
           t_addr = JoinHostPort (dest_host (DestName ''web'')) (itoa (unat (80 :: u16)))\<rparr>,
      demo_socks\<lparr>inp := [9], out := out demo_socks @ [5, 0] @ (if (0 :: byte) = 2 then [1, 0] else [])\<rparr>)"
    by (rule socks_handshake_complete [where methods = "[0]" and auth = "[]" and rsv = 0])
       (simp_all add: demo_socks_def port bytes_of_string_def byte_of_char_def)
  then show ?thesis by (simp add: port joined demo_socks_def bytes_of_string_def byte_of_char_def)
qed

text \<open>
  C11: No stranger gets through. With credentials configured, a handshake succeeds only
  for a client that offered the password method and then sent exactly these
  credentials, both of 1 to 255 bytes; the client was told so.
\<close>

theorem socks_auth_sound:
  assumes "user \<noteq> '''' \<or> pass \<noteq> ''''" and "socksHandshake c user pass = (Inr t, c')"
  shows "cred_ok user \<and> cred_ok pass
     \<and> (\<exists>methods rest. 2 \<in> set methods
          \<and> inp c = [5, word_of_nat (length methods)] @ methods @ cred_bytes user pass @ rest)
     \<and> prefix (out c @ [5, 2, 1, 0]) (out c')"
proof -
  from assms obtain header methods c2 c3 c4 where
    h: "length header = 2" "inp c = header @ methods @ inp c2" "out c2 = out c" "header ! 0 = 5"
    and ms: "length methods = unat (header ! 1)" "2 \<in> set methods"
    and w: "conn_Write c2 [5, 2] = (None, c3)" and auth: "socksPasswordAuth c3 user pass = (Inr (), c4)"
    and req: "socks_request c4 = (Inr t, c')"
    unfolding socksHandshake_def Let_def
    by (elim readN_InrE)
       (auto simp: choose_method_def socks_consts elim!: readN_InrE split: if_splits prod.splits option.splits sum.splits)
  have "header ! 1 = word_of_nat (length methods)" using ms(1) by simp
  then have "header = [5, word_of_nat (length methods)]" using two_bytes [OF h(1)] h(4) by metis
  moreover have "prefix (out c4) (out c')"
    using req unfolding socks_request_def socks_address_def
    by (auto elim!: readN_InrE split: if_splits prod.splits sum.splits)
  ultimately have "inp c = [5, word_of_nat (length methods)] @ methods @ cred_bytes user pass @ inp c4"
      "prefix (out c @ [5, 2, 1, 0]) (out c')"
    using socksPasswordAuth_sound [OF auth] conn_Write_ok [OF w] h(2,3) by simp_all
  with socksPasswordAuth_sound [OF auth] ms(2) show ?thesis by blast
qed

theorem socks_auth_sound_witness:
  "\<forall>t c'. socksHandshake demo_socks ''u'' ''p'' \<noteq> (Inr t, c')"
proof (intro allI notI)
  fix t c'
  assume "socksHandshake demo_socks ''u'' ''p'' = (Inr t, c')"
  from socks_auth_sound [OF _ this] obtain methods rest where "(2::byte) \<in> set methods"
    "inp demo_socks = [5, word_of_nat (length methods)] @ methods @ cred_bytes ''u'' ''p'' @ rest"
    by auto
  then have "(2::byte) \<in> set (inp demo_socks)" by simp
  then show False by (simp add: demo_socks_def bytes_of_string_def byte_of_char_def)
qed

interpretation socks: proxy_counters handle_begin "\<lambda>s p. handle_end (handle_stats s p)"
  "px_connCount :: SocksProxy \<Rightarrow> int" px_stats
  by unfold_locales (simp_all add: handle_begin_def handle_end_def handle_stats_def)

text \<open>
  Half a pair of credentials locks everybody out: with only a user name or only a
  password configured, authentication is required but no client can pass it.
\<close>

theorem half_credentials_lock_out:
  assumes "user = '''' \<longleftrightarrow> pass \<noteq> ''''"
  shows "\<exists>e. fst (socksHandshake c user pass) = Inl e"
proof (cases "socksHandshake c user pass")
  case (Pair r c')
  show ?thesis
  proof (cases r)
    case (Inr t)
    from assms have req: "user \<noteq> '''' \<or> pass \<noteq> ''''" by blast
    from Pair Inr have "socksHandshake c user pass = (Inr t, c')" by simp
    then obtain c1 c2 where "socksPasswordAuth c1 user pass = (Inr (), c2)"
      using req unfolding socksHandshake_def Let_def
      by (elim readN_InrE)
         (auto simp: choose_method_def socks_consts elim!: readN_InrE split: if_splits prod.splits option.splits sum.splits)
    with socksPasswordAuth_sound have "cred_ok user" "cred_ok pass" by blast+
    with assms show ?thesis by (auto simp: cred_ok_def)
  qed (use Pair in simp)
qed

theorem half_credentials_lock_out_witness:
  "\<exists>e. fst (socksHandshake (new_conn ([5, 1, 2] @ cred_bytes ''u'' '''' @ [5, 1, 0, 1, 127, 0, 0, 1, 0, 80])) ''u'' '''') = Inl e"
  using half_credentials_lock_out [of "''u''" "''''"] by simp

text \<open>Without credentials the method \<open>0\<close> is chosen even when the client did not offer it.\<close>

lemma none_chosen_unoffered: "choose_method False [1] = socksAuthNone \<and> socksAuthNone \<notin> set [1]"
  by (simp add: choose_method_def socks_consts)

text \<open>The address in a reply is an IPv4 or an IPv6 address with its port, as the RFC demands.\<close>

lemma packedAddr_format:
  "packedAddr a ! 0 = socksAtypIPv4 \<and> length (packedAddr a) = 7
   \<or> packedAddr a ! 0 = socksAtypIPv6 \<and> length (packedAddr a) = 19"
  by (auto simp: packedAddr_def To4_def To16_def Let_def split: net_addr.splits)

text \<open>
  The proxy connects where it was told to. For a proper request the proxy dials
  exactly the requested address; when that succeeds it answers with the success reply,
  ten or twenty-two bytes long, and relays between the two connections; when it fails
  it answers "host unreachable" and closes.
\<close>

theorem socks_connects_requested:
  assumes "socksHandshake (ep_conn c) (sp_user p) (sp_pass p) = (Inr t, c1)" and "writable c1"
  shows "case dial (t_addr t) of
       Inl e \<Rightarrow> socks_handle dial p c =
         (Refused (close_ep (c\<lparr>ep_conn := c1\<lparr>out := out c1 @ [5, 4, 0, 1, 0, 0, 0, 0, 0, 0]\<rparr>\<rparr>)), p)
     | Inr (up, la) \<Rightarrow> \<exists>reply. length reply \<in> {10, 22} \<and> take 3 reply = [5, 0, 0] \<and>
         socks_handle dial p c =
           (Relayed (Relay_start up (c\<lparr>ep_conn := c1\<lparr>out := out c1 @ reply\<rparr>\<rparr>)), handle_begin p)"
proof (cases "dial (t_addr t)")
  case (Inl e)
  with assms show ?thesis by (simp add: socks_handle_def socksReply_def socks_consts)
next
  case (Inr u)
  obtain up la where u: "u = (up, la)" by (cases u) auto
  let ?r = "packedAddr la"
  let ?reply = "[5, 0, 0, ?r ! 0] @ drop 1 (take (length ?r - 2) ?r) @ drop (length ?r - 2) ?r"
  have "length ?reply \<in> {10, 22}" using packedAddr_format [of la] by auto
  moreover have "socks_handle dial p c =
      (Relayed (Relay_start up (c\<lparr>ep_conn := c1\<lparr>out := out c1 @ ?reply\<rparr>\<rparr>)), handle_begin p)"
    using assms Inr u by (simp add: socks_handle_def socksReply_def Let_def socks_consts)
  ultimately show ?thesis using Inr u by (auto intro!: exI [of _ ?reply])
qed

definition demo_ip :: net_conn where
  "demo_ip = new_conn [5, 1, 0, 5, 1, 0, 1, 10, 0, 0, 7, 0, 80]"

definition demo_proxy :: SocksProxy where
  "demo_proxy = \<lparr>px_open = True, px_done = False, px_closed = False, px_stats = zero_Stats, px_connCount = 0,
     sp_user = [], sp_pass = []\<rparr>"

lemma demo_ip_handshake:
  "socksHandshake demo_ip [] [] =
     (Inr \<lparr>t_raw = [1, 10, 0, 0, 7, 0, 80], t_addr = ''10.0.0.7:80''\<rparr>, demo_ip\<lparr>inp := [], out := [5, 0]\<rparr>)"
  by (simp add: socksHandshake_def readN_def ReadFull_def demo_ip_def choose_method_def socks_consts
      socks_request_def socks_address_def be_get16_def IP_String_def To4_def dotted_def JoinHostPort_def itoa.simps)

theorem socks_connects_requested_witness:
  "\<exists>reply. fst (socks_handle (\<lambda>a. if a = ''10.0.0.7:80'' then Inr (demo_end [], OtherAddr) else Inl EOF) demo_proxy
      (demo_end []\<lparr>ep_conn := demo_ip\<rparr>)) =
     Relayed (Relay_start (demo_end []) (demo_end []\<lparr>ep_conn := demo_ip\<lparr>inp := [], out := [5, 0] @ reply\<rparr>\<rparr>))"
proof -
  let ?dial = "\<lambda>a. if a = ''10.0.0.7:80'' then Inr (demo_end [], OtherAddr) else Inl EOF"
  have h: "socksHandshake (ep_conn (demo_end []\<lparr>ep_conn := demo_ip\<rparr>)) (sp_user demo_proxy) (sp_pass demo_proxy) =
     (Inr \<lparr>t_raw = [1, 10, 0, 0, 7, 0, 80], t_addr = ''10.0.0.7:80''\<rparr>, demo_ip\<lparr>inp := [], out := [5, 0]\<rparr>)"
    using demo_ip_handshake by (simp add: demo_proxy_def)
  have "writable (demo_ip\<lparr>inp := [], out := [5, 0]\<rparr>)" by (simp add: demo_ip_def)
  from socks_connects_requested [OF h this, of ?dial] show ?thesis by auto
qed

end
