(* ===== verification/Udp_Proxy.thy ===== *)
theory Udp_Proxy
  imports Relay_Copy
begin

text \<open>
  UDP forwarding (\<^verbatim>\<open>relay/udpproxy.go\<close>): one session per client address, with its own
  socket to the target and a goroutine that routes the target's packets back. The
  receive loop and the goroutines interleave, so the proxy is a step relation; each
  critical section is one definition. Sessions are objects in a store. Times are
  nanoseconds.
\<close>

section \<open>State\<close>

definition udpSessionTimeout :: int where "udpSessionTimeout = 60 * 10 ^ 9"

text \<open>
  A session: the client, whether its socket is open, the packets written to that socket,
  the read deadline its goroutine has set, and whether that goroutine still runs.
\<close>

record udpSession =
  us_clientAddr :: string
  us_open :: bool
  us_lastActive :: int
  us_sent :: "bytes list"
  us_deadline :: int
  us_running :: bool

text \<open>\<open>up_replies\<close> are the packets written to clients through the listener, in order.\<close>

record UDPProxy =
  up_open :: bool
  up_dialAddr :: string
  up_done :: bool
  up_closed :: bool
  up_sessions :: "(string \<times> nat) list"
  up_store :: "udpSession list"
  up_replies :: "(string \<times> bytes) list"

text \<open>\<open>resolve\<close> is \<^verbatim>\<open>net.ResolveUDPAddr\<close>, \<open>listen\<close> is \<^verbatim>\<open>net.ListenUDP\<close>.\<close>

definition NewUDPProxy ::
  "(string \<Rightarrow> string res) \<Rightarrow> (string \<Rightarrow> error option) \<Rightarrow> string \<Rightarrow> string \<Rightarrow> UDPProxy res" where
  "NewUDPProxy resolve listen listenAddr targetAddr =
     (case resolve listenAddr of
        Inl e \<Rightarrow> Inl e
      | Inr laddr \<Rightarrow>
          (case resolve targetAddr of
             Inl e \<Rightarrow> Inl e
           | Inr daddr \<Rightarrow>
               (case listen laddr of
                  Some e \<Rightarrow> Inl e
                | None \<Rightarrow> Inr \<lparr>up_open = True, up_dialAddr = daddr, up_done = False, up_closed = False,
                              up_sessions = [], up_store = [], up_replies = []\<rparr>)))"

definition upd_us :: "nat \<Rightarrow> (udpSession \<Rightarrow> udpSession) \<Rightarrow> UDPProxy \<Rightarrow> UDPProxy" where
  "upd_us i f p = p\<lparr>up_store := (up_store p)[i := f (up_store p ! i)]\<rparr>"


section \<open>From clients to the target\<close>

text \<open>
  One turn of \<^verbatim>\<open>Serve\<close>: what \<^verbatim>\<open>ReadFromUDP\<close> into a buffer of 32 KiB answers. A longer
  datagram is cut to the size of the buffer.
\<close>

datatype udp_turn = UdpReturns "error option" | UdpIgnores | UdpPacket bytes string

definition udp_Serve_turn :: "UDPProxy \<Rightarrow> (bytes \<times> string) res \<Rightarrow> udp_turn" where
  "udp_Serve_turn p answer =
     (case answer of
        Inl err \<Rightarrow> if up_closed p then UdpReturns None else UdpReturns (Some err)
      | Inr (datagram, clientAddr) \<Rightarrow>
          let packet = take bufferSize datagram in
          if length packet > 0 then UdpPacket packet clientAddr else UdpIgnores)"

text \<open>
  \<^verbatim>\<open>handlePacket\<close> under the lock: the session of the client, made if there is none; no
  session when the target cannot be dialled. A new session has its goroutine.
\<close>

definition session_for :: "error option \<Rightarrow> int \<Rightarrow> UDPProxy \<Rightarrow> string \<Rightarrow> nat option \<times> UDPProxy" where
  "session_for dialErr now p key =
     (case map_of (up_sessions p) key of
        Some i \<Rightarrow> (Some i, upd_us i (\<lambda>s. s\<lparr>us_lastActive := now\<rparr>) p)
      | None \<Rightarrow>
          (case dialErr of
             Some _ \<Rightarrow> (None, p)
           | None \<Rightarrow>
               let i = length (up_store p);
                   sess = \<lparr>us_clientAddr = key, us_open = True, us_lastActive = now, us_sent = [],
                           us_deadline = now + udpSessionTimeout, us_running = True\<rparr> in
               (Some i, p\<lparr>up_store := up_store p @ [sess], up_sessions := AList.update key i (up_sessions p)\<rparr>)))"

text \<open>The write after the lock is released; on a closed socket the packet is lost.\<close>

definition write_target :: "UDPProxy \<Rightarrow> nat \<Rightarrow> bytes \<Rightarrow> UDPProxy" where
  "write_target p i packet =
     upd_us i (\<lambda>s. if us_open s then s\<lparr>us_sent := us_sent s @ [packet]\<rparr> else s) p"

definition handlePacket :: "error option \<Rightarrow> int \<Rightarrow> UDPProxy \<Rightarrow> bytes \<Rightarrow> string \<Rightarrow> UDPProxy" where
  "handlePacket dialErr now p packet clientAddr =
     (case session_for dialErr now p clientAddr of
        (None, p1) \<Rightarrow> p1
      | (Some i, p1) \<Rightarrow> write_target p1 i packet)"


section \<open>From the target to clients\<close>

definition removeSession :: "UDPProxy \<Rightarrow> string \<Rightarrow> UDPProxy" where
  "removeSession p key =
     (case map_of (up_sessions p) key of
        None \<Rightarrow> p
      | Some i \<Rightarrow> upd_us i (\<lambda>s. s\<lparr>us_open := False\<rparr>) (p\<lparr>up_sessions := AList.delete key (up_sessions p)\<rparr>))"

text \<open>
  One turn of \<^verbatim>\<open>readFromTarget\<close>: the deadline was set when the turn began (\<open>now\<close> is that
  moment for the next turn). An answer is a packet, cut to the buffer, or an error;
  a read fails when the socket is closed or the deadline has passed.
\<close>

definition read_answer :: "udpSession \<Rightarrow> int \<Rightarrow> bytes res \<Rightarrow> bool" where
  "read_answer s now answer \<longleftrightarrow>
     (case answer of
        Inr _ \<Rightarrow> us_open s \<and> now \<le> us_deadline s
      | Inl e \<Rightarrow> True)"

definition readFromTarget_turn :: "UDPProxy \<Rightarrow> nat \<Rightarrow> int \<Rightarrow> bytes res \<Rightarrow> UDPProxy" where
  "readFromTarget_turn p i now answer =
     (let s = up_store p ! i in
      case answer of
        Inl _ \<Rightarrow> upd_us i (\<lambda>s. s\<lparr>us_running := False\<rparr>) (removeSession p (us_clientAddr s))
      | Inr datagram \<Rightarrow>
          let packet = take bufferSize datagram;
              p1 = (if up_open p then p\<lparr>up_replies := up_replies p @ [(us_clientAddr s, packet)]\<rparr> else p) in
          upd_us i (\<lambda>s. s\<lparr>us_lastActive := now, us_deadline := now + udpSessionTimeout\<rparr>) p1)"

text \<open>\<^verbatim>\<open>Close\<close>: the listener, then every session that was in the map.\<close>

definition udp_Close :: "UDPProxy \<Rightarrow> error option \<times> UDPProxy" where
  "udp_Close p =
     (let err = (if up_open p then None else Some ErrNetClosed);
          p1 = p\<lparr>up_closed := True, up_open := False, up_done := True\<rparr>;
          sessions = up_sessions p1;
          p2 = p1\<lparr>up_sessions := []\<rparr> in
      (err, fold (\<lambda>i. upd_us i (\<lambda>s. s\<lparr>us_open := False\<rparr>)) (map snd sessions) p2))"


section \<open>Steps\<close>

text \<open>
  The receive loop may be between its read and its critical section (\<open>received\<close>), or
  between that and its write (\<open>writing\<close>), while the goroutines and \<^verbatim>\<open>Close\<close> run. The
  last two fields record what the network delivered: the packets read from each
  client and those read from the target of each session.
\<close>

record udp_system =
  up :: UDPProxy
  received :: "(bytes \<times> string) option"
  writing :: "(nat \<times> bytes) option"
  from_client :: "(string \<times> bytes) list"
  from_target :: "(nat \<times> bytes) list"

inductive udp_step :: "udp_system \<Rightarrow> udp_system \<Rightarrow> bool" where
  up_receive: "received s = None \<Longrightarrow> writing s = None \<Longrightarrow> up_open (up s) \<Longrightarrow>
    udp_Serve_turn (up s) (Inr (datagram, addr)) = UdpPacket packet addr \<Longrightarrow>
    udp_step s (s\<lparr>received := Some (packet, addr), from_client := from_client s @ [(addr, packet)]\<rparr>)"
| up_session: "received s = Some (packet, addr) \<Longrightarrow> session_for dialErr now (up s) addr = (Some i, p) \<Longrightarrow>
    udp_step s (s\<lparr>up := p, received := None, writing := Some (i, packet)\<rparr>)"
| up_undialled: "received s = Some (packet, addr) \<Longrightarrow> session_for dialErr now (up s) addr = (None, p) \<Longrightarrow>
    udp_step s (s\<lparr>up := p, received := None\<rparr>)"
| up_write: "writing s = Some (i, packet) \<Longrightarrow> udp_step s (s\<lparr>up := write_target (up s) i packet, writing := None\<rparr>)"
| up_reply: "i < length (up_store (up s)) \<Longrightarrow> us_running (up_store (up s) ! i) \<Longrightarrow>
    read_answer (up_store (up s) ! i) now (Inr datagram) \<Longrightarrow>
    udp_step s (s\<lparr>up := readFromTarget_turn (up s) i now (Inr datagram),
                  from_target := from_target s @ [(i, take bufferSize datagram)]\<rparr>)"
| up_expire: "i < length (up_store (up s)) \<Longrightarrow> us_running (up_store (up s) ! i) \<Longrightarrow>
    udp_step s (s\<lparr>up := readFromTarget_turn (up s) i now (Inl e)\<rparr>)"
| up_close: "udp_step s (s\<lparr>up := snd (udp_Close (up s))\<rparr>)"

definition udp_init :: "udp_system \<Rightarrow> bool" where
  "udp_init s \<longleftrightarrow> (\<exists>resolve listen l t. NewUDPProxy resolve listen l t = Inr (up s))
     \<and> received s = None \<and> writing s = None \<and> from_client s = [] \<and> from_target s = []"

abbreviation udp_reachable :: "udp_system \<Rightarrow> bool" where
  "udp_reachable \<equiv> reachable udp_init udp_step"

section \<open>Routing\<close>

text \<open>
  The invariant. Each session's socket got, in order, packets of its own client only,
  each at most once; the packet on its way (\<open>in_transit\<close>) is the client's latest. Each
  reply went to the client of the session it came for. A client has one session.
\<close>

definition packets_of :: "string \<Rightarrow> (string \<times> bytes) list \<Rightarrow> bytes list" where
  "packets_of a l = map snd (filter (\<lambda>x. fst x = a) l)"

definition sessions_ok :: "UDPProxy \<Rightarrow> bool" where
  "sessions_ok p \<longleftrightarrow> (\<forall>k i. map_of (up_sessions p) k = Some i \<longrightarrow>
     i < length (up_store p) \<and> us_clientAddr (up_store p ! i) = k)"

definition in_transit :: "udp_system \<Rightarrow> string \<Rightarrow> nat \<Rightarrow> bytes list" where
  "in_transit s c i =
     (case received s of
        Some (b, a) \<Rightarrow> if a = c then [b] else []
      | None \<Rightarrow> (case writing s of Some (j, b) \<Rightarrow> if j = i then [b] else [] | None \<Rightarrow> []))"

definition sent_ok :: "udp_system \<Rightarrow> bool" where
  "sent_ok s \<longleftrightarrow> (\<forall>i < length (up_store (up s)).
     subseq (us_sent (up_store (up s) ! i) @ in_transit s (us_clientAddr (up_store (up s) ! i)) i)
            (packets_of (us_clientAddr (up_store (up s) ! i)) (from_client s)))
     \<and> (case received s of Some (b, a) \<Rightarrow> writing s = None \<and> packets_of a (from_client s) \<noteq> []
            \<and> last (packets_of a (from_client s)) = b | None \<Rightarrow> True)"

definition routed :: "UDPProxy \<Rightarrow> (nat \<times> bytes) list \<Rightarrow> (string \<times> bytes) list" where
  "routed p l = map (\<lambda>(i, b). (us_clientAddr (up_store p ! i), b)) l"

definition replies_ok :: "udp_system \<Rightarrow> bool" where
  "replies_ok s \<longleftrightarrow> list_all (\<lambda>x. fst x < length (up_store (up s))) (from_target s)
     \<and> subseq (up_replies (up s)) (routed (up s) (from_target s))"

text \<open>What never changes of the sessions that exist: their number only grows, their client stays.\<close>

definition extends :: "UDPProxy \<Rightarrow> UDPProxy \<Rightarrow> bool" where
  "extends p q \<longleftrightarrow> length (up_store p) \<le> length (up_store q)
     \<and> (\<forall>i < length (up_store p). us_clientAddr (up_store q ! i) = us_clientAddr (up_store p ! i)
          \<and> us_sent (up_store q ! i) = us_sent (up_store p ! i))"

lemma upd_us_simps [simp]:
  "up_sessions (upd_us i f p) = up_sessions p" "up_replies (upd_us i f p) = up_replies p"
  "up_open (upd_us i f p) = up_open p" "length (up_store (upd_us i f p)) = length (up_store p)"
  "up_closed (upd_us i f p) = up_closed p"
  by (simp_all add: upd_us_def)

lemma upd_us_nth:
  "up_store (upd_us i f p) ! j = (if j = i \<and> i < length (up_store p) then f (up_store p ! i) else up_store p ! j)"
  by (cases "i < length (up_store p)") (auto simp: upd_us_def list_update_beyond)

lemma extends_upd_us:
  assumes "\<And>s. us_clientAddr (f s) = us_clientAddr s" and "\<And>s. us_sent (f s) = us_sent s" and "up_store q = up_store p"
  shows "extends p (upd_us i f q)"
  using assms by (simp add: extends_def upd_us_nth)

lemma extends_trans: "extends p q \<Longrightarrow> extends q r \<Longrightarrow> extends p r"
  by (auto simp: extends_def)

lemma extends_refl [simp]: "extends p p"
  by (simp add: extends_def)

lemma extends_store: "up_store q = up_store p \<Longrightarrow> extends p q"
  by (simp add: extends_def)

lemma session_for_extends: "session_for dialErr now p k = (r, q) \<Longrightarrow> extends p q \<and> up_replies q = up_replies p"
  by (auto simp: session_for_def Let_def extends_upd_us split: option.splits) (auto simp: extends_def nth_append)

lemma removeSession_extends: "extends p (removeSession p k) \<and> up_replies (removeSession p k) = up_replies p"
  unfolding removeSession_def
  by (auto split: option.split intro: extends_upd_us)

lemma readFromTarget_extends: "extends p (readFromTarget_turn p i now answer)"
  unfolding readFromTarget_turn_def Let_def
  by (auto split: sum.split intro: extends_upd_us extends_trans [OF removeSession_extends [THEN conjunct1] extends_upd_us])

lemma fold_upd_us_extends:
  assumes "\<And>s. us_clientAddr (f s) = us_clientAddr s" and "\<And>s. us_sent (f s) = us_sent s"
  shows "extends p (fold (\<lambda>i. upd_us i f) is p) \<and> up_replies (fold (\<lambda>i. upd_us i f) is p) = up_replies p
     \<and> up_sessions (fold (\<lambda>i. upd_us i f) is p) = up_sessions p"
proof (induction "is" arbitrary: p)
  case (Cons i js)
  from Cons [of "upd_us i f p"] extends_upd_us [OF assms, of p p i] show ?case by (auto intro: extends_trans)
qed simp

lemma udp_Close_extends:
  "extends p (snd (udp_Close p)) \<and> up_replies (snd (udp_Close p)) = up_replies p \<and> up_sessions (snd (udp_Close p)) = []"
  unfolding udp_Close_def Let_def
  using fold_upd_us_extends [of "\<lambda>s. s\<lparr>us_open := False\<rparr>" "p\<lparr>up_closed := True, up_open := False, up_done := True, up_sessions := []\<rparr>"]
  by (simp add: extends_def)

lemma sessions_ok_extends:
  assumes "sessions_ok p" and "extends p q" and "\<And>k i. map_of (up_sessions q) k = Some i \<Longrightarrow> map_of (up_sessions p) k = Some i"
  shows "sessions_ok q"
  using assms by (fastforce simp: sessions_ok_def extends_def)

lemma session_for_ok:
  assumes "session_for dialErr now p k = (r, q)" and "sessions_ok p"
  shows "sessions_ok q" and "r = Some i \<Longrightarrow> i < length (up_store q) \<and> us_clientAddr (up_store q ! i) = k"
proof -
  show "sessions_ok q"
    using assms by (auto simp: session_for_def sessions_ok_def Let_def upd_us_nth nth_append split: option.splits if_splits)
       (metis less_SucI)+
  show "r = Some i \<Longrightarrow> i < length (up_store q) \<and> us_clientAddr (up_store q ! i) = k"
    using assms by (auto simp: session_for_def sessions_ok_def Let_def upd_us_nth split: option.splits)
qed

lemma subseq_weaken: "subseq (x @ y) l \<Longrightarrow> subseq x l"
  by (meson prefixI prefix_imp_subseq subseq_order.order_trans)

lemma packets_of_snoc [simp]:
  "packets_of a (l @ [(a', b)]) = (if a' = a then packets_of a l @ [b] else packets_of a l)"
  by (simp add: packets_of_def)

text \<open>A step that leaves the receive loop and the written packets alone keeps what was sent.\<close>

lemma sent_ok_extends:
  assumes "sent_ok s" and "extends (up s) (up t)" and "received t = received s" and "writing t = writing s"
    and "from_client t = from_client s" and "length (up_store (up t)) = length (up_store (up s))"
  shows "sent_ok t"
proof -
  have "in_transit t = in_transit s" using assms(3,4) by (intro ext) (simp add: in_transit_def split: option.split)
  with assms show ?thesis by (simp add: sent_ok_def extends_def split: option.splits prod.splits)
qed

lemma routed_extends:
  "list_all (\<lambda>x. fst x < length (up_store p)) l \<Longrightarrow> extends p q \<Longrightarrow> routed q l = routed p l"
  by (auto simp: routed_def extends_def list_all_iff)

lemma replies_ok_extends:
  assumes "replies_ok s" and "extends (up s) (up t)" and "from_target t = from_target s"
    and "up_replies (up t) = up_replies (up s)"
  shows "replies_ok t"
proof -
  have "routed (up t) (from_target s) = routed (up s) (from_target s)"
    using assms(1,2) by (intro routed_extends) (simp_all add: replies_ok_def)
  moreover have "list_all (\<lambda>x. fst x < length (up_store (up t))) (from_target s)"
    using assms(1,2) by (auto simp: replies_ok_def extends_def list_all_iff)
  ultimately show ?thesis using assms(1,3,4) by (simp only: replies_ok_def)
qed

lemma sent_ok_receive:
  assumes "sent_ok s" and "received s = None" and "writing s = None"
  shows "sent_ok (s\<lparr>received := Some (b, a), from_client := from_client s @ [(a, b)]\<rparr>)"
  using assms by (auto simp: sent_ok_def in_transit_def)

lemma sent_ok_session:
  assumes "sent_ok s" and "received s = Some (b, a)" and "session_for dialErr now (up s) a = (r, p)"
    and "sessions_ok (up s)" and "w = (case r of Some i \<Rightarrow> Some (i, b) | None \<Rightarrow> writing s)"
  shows "sent_ok (s\<lparr>up := p, received := None, writing := w\<rparr>)"
proof -
  have last: "packets_of a (from_client s) \<noteq> []" "last (packets_of a (from_client s)) = b" "writing s = None"
    using assms(1,2) by (simp_all add: sent_ok_def)
  have ext: "extends (up s) p" using session_for_extends [OF assms(3)] by simp
  have old: "subseq (us_sent (up_store p ! j)
      @ (case w of Some (i, c) \<Rightarrow> if i = j then [c] else [] | None \<Rightarrow> []))
      (packets_of (us_clientAddr (up_store p ! j)) (from_client s))" if j: "j < length (up_store (up s))" for j
  proof -
    have s: "subseq (us_sent (up_store (up s) ! j) @ (if a = us_clientAddr (up_store (up s) ! j) then [b] else []))
        (packets_of (us_clientAddr (up_store (up s) ! j)) (from_client s))"
      using assms(1,2) j by (simp add: sent_ok_def in_transit_def)
    show ?thesis
      using s subseq_weaken [OF s] ext j last(3) assms(5) session_for_ok(2) [OF assms(3,4)]
      by (auto simp: extends_def split: option.splits if_splits)
  qed
  have new: "j = length (up_store (up s)) \<and> us_sent (up_store p ! j) = [] \<and> us_clientAddr (up_store p ! j) = a"
    if "j < length (up_store p)" "\<not> j < length (up_store (up s))" for j
    using that assms(3) by (auto simp: session_for_def Let_def nth_append less_Suc_eq split: option.splits)
  have "subseq [b] (packets_of a (from_client s))"
    using last(1,2) by (metis in_set_conv_decomp_last last_in_set subseq_singleton_left)
  with new have "subseq (us_sent (up_store p ! j)
      @ (case w of Some (i, c) \<Rightarrow> if i = j then [c] else [] | None \<Rightarrow> []))
      (packets_of (us_clientAddr (up_store p ! j)) (from_client s))"
    if "j < length (up_store p)" "\<not> j < length (up_store (up s))" for j
    using that last(3) assms(5) by (auto split: option.splits)
  with old show ?thesis by (auto simp: sent_ok_def in_transit_def)
qed

lemma sent_ok_write:
  assumes "sent_ok s" and "writing s = Some (i, b)"
  shows "sent_ok (s\<lparr>up := write_target (up s) i b, writing := None\<rparr>)"
proof -
  have n: "received s = None" using assms by (auto simp: sent_ok_def split: option.splits)
  have "subseq (us_sent (up_store (write_target (up s) i b) ! j))
      (packets_of (us_clientAddr (up_store (write_target (up s) i b) ! j)) (from_client s))"
    if "j < length (up_store (up s))" for j
  proof -
    have "subseq (us_sent (up_store (up s) ! j) @ (if i = j then [b] else []))
        (packets_of (us_clientAddr (up_store (up s) ! j)) (from_client s))"
      using assms n that by (simp add: sent_ok_def in_transit_def)
    then show ?thesis
      by (auto simp: write_target_def upd_us_nth dest: subseq_weaken split: if_splits)
  qed
  with n show ?thesis by (simp add: sent_ok_def in_transit_def write_target_def)
qed

definition udp_inv :: "udp_system \<Rightarrow> bool" where
  "udp_inv s \<longleftrightarrow> sessions_ok (up s) \<and> sent_ok s \<and> replies_ok s"

lemma removeSession_ok: "sessions_ok p \<Longrightarrow> sessions_ok (removeSession p k)"
  by (rule sessions_ok_extends [OF _ removeSession_extends [THEN conjunct1]])
     (auto simp: removeSession_def split: option.splits if_splits)

lemma readFromTarget_store:
  "length (up_store (readFromTarget_turn p i now answer)) = length (up_store p)"
  by (auto simp: readFromTarget_turn_def removeSession_def Let_def split: sum.split option.split)

lemma readFromTarget_ok:
  assumes "sessions_ok p"
  shows "sessions_ok (readFromTarget_turn p i now answer)"
  by (rule sessions_ok_extends [OF assms readFromTarget_extends])
     (auto simp: readFromTarget_turn_def removeSession_def Let_def split: sum.splits option.splits if_splits)

lemma udp_Close_store: "length (up_store (snd (udp_Close p))) = length (up_store p)"
proof -
  have "length (up_store (fold (\<lambda>i. upd_us i f) is q)) = length (up_store q)" for f "is" and q :: UDPProxy
    by (induction "is" arbitrary: q) simp_all
  then show ?thesis by (simp add: udp_Close_def Let_def)
qed

lemma replies_ok_reply:
  assumes "replies_ok s" and "i < length (up_store (up s))"
  shows "replies_ok (s\<lparr>up := readFromTarget_turn (up s) i now (Inr d), from_target := from_target s @ [(i, take bufferSize d)]\<rparr>)"
proof -
  let ?p = "readFromTarget_turn (up s) i now (Inr d)" and ?a = "us_clientAddr (up_store (up s) ! i)"
  have r: "up_replies ?p = up_replies (up s) @ (if up_open (up s) then [(?a, take bufferSize d)] else [])"
    by (simp add: readFromTarget_turn_def Let_def)
  have bound: "list_all (\<lambda>x. fst x < length (up_store (up s))) (from_target s @ [(i, take bufferSize d)])"
    using assms by (simp add: replies_ok_def)
  have m: "routed ?p (from_target s @ [(i, take bufferSize d)]) = routed (up s) (from_target s) @ [(?a, take bufferSize d)]"
    unfolding routed_extends [OF bound readFromTarget_extends] by (simp add: routed_def)
  have "subseq (up_replies (up s) @ (if up_open (up s) then [(?a, take bufferSize d)] else []))
      (routed (up s) (from_target s) @ [(?a, take bufferSize d)])"
    using assms(1) by (auto simp: replies_ok_def)
  then show ?thesis using bound unfolding replies_ok_def by (simp add: m r readFromTarget_store)
qed

lemma write_target_ok: "sessions_ok p \<Longrightarrow> sessions_ok (write_target p i b)"
  by (auto simp: sessions_ok_def write_target_def upd_us_nth)

lemma replies_ok_write: "replies_ok s \<Longrightarrow> replies_ok (s\<lparr>up := write_target (up s) i b, writing := None\<rparr>)"
proof -
  have "us_clientAddr (up_store (write_target (up s) i b) ! j) = us_clientAddr (up_store (up s) ! j)" for j
    by (simp add: write_target_def upd_us_nth)
  then show "replies_ok s \<Longrightarrow> replies_ok (s\<lparr>up := write_target (up s) i b, writing := None\<rparr>)"
    by (simp add: replies_ok_def routed_def) (simp add: write_target_def)
qed

lemma udp_inv_step:
  assumes "udp_step s t" and "udp_inv s"
  shows "udp_inv t"
proof -
  from assms(2) have inv: "sessions_ok (up s)" "sent_ok s" "replies_ok s" by (simp_all add: udp_inv_def)
  from assms(1) show ?thesis
  proof (cases rule: udp_step.cases)
    case (up_receive datagram addr packet)
    with inv sent_ok_receive [OF inv(2)] show ?thesis by (simp add: udp_inv_def replies_ok_def)
  next
    case (up_session packet addr dialErr now i p)
    with inv sent_ok_session [OF inv(2) up_session(2,3) inv(1)] session_for_ok(1) [OF up_session(3) inv(1)]
      session_for_extends [OF up_session(3)] show ?thesis
      by (auto simp: udp_inv_def intro!: replies_ok_extends [OF inv(3)])
  next
    case (up_undialled packet addr dialErr now p)
    with inv sent_ok_session [OF inv(2) up_undialled(2,3) inv(1)] session_for_ok(1) [OF up_undialled(3) inv(1)]
      session_for_extends [OF up_undialled(3)] show ?thesis
      by (auto simp: udp_inv_def intro!: replies_ok_extends [OF inv(3)])
  next
    case (up_write i packet)
    with inv sent_ok_write [OF inv(2) up_write(2)] show ?thesis
      by (auto simp: udp_inv_def write_target_ok intro!: replies_ok_write)
  next
    case (up_reply i now datagram)
    with inv replies_ok_reply [OF inv(3) up_reply(2)] readFromTarget_ok [OF inv(1)] show ?thesis
      by (auto simp: udp_inv_def readFromTarget_store readFromTarget_extends intro!: sent_ok_extends [OF inv(2)])
  next
    case (up_expire i now e)
    moreover have "up_replies (readFromTarget_turn (up s) i now (Inl e)) = up_replies (up s)"
      using removeSession_extends by (simp add: readFromTarget_turn_def Let_def)
    ultimately show ?thesis
      using inv readFromTarget_ok [OF inv(1)]
      by (auto simp: udp_inv_def readFromTarget_store readFromTarget_extends
          intro!: sent_ok_extends [OF inv(2)] replies_ok_extends [OF inv(3)])
  next
    case up_close
    with udp_Close_extends [of "up s"] inv show ?thesis
      by (auto simp: udp_inv_def udp_Close_store sessions_ok_def
          intro!: sent_ok_extends [OF inv(2)] replies_ok_extends [OF inv(3)])
  qed
qed

lemma NewUDPProxy_empty:
  "NewUDPProxy resolve listen l t = Inr p \<Longrightarrow> up_sessions p = [] \<and> up_store p = [] \<and> up_replies p = []"
  by (auto simp: NewUDPProxy_def split: sum.splits option.splits)

interpretation udp: invariant_system udp_init udp_step udp_inv
proof
  fix s t
  show "udp_init s \<Longrightarrow> udp_inv s"
    by (auto simp: udp_init_def udp_inv_def sessions_ok_def sent_ok_def replies_ok_def dest!: NewUDPProxy_empty)
  show "udp_inv s \<Longrightarrow> udp_step s t \<Longrightarrow> udp_inv t" by (blast intro: udp_inv_step)
qed


section \<open>Properties\<close>

text \<open>
  C40: UDP packets are never misrouted. In every reachable state, what went to the target
  on a session's socket is a subsequence of what the session's client sent (in order,
  nothing invented, nothing twice); every reply went to the client of the session
  it arrived on, in order; and the session in use for a client is that client's own.
\<close>

theorem udp_routing:
  assumes "udp_reachable s"
  shows "(\<forall>i < length (up_store (up s)).
       subseq (us_sent (up_store (up s) ! i)) (packets_of (us_clientAddr (up_store (up s) ! i)) (from_client s)))
     \<and> subseq (up_replies (up s)) (routed (up s) (from_target s))
     \<and> (\<forall>k i. map_of (up_sessions (up s)) k = Some i \<longrightarrow> us_clientAddr (up_store (up s) ! i) = k)"
proof -
  have inv: "sessions_ok (up s)" "sent_ok s" "replies_ok s"
    using udp.reachable_inv [OF assms] by (simp_all add: udp_inv_def)
  then show ?thesis
    by (auto simp: sessions_ok_def sent_ok_def replies_ok_def dest: subseq_weaken)
qed

definition demo_udp :: UDPProxy where
  "demo_udp = \<lparr>up_open = True, up_dialAddr = ''t:53'', up_done = False, up_closed = False, up_sessions = [],
     up_store = [], up_replies = []\<rparr>"

definition demo_system :: udp_system where
  "demo_system = \<lparr>up = demo_udp, received = None, writing = None, from_client = [], from_target = []\<rparr>"

lemma demo_system_init: "udp_init demo_system"
proof -
  have "NewUDPProxy (\<lambda>a. Inr a) (\<lambda>_. None) ''l:53'' ''t:53'' = Inr (up demo_system)"
    by (simp add: NewUDPProxy_def demo_system_def demo_udp_def)
  then show ?thesis by (auto simp: udp_init_def demo_system_def)
qed

theorem udp_routing_witness:
  "\<exists>s. udp_reachable s \<and> up_store (up s) \<noteq> []
     \<and> subseq (us_sent (up_store (up s) ! 0)) (packets_of ''c:1'' (from_client s))"
proof -
  let ?s1 = "demo_system\<lparr>received := Some ([7], ''c:1''), from_client := [(''c:1'', [7])]\<rparr>"
  obtain i p where q: "session_for None 0 (up ?s1) ''c:1'' = (Some i, p)" and p: "length (up_store p) = 1"
      "us_clientAddr (up_store p ! 0) = ''c:1''"
    by (simp add: session_for_def demo_system_def demo_udp_def)
  let ?s2 = "?s1\<lparr>up := p, received := None, writing := Some (i, [7])\<rparr>"
  have "udp_step demo_system ?s1"
    using up_receive [of demo_system "[7]" "''c:1''" "[7]"]
    by (simp add: demo_system_def demo_udp_def udp_Serve_turn_def bufferSize_def)
  moreover have "udp_step ?s1 ?s2" using up_session [OF _ q, of "[7]"] by simp
  ultimately have r: "udp_reachable ?s2"
    by (meson demo_system_init reachable_init reachable_step)
  then show ?thesis using udp_routing [OF r] p by (intro exI [of _ ?s2]) auto
qed

text \<open>
  A client cannot keep its session alive. Packets of the client never move the
  deadline of its session's goroutine: when the target has been silent for a minute
  the session ends, however much the client sent in that minute.
\<close>

theorem client_traffic_ignored:
  assumes "sessions_ok p" and "map_of (up_sessions p) k = Some i"
  shows "us_deadline (up_store (handlePacket dialErr now p packet k) ! i) = us_deadline (up_store p ! i)
     \<and> up_sessions (handlePacket dialErr now p packet k) = up_sessions p
     \<and> us_lastActive (up_store (handlePacket dialErr now p packet k) ! i) = now"
  using assms by (auto simp: handlePacket_def session_for_def write_target_def upd_us_nth sessions_ok_def)

theorem client_traffic_ignored_witness:
  "us_deadline (up_store (handlePacket None (59 * 10 ^ 9) (handlePacket None 0 demo_udp [1] ''c:1'') [2] ''c:1'') ! 0)
     = 60 * 10 ^ 9"
proof -
  let ?p = "handlePacket None 0 demo_udp [1] ''c:1''"
  have "sessions_ok ?p" "map_of (up_sessions ?p) ''c:1'' = Some 0" "us_deadline (up_store ?p ! 0) = 60 * 10 ^ 9"
    by (auto simp: sessions_ok_def handlePacket_def session_for_def write_target_def demo_udp_def Let_def upd_us_nth
        udpSessionTimeout_def)
  with client_traffic_ignored [of ?p "''c:1''" 0 None "59 * 10 ^ 9" "[2]"] show ?thesis by simp
qed

text \<open>A datagram longer than the buffer is forwarded without its end.\<close>

lemma long_datagram_cut:
  assumes "bufferSize < length datagram"
  shows "udp_Serve_turn p (Inr (datagram, a)) = UdpPacket (take (32 * 1024) datagram) a"
  using assms by (auto simp: udp_Serve_turn_def Let_def bufferSize_def)

end
