(* ===== verification/Backoff.thy ===== *)
theory Backoff
  imports Tunnel_Prelude Complex_Main
begin

text \<open>
  The delay between two attempts to connect (\<^verbatim>\<open>relay/reconnect.go\<close>), with the
  rounding of \<^verbatim>\<open>float64\<close> and the random jitter as parameters, and its bounds.
\<close>

section \<open>The delay\<close>

record BackoffConfig =
  BaseDelay :: int
  MaxDelay :: int
  JitterRatio :: real

definition DefaultBackoff :: BackoffConfig where
  "DefaultBackoff = \<lparr>BaseDelay = 10 ^ 9, MaxDelay = 30 * 10 ^ 9, JitterRatio = 2 / 10\<rparr>"

text \<open>
  \<^verbatim>\<open>BackoffDelay\<close> computes in \<^verbatim>\<open>float64\<close>: \<open>rnd\<close> is its rounding, applied to every
  result and constant. \<open>u\<close> is the value of \<^verbatim>\<open>rand.Float64()\<close>. The conversion to
  \<^verbatim>\<open>time.Duration\<close> truncates.
\<close>

definition trunc :: "real \<Rightarrow> int" where
  "trunc x = (if 0 \<le> x then \<lfloor>x\<rfloor> else \<lceil>x\<rceil>)"

primrec double_n :: "(real \<Rightarrow> real) \<Rightarrow> nat \<Rightarrow> real \<Rightarrow> real" where
  "double_n rnd 0 d = d"
| "double_n rnd (Suc n) d = double_n rnd n (rnd (d * 2))"

definition BackoffDelay :: "(real \<Rightarrow> real) \<Rightarrow> real \<Rightarrow> BackoffConfig \<Rightarrow> int \<Rightarrow> int" where
  "BackoffDelay rnd u cfg attempt =
     (let n = nat (min attempt 30);
          d = double_n rnd n (rnd (real_of_int (BaseDelay cfg)));
          d = (if d > rnd (real_of_int (MaxDelay cfg)) then rnd (real_of_int (MaxDelay cfg)) else d);
          jitter = rnd (d * rnd (JitterRatio cfg));
          d = rnd (rnd (d - jitter) + rnd (rnd (u * 2) * jitter)) in
      trunc d)"


section \<open>Rounding\<close>

text \<open>
  What \<^verbatim>\<open>float64\<close> guarantees in the range of these computations: a result is off by
  half a unit in the last place at most, integers up to \<open>2 ^ 53\<close> are exact and so is
  doubling.
\<close>

definition float64_ok :: "(real \<Rightarrow> real) \<Rightarrow> bool" where
  "float64_ok rnd \<longleftrightarrow> (\<forall>x. \<bar>x\<bar> \<le> 2 ^ 100 \<longrightarrow> \<bar>rnd x - x\<bar> \<le> (\<bar>x\<bar> + 1) / 2 ^ 53)
     \<and> (\<forall>i::int. \<bar>i\<bar> \<le> 2 ^ 53 \<longrightarrow> rnd (real_of_int i) = real_of_int i)
     \<and> (\<forall>x. \<bar>x\<bar> \<le> 2 ^ 100 \<longrightarrow> rnd x = x \<longrightarrow> rnd (x * 2) = x * 2)"

lemma double_n_exact:
  assumes "float64_ok rnd" and "rnd x = x" and "0 \<le> x" and "x * 2 ^ n \<le> 2 ^ 100"
  shows "double_n rnd n x = x * 2 ^ n"
  using assms(2-4)
proof (induction n arbitrary: x)
  case (Suc n)
  have "x \<le> x * 2 ^ Suc n" using Suc.prems(2) by (simp add: mult_le_cancel_left1 one_le_power order_trans [of 1 "2 ^ n"])
  with Suc.prems have "rnd (x * 2) = x * 2" using assms(1) by (simp add: float64_ok_def)
  with Suc.IH [of "x * 2"] Suc.prems show ?case by (simp add: mult.assoc)
qed simp

lemma rnd_near:
  assumes "float64_ok rnd" and "\<bar>x\<bar> \<le> 10 ^ 11" and "\<bar>x - y\<bar> \<le> e"
  shows "\<bar>rnd x - y\<bar> \<le> e + 1 / 10000"
proof -
  have "\<bar>x\<bar> \<le> 2 ^ 100" using assms(2) by simp
  then have "\<bar>rnd x - x\<bar> \<le> (\<bar>x\<bar> + 1) / 2 ^ 53" using assms(1) by (simp add: float64_ok_def)
  also have "\<dots> \<le> 1 / 10000" using assms(2) by (simp add: divide_le_eq)
  finally show ?thesis using assms(3) by linarith
qed

lemma rnd_fraction:
  assumes "float64_ok rnd" and "0 \<le> x" and "x \<le> 2"
  shows "\<bar>rnd x - x\<bar> \<le> 1 / 10 ^ 15"
proof -
  have "\<bar>x\<bar> \<le> 2 ^ 100" using assms(2,3) by simp
  then have "\<bar>rnd x - x\<bar> \<le> (\<bar>x\<bar> + 1) / 2 ^ 53" using assms(1) unfolding float64_ok_def by blast
  also have "\<dots> \<le> 1 / 10 ^ 15" using assms(2,3) by (simp add: divide_le_eq)
  finally show ?thesis .
qed

lemma mult_near:
  fixes a b c d :: real
  assumes "\<bar>a - b\<bar> \<le> d" and "0 \<le> c" and "c \<le> m" and "0 \<le> d"
  shows "\<bar>c * a - c * b\<bar> \<le> m * d"
proof -
  have "\<bar>c * a - c * b\<bar> = c * \<bar>a - b\<bar>"
    using assms(2) by (simp add: abs_mult right_diff_distrib [symmetric])
  also have "\<dots> \<le> m * d" using assms by (intro mult_mono) auto
  finally show ?thesis .
qed

lemma near_bound:
  fixes a b e m :: real
  shows "\<bar>a - b\<bar> \<le> e \<Longrightarrow> 0 \<le> b \<Longrightarrow> b + e \<le> m \<Longrightarrow> \<bar>a\<bar> \<le> m"
  by linarith

lemma near_add:
  fixes a b c d e f :: real
  shows "\<bar>a - b\<bar> \<le> e \<Longrightarrow> \<bar>c - d\<bar> \<le> f \<Longrightarrow> \<bar>(a + c) - (b + d)\<bar> \<le> e + f"
  by linarith

lemma near_trans:
  fixes a b c e f :: real
  shows "\<bar>a - b\<bar> \<le> e \<Longrightarrow> \<bar>b - c\<bar> \<le> f \<Longrightarrow> \<bar>a - c\<bar> \<le> e + f"
  by linarith

text \<open>The jittered delay in exact arithmetic, and how far the computed one may be from it.\<close>

lemma jittered_near:
  fixes d u :: real
  assumes "float64_ok rnd" and "10 ^ 9 \<le> d" and "d \<le> 30 * 10 ^ 9" and "0 \<le> u" and "u < 1"
  defines "jitter \<equiv> rnd (d * rnd (2 / 10))"
  shows "\<bar>rnd (rnd (d - jitter) + rnd (rnd (u * 2) * jitter)) - (d - d / 5 + 2 * u * (d / 5))\<bar> \<le> 1 / 100"
proof -
  let ?j = "d / 5"
  have d: "0 \<le> d" "0 \<le> ?j" "?j \<le> 6 * 10 ^ 9" using assms(2,3) by simp_all
  have "\<bar>d * rnd (2 / 10) - d * (2 / 10)\<bar> \<le> 30 * 10 ^ 9 * (1 / 10 ^ 15)"
    using assms(1,3) d(1) rnd_fraction [of rnd "2 / 10"] by (intro mult_near) auto
  then have j0: "\<bar>d * rnd (2 / 10) - ?j\<bar> \<le> 1 / 10000" by simp
  have "\<bar>d * rnd (2 / 10)\<bar> \<le> 10 ^ 11" by (rule near_bound [OF j0]) (use d in simp_all)
  from rnd_near [OF assms(1) this j0] have j: "\<bar>jitter - ?j\<bar> \<le> 2 / 10000" by (simp add: jitter_def)
  have "\<bar>(d - jitter) - (d - ?j)\<bar> \<le> 2 / 10000" using j by linarith
  moreover from this have "\<bar>d - jitter\<bar> \<le> 10 ^ 11" by (rule near_bound) (use assms(2,3) in simp_all)
  ultimately have a: "\<bar>rnd (d - jitter) - (d - ?j)\<bar> \<le> 3 / 10000"
    using rnd_near [OF assms(1)] by fastforce
  have "?j - 2 / 10000 \<le> jitter \<and> jitter \<le> ?j + 2 / 10000" using j by linarith
  then have jpos: "0 \<le> jitter" "jitter \<le> 10 ^ 10" using assms(2) d by simp_all
  have "\<bar>jitter * rnd (u * 2) - jitter * (u * 2)\<bar> \<le> 10 ^ 10 * (1 / 10 ^ 15)"
    using rnd_fraction [OF assms(1), of "u * 2"] assms(4,5) jpos by (intro mult_near) auto
  then have p1: "\<bar>rnd (u * 2) * jitter - 2 * u * jitter\<bar> \<le> 1 / 10000" by (simp add: mult.commute)
  have "\<bar>2 * u * jitter - 2 * u * ?j\<bar> \<le> 2 * (2 / 10000)"
    using j assms(4,5) by (intro mult_near) auto
  from near_trans [OF p1 this] have p: "\<bar>rnd (u * 2) * jitter - 2 * u * ?j\<bar> \<le> 5 / 10000" by simp
  have q: "0 \<le> 2 * u * ?j" "2 * u * ?j \<le> 12 * 10 ^ 9"
    using d assms(4,5) mult_mono [of "2 * u" 2 ?j "6 * 10 ^ 9"] by simp_all
  have "\<bar>rnd (u * 2) * jitter\<bar> \<le> 10 ^ 11" by (rule near_bound [OF p q(1)], rule order_trans [OF add_right_mono [OF q(2)]]) simp
  from rnd_near [OF assms(1) this p] have b: "\<bar>rnd (rnd (u * 2) * jitter) - 2 * u * ?j\<bar> \<le> 6 / 10000" by simp
  from near_add [OF a b] have s: "\<bar>(rnd (d - jitter) + rnd (rnd (u * 2) * jitter)) - (d - ?j + 2 * u * ?j)\<bar> \<le> 9 / 10000"
    by simp
  have "\<bar>rnd (d - jitter) + rnd (rnd (u * 2) * jitter)\<bar> \<le> 10 ^ 11"
  proof (rule near_bound [OF s])
    show "0 \<le> d - ?j + 2 * u * ?j" using q(1) d(1) by linarith
    have "d - ?j + 2 * u * ?j \<le> 30 * 10 ^ 9 + 12 * 10 ^ 9" using q(2) d(2) assms(3) by linarith
    from order_trans [OF add_right_mono [OF this]] show "d - ?j + 2 * u * ?j + 9 / 10000 \<le> 10 ^ 11" by simp
  qed
  from rnd_near [OF assms(1) this s] show ?thesis by simp
qed

section \<open>Bounds\<close>

text \<open>
  C37: The delay after \<open>attempt\<close> earlier failures is the doubled base delay, at most 30
  seconds, within a fifth of it in both directions: a client never waits less than
  0.8 s (to the nanosecond) and never more than 36 s.
\<close>

theorem backoff_bounds:
  assumes "float64_ok rnd" and "0 \<le> u" and "u < 1" and "0 \<le> attempt"
  defines "d \<equiv> min (10 ^ 9 * 2 ^ nat (min attempt 30)) (30 * 10 ^ 9) :: int"
  shows "d - d div 5 - 1 \<le> BackoffDelay rnd u DefaultBackoff attempt
     \<and> BackoffDelay rnd u DefaultBackoff attempt \<le> d + d div 5"
proof -
  let ?n = "nat (min attempt 30)" and ?x = "real_of_int d"
  have ints: "rnd (real_of_int (10 ^ 9)) = real_of_int (10 ^ 9)"
      "rnd (real_of_int (30 * 10 ^ 9)) = real_of_int (30 * 10 ^ 9)"
    using assms(1) unfolding float64_ok_def by (auto simp del: of_int_numeral of_int_power of_int_mult)
  have dmin: "?x = min (real_of_int (10 ^ 9) * 2 ^ ?n) (real_of_int (30 * 10 ^ 9))"
    unfolding d_def of_int_min by simp
  have "(2::real) ^ ?n \<le> 2 ^ 30" by (rule power_increasing) auto
  then have "double_n rnd ?n (real_of_int (10 ^ 9)) = real_of_int (10 ^ 9) * 2 ^ ?n"
    by (intro double_n_exact assms(1) ints(1)) simp_all
  then have x: "(if double_n rnd ?n (rnd (real_of_int (10 ^ 9))) > rnd (real_of_int (30 * 10 ^ 9))
      then rnd (real_of_int (30 * 10 ^ 9)) else double_n rnd ?n (rnd (real_of_int (10 ^ 9)))) = ?x"
    unfolding ints dmin by (simp add: min_def)
  have le: "10 ^ 9 \<le> ?x" "?x \<le> 30 * 10 ^ 9" by (simp_all add: d_def)
  have "BackoffDelay rnd u DefaultBackoff attempt =
      trunc (rnd (rnd (?x - rnd (?x * rnd (2 / 10))) + rnd (rnd (u * 2) * rnd (?x * rnd (2 / 10)))))"
    by (simp only: BackoffDelay_def DefaultBackoff_def Let_def BackoffConfig.simps x)
  then obtain y where y: "BackoffDelay rnd u DefaultBackoff attempt = trunc y"
      "\<bar>y - (?x - ?x / 5 + 2 * u * (?x / 5))\<bar> \<le> 1 / 100"
    using jittered_near [OF assms(1) le assms(2,3)] by blast
  have five: "5 dvd d" by (simp add: d_def min_def)
  then have fifth: "?x / 5 = real_of_int (d div 5)" by (simp add: real_of_int_div)
  have "0 \<le> 2 * u * (?x / 5)" "2 * u * (?x / 5) \<le> 2 * (?x / 5)"
    using le assms(2,3) mult_right_mono [of "2 * u" 2 "?x / 5"] by simp_all
  with y(2) have "real_of_int (d - d div 5) - 1 / 100 \<le> y" "y \<le> real_of_int (d + d div 5) + 1 / 100"
    unfolding fifth by linarith+
  moreover from this have "0 \<le> y" using le five by (auto elim!: dvdE)
  ultimately show ?thesis unfolding y(1) trunc_def by (auto simp: le_floor_iff floor_le_iff)
qed

theorem backoff_bounds_witness:
  "float64_ok id \<and> BackoffDelay id (1 / 2) DefaultBackoff 3 \<le> 96 * 10 ^ 8"
proof -
  have ok: "float64_ok id" by (simp add: float64_ok_def)
  have d: "min (10 ^ 9 * 2 ^ nat (min 3 30)) (30 * 10 ^ 9) = (8 * 10 ^ 9 :: int)" by simp
  show ?thesis using ok backoff_bounds [OF ok, of "1 / 2" 3] unfolding d by simp
qed

end
