(* ===== verification/Remote_Client.thy ===== *)
theory Remote_Client
  imports Ctrl_Conn Handshake Known_Hosts Backoff
begin

text \<open>
  The client of a remote tunnel (\<^verbatim>\<open>relay/remoteclient.go\<close>): it
  dials the server, authenticates, registers its tunnels, serves the channels the
  server opens, and dials again when the connection fails or ends. \<^verbatim>\<open>Run\<close> is a
  loop with blocking operations that \<^verbatim>\<open>Close\<close> may interrupt, so it is a step relation
  over a program counter; the operations between two blocking points are functions.
\<close>

section \<open>State\<close>

text \<open>
  Control connections are objects: \<open>rc_ccs\<close> is their store and \<^verbatim>\<open>rc.cc\<close> an index into
  it. \<open>rc_stopped\<close> says that \<^verbatim>\<open>stopCh\<close> is closed. The wait group only counts.
\<close>

record RemoteClient =
  rc_serverAddr :: string
  rc_token :: string
  rc_tlsCfg :: "TLSConfig option"
  rc_tunnels :: "RemoteTunnel list"
  rc_stopped :: bool
  rc_cc :: "nat option"
  rc_lastErr :: "error option"
  rc_reconnectCount :: int
  rc_ccs :: "ctrl_conn list"

definition NewRemoteClient :: "string \<Rightarrow> string \<Rightarrow> TLSConfig option \<Rightarrow> RemoteTunnel list \<Rightarrow> RemoteClient" where
  "NewRemoteClient serverAddr token tlsCfg tunnels =
     \<lparr>rc_serverAddr = serverAddr, rc_token = token, rc_tlsCfg = tlsCfg, rc_tunnels = tunnels, rc_stopped = False,
      rc_cc = None, rc_lastErr = None, rc_reconnectCount = 0, rc_ccs = []\<rparr>"

definition LastError :: "RemoteClient \<Rightarrow> error option" where
  "LastError rc = rc_lastErr rc"

definition IsConnected :: "RemoteClient \<Rightarrow> bool" where
  "IsConnected rc \<longleftrightarrow> rc_cc rc \<noteq> None"

text \<open>
  \<^verbatim>\<open>lastErr\<close> is an \<^verbatim>\<open>atomic.Value\<close>: storing a value whose concrete type differs from
  that of the first one stored panics. \<open>error_type\<close> is the concrete type behind an
  error; \<open>None\<close> is the panic.
\<close>

datatype go_type = T_errorString | T_wrapError | T_sysError

fun error_type :: "error \<Rightarrow> go_type" where
  "error_type (Wrap _ _) = T_wrapError"
| "error_type (WrapAfter _ _) = T_wrapError"
| "error_type (SysError _) = T_sysError"
| "error_type ErrNetClosed = T_sysError"
| "error_type _ = T_errorString"

definition setLastErr :: "RemoteClient \<Rightarrow> error option \<Rightarrow> RemoteClient option" where
  "setLastErr rc err =
     (case err of
        None \<Rightarrow> Some rc
      | Some e \<Rightarrow>
          (case rc_lastErr rc of
             None \<Rightarrow> Some (rc\<lparr>rc_lastErr := Some e\<rparr>)
           | Some e0 \<Rightarrow> if error_type e0 = error_type e then Some (rc\<lparr>rc_lastErr := Some e\<rparr>) else None))"


section \<open>Connecting\<close>

text \<open>
  The answers of the network to one attempt: of \<^verbatim>\<open>tls.Dial\<close> (told whether to skip
  verification, with the fingerprint the server presents) and of \<^verbatim>\<open>net.DialTimeout\<close>.
\<close>

record dialer =
  tls_Dial :: "bool \<Rightarrow> (net_conn \<times> string option) res"
  net_Dial :: "net_conn res"

text \<open>
  \<^verbatim>\<open>connect\<close> up to the connection it hands to \<^verbatim>\<open>NewCtrlConn\<close>. It changes nothing of the
  client, only the store of known hosts. A connection it gives up is closed.
\<close>

definition connect_handshake :: "RemoteClient \<Rightarrow> net_conn \<Rightarrow> net_conn res" where
  "connect_handshake rc c =
     (let register = (\<lambda>c1. case RegisterClient c1 (rc_tunnels rc) of
                              (Some e, _) \<Rightarrow> Inl (Wrap ''register'' e)
                            | (None, c2) \<Rightarrow> Inr c2) in
      if rc_token rc \<noteq> '''' then
        (case AuthClient c (rc_token rc) of
           (Some e, _) \<Rightarrow> Inl (Wrap ''auth'' e)
         | (None, c1) \<Rightarrow> register c1)
      else register c)"

definition connect_dial ::
  "((string \<times> string) list \<Rightarrow> (string \<times> string) list) \<Rightarrow> os_env \<Rightarrow> dialer \<Rightarrow> RemoteClient \<Rightarrow> KnownHosts option
     \<Rightarrow> net_conn res \<times> KnownHosts option \<times> os_env" where
  "connect_dial ord os d rc kh =
     (let wrap = (\<lambda>r. case r of Inl e \<Rightarrow> Inl (Wrap ''dial server'' e) | Inr c \<Rightarrow> connect_handshake rc c) in
      case rc_tlsCfg rc of
        Some cfg \<Rightarrow>
          if tls_Enabled cfg
          then (case TLSDial ord os (tls_Dial d) (rc_serverAddr rc) cfg kh of (r, kh1, os1) \<Rightarrow> (wrap r, kh1, os1))
          else (wrap (net_Dial d), kh, os)
      | None \<Rightarrow> (wrap (net_Dial d), kh, os))"

text \<open>\<^verbatim>\<open>NewCtrlConn\<close> and the assignment to \<^verbatim>\<open>rc.cc\<close>; the deferred assignment at the end.\<close>

definition connect_up :: "RemoteClient \<Rightarrow> net_conn \<Rightarrow> int \<Rightarrow> RemoteClient" where
  "connect_up rc c now = rc\<lparr>rc_ccs := rc_ccs rc @ [NewCtrlConn c now], rc_cc := Some (length (rc_ccs rc))\<rparr>"

definition connect_down :: "RemoteClient \<Rightarrow> RemoteClient" where
  "connect_down rc = rc\<lparr>rc_cc := None\<rparr>"

definition upd_rcc :: "nat \<Rightarrow> (ctrl_conn \<Rightarrow> ctrl_conn) \<Rightarrow> RemoteClient \<Rightarrow> RemoteClient" where
  "upd_rcc k f rc = rc\<lparr>rc_ccs := (rc_ccs rc)[k := f (rc_ccs rc ! k)]\<rparr>"

text \<open>\<^verbatim>\<open>Close\<close>: closing \<^verbatim>\<open>stopCh\<close> a second time panics (\<open>None\<close>).\<close>

definition rc_Close :: "RemoteClient \<Rightarrow> RemoteClient option" where
  "rc_Close rc =
     (if rc_stopped rc then None
      else
        let rc1 = rc\<lparr>rc_stopped := True\<rparr> in
        Some (case rc_cc rc1 of None \<Rightarrow> rc1 | Some k \<Rightarrow> upd_rcc k ctrl_Close rc1))"


section \<open>The loop\<close>

text \<open>
  Where \<^verbatim>\<open>Run\<close> is: before the first check of \<^verbatim>\<open>stopCh\<close>; inside \<^verbatim>\<open>connect\<close> before the
  control connection exists; inside it with the connection ready but \<^verbatim>\<open>rc.cc\<close> not
  yet set; in \<^verbatim>\<open>handleChannels\<close>; after \<^verbatim>\<open>connect\<close> returned an error; waiting for
  the backoff; returned. The number is the variable \<^verbatim>\<open>attempt\<close>.
\<close>

datatype run_pc =
    AtTop int | Connecting int | Ready int net_conn | Up int nat | Failed int error | Sleeping int int | Stopped

definition run_top :: "RemoteClient \<Rightarrow> int \<Rightarrow> run_pc" where
  "run_top rc attempt = (if rc_stopped rc then Stopped else Connecting attempt)"

text \<open>After a failed \<^verbatim>\<open>connect\<close>: \<open>None\<close> when \<^verbatim>\<open>setLastErr\<close> panics.\<close>

definition run_failed ::
  "(real \<Rightarrow> real) \<Rightarrow> real \<Rightarrow> RemoteClient \<Rightarrow> int \<Rightarrow> error \<Rightarrow> (run_pc \<times> RemoteClient) option" where
  "run_failed rnd u rc attempt err =
     (if rc_stopped rc then Some (Stopped, rc)
      else
        let delay = BackoffDelay rnd u DefaultBackoff attempt;
            attempt = attempt + 1;
            rc1 = rc\<lparr>rc_reconnectCount := wrap64 (rc_reconnectCount rc + 1)\<rparr> in
        map_option (\<lambda>rc2. (Sleeping attempt delay, rc2)) (setLastErr rc1 (Some err)))"

text \<open>
  One turn of \<^verbatim>\<open>handleChannels\<close> on control connection \<open>k\<close>: a channel for a new
  \<^verbatim>\<open>relayChannel\<close> goroutine, or the end of \<^verbatim>\<open>connect\<close>. \<open>TurnPanics\<close> is the panic.
\<close>

datatype handle_turn = Waits | Relays nat RemoteClient | ConnectReturns RemoteClient | TurnPanics

definition handleChannels_turn :: "bool \<Rightarrow> RemoteClient \<Rightarrow> nat \<Rightarrow> handle_turn" where
  "handleChannels_turn preferNew rc k =
     (case AcceptChannel preferNew (rc_ccs rc ! k) of
        (Blocked, _) \<Rightarrow> Waits
      | (Returned (Inr ch), cc) \<Rightarrow> Relays ch (upd_rcc k (\<lambda>_. cc) rc)
      | (Returned (Inl err), cc) \<Rightarrow>
          (case setLastErr (upd_rcc k (\<lambda>_. cc) rc) (Some (Wrap ''accept channel'' err)) of
             None \<Rightarrow> TurnPanics
           | Some rc1 \<Rightarrow> ConnectReturns (connect_down rc1)))"

text \<open>
  \<^verbatim>\<open>relayChannel\<close>: the dial of the target, and what follows a failed dial or the end
  of the relay.
\<close>

definition relayChannel_dial :: "RemoteClient \<Rightarrow> nat \<Rightarrow> nat \<Rightarrow> unit res \<Rightarrow> RemoteClient option" where
  "relayChannel_dial rc k ch answer =
     (case answer of
        Inr _ \<Rightarrow> Some rc
      | Inl err \<Rightarrow>
          map_option (upd_rcc k (\<lambda>cc. snd (channel_Close cc ch)))
            (setLastErr rc (Some (Wrap (''dial local target '' @ ch_target (objs (rc_ccs rc ! k) ! ch)) err))))"

definition relayChannel_end :: "RemoteClient \<Rightarrow> nat \<Rightarrow> nat \<Rightarrow> RemoteClient" where
  "relayChannel_end rc k ch = upd_rcc k (\<lambda>cc. snd (channel_Close cc ch)) rc"

text \<open>
  The state of a running client: the goroutine of \<^verbatim>\<open>Run\<close>, the goroutines of
  \<^verbatim>\<open>relayChannel\<close> that wait for their dial, and the two stores. \<open>cs_traffic\<close> stands
  for everything the read loop, the heartbeat, the network and the relays do to a
  control connection; none of them reopens a closed one.
\<close>

record client =
  the_rc :: RemoteClient
  known_hosts :: "KnownHosts option"
  fs :: os_env
  pc :: run_pc
  relays :: "(nat \<times> nat) list"

inductive client_step :: "client \<Rightarrow> client \<Rightarrow> bool" where
  cs_top: "pc s = AtTop n \<Longrightarrow> client_step s (s\<lparr>pc := run_top (the_rc s) n\<rparr>)"
| cs_refused: "pc s = Connecting n \<Longrightarrow>
    connect_dial ord (fs s) d (the_rc s) (known_hosts s) = (Inl e, kh, os) \<Longrightarrow>
    client_step s (s\<lparr>known_hosts := kh, fs := os, pc := Failed n e\<rparr>)"
| cs_ready: "pc s = Connecting n \<Longrightarrow>
    connect_dial ord (fs s) d (the_rc s) (known_hosts s) = (Inr c, kh, os) \<Longrightarrow>
    client_step s (s\<lparr>known_hosts := kh, fs := os, pc := Ready n c\<rparr>)"
| cs_up: "pc s = Ready n c \<Longrightarrow>
    client_step s (s\<lparr>the_rc := connect_up (the_rc s) c now, pc := Up n (length (rc_ccs (the_rc s)))\<rparr>)"
| cs_failed: "pc s = Failed n e \<Longrightarrow> run_failed rnd u (the_rc s) n e = Some (p, rc) \<Longrightarrow>
    client_step s (s\<lparr>the_rc := rc, pc := p\<rparr>)"
| cs_timer: "pc s = Sleeping n delay \<Longrightarrow> client_step s (s\<lparr>pc := AtTop n\<rparr>)"
| cs_woken: "pc s = Sleeping n delay \<Longrightarrow> rc_stopped (the_rc s) \<Longrightarrow> client_step s (s\<lparr>pc := Stopped\<rparr>)"
| cs_accept: "pc s = Up n k \<Longrightarrow> handleChannels_turn pref (the_rc s) k = Relays ch rc \<Longrightarrow>
    client_step s (s\<lparr>the_rc := rc, relays := relays s @ [(k, ch)]\<rparr>)"
| cs_lost: "pc s = Up n k \<Longrightarrow> handleChannels_turn pref (the_rc s) k = ConnectReturns rc \<Longrightarrow>
    client_step s (s\<lparr>the_rc := rc, pc := AtTop 0\<rparr>)"
| cs_dial: "(k, ch) \<in> set (relays s) \<Longrightarrow> relayChannel_dial (the_rc s) k ch answer = Some rc \<Longrightarrow>
    client_step s (s\<lparr>the_rc := rc, relays := remove1 (k, ch) (relays s)\<rparr>)"
| cs_relayed: "client_step s (s\<lparr>the_rc := relayChannel_end (the_rc s) k ch\<rparr>)"
| cs_traffic: "(shut (conn (rc_ccs (the_rc s) ! k)) \<Longrightarrow> shut (conn cc)) \<Longrightarrow>
    client_step s (s\<lparr>the_rc := upd_rcc k (\<lambda>_. cc) (the_rc s)\<rparr>)"
| cs_close: "rc_Close (the_rc s) = Some rc \<Longrightarrow> client_step s (s\<lparr>the_rc := rc\<rparr>)"

inductive_cases client_stepE: "client_step s t"

definition client_init :: "client \<Rightarrow> bool" where
  "client_init s \<longleftrightarrow> (\<exists>addr token cfg tunnels. the_rc s = NewRemoteClient addr token cfg tunnels)
     \<and> pc s = AtTop 0 \<and> relays s = []"

abbreviation client_reachable :: "client \<Rightarrow> bool" where
  "client_reachable \<equiv> reachable client_init client_step"


section \<open>Invariants\<close>

text \<open>
  Two invariants: every error that is kept, or about to be kept, has the type of a
  wrapped error; and \<^verbatim>\<open>rc.cc\<close> is set exactly while \<^verbatim>\<open>handleChannels\<close> runs.
\<close>

definition wrapped :: "error \<Rightarrow> bool" where
  "wrapped e \<longleftrightarrow> error_type e = T_wrapError"

definition errs_wrapped :: "client \<Rightarrow> bool" where
  "errs_wrapped s \<longleftrightarrow> pred_option wrapped (rc_lastErr (the_rc s))
     \<and> (case pc s of Failed _ e \<Rightarrow> wrapped e | _ \<Rightarrow> True)"

definition cc_tracks :: "client \<Rightarrow> bool" where
  "cc_tracks s \<longleftrightarrow>
     (case pc s of Up _ k \<Rightarrow> rc_cc (the_rc s) = Some k \<and> k < length (rc_ccs (the_rc s)) | _ \<Rightarrow> rc_cc (the_rc s) = None)"

lemma upd_rcc_simps [simp]:
  "rc_lastErr (upd_rcc k f rc) = rc_lastErr rc" "rc_cc (upd_rcc k f rc) = rc_cc rc"
  "rc_stopped (upd_rcc k f rc) = rc_stopped rc" "length (rc_ccs (upd_rcc k f rc)) = length (rc_ccs rc)"
  "rc_reconnectCount (upd_rcc k f rc) = rc_reconnectCount rc"
  by (simp_all add: upd_rcc_def)

lemma upd_rcc_nth:
  "rc_ccs (upd_rcc k f rc) ! j = (if j = k \<and> k < length (rc_ccs rc) then f (rc_ccs rc ! k) else rc_ccs rc ! j)"
  by (cases "k < length (rc_ccs rc)") (auto simp: upd_rcc_def list_update_beyond)

lemma upd_rcc_shut:
  "shut (conn (f (rc_ccs rc ! k))) = shut (conn (rc_ccs rc ! k)) \<Longrightarrow>
     shut (conn (rc_ccs (upd_rcc k f rc) ! j)) = shut (conn (rc_ccs rc ! j))"
  by (simp add: upd_rcc_nth)

lemma connect_up_simps [simp]:
  "rc_lastErr (connect_up rc c now) = rc_lastErr rc" "rc_stopped (connect_up rc c now) = rc_stopped rc"
  "rc_cc (connect_up rc c now) = Some (length (rc_ccs rc))"
  "rc_ccs (connect_up rc c now) = rc_ccs rc @ [NewCtrlConn c now]"
  by (simp_all add: connect_up_def)

lemma connect_down_simps [simp]:
  "rc_lastErr (connect_down rc) = rc_lastErr rc" "rc_stopped (connect_down rc) = rc_stopped rc"
  "rc_cc (connect_down rc) = None" "rc_ccs (connect_down rc) = rc_ccs rc"
  by (simp_all add: connect_down_def)

lemma setLastErr_wrapped:
  assumes "pred_option wrapped (rc_lastErr rc)" and "wrapped e"
  shows "setLastErr rc (Some e) = Some (rc\<lparr>rc_lastErr := Some e\<rparr>)"
  using assms by (auto simp: setLastErr_def wrapped_def split: option.splits)

lemma setLastErr_SomeD:
  "setLastErr rc (Some e) = Some rc' \<Longrightarrow> rc' = rc\<lparr>rc_lastErr := Some e\<rparr>"
  by (auto simp: setLastErr_def split: option.splits if_splits)

lemma connect_handshake_wrapped: "connect_handshake rc c = Inl e \<Longrightarrow> wrapped e"
  by (auto simp: connect_handshake_def wrapped_def Let_def split: if_splits prod.splits option.splits)

lemma connect_dial_wrapped:
  "connect_dial ord os d rc kh = (Inl e, kh', os') \<Longrightarrow> wrapped e"
  by (auto simp: connect_dial_def Let_def wrapped_def
      dest: connect_handshake_wrapped [unfolded wrapped_def]
      split: option.splits if_splits prod.splits sum.splits)

lemma rc_Close_SomeD:
  assumes "rc_Close rc = Some rc'"
  shows "\<not> rc_stopped rc" and "rc_stopped rc'" and "rc_lastErr rc' = rc_lastErr rc" and "rc_cc rc' = rc_cc rc"
    and "length (rc_ccs rc') = length (rc_ccs rc)"
    and "rc_cc rc = Some k \<Longrightarrow> k < length (rc_ccs rc) \<Longrightarrow> shut (conn (rc_ccs rc' ! k))"
  using assms by (auto simp: rc_Close_def Let_def upd_rcc_nth ctrl_Close_def conn_Close_def split: if_splits option.splits)

lemma handleChannels_lostD:
  assumes "handleChannels_turn pref rc k = ConnectReturns rc'"
  shows "rc_cc rc' = None" and "rc_stopped rc' = rc_stopped rc" and "length (rc_ccs rc') = length (rc_ccs rc)"
    and "\<exists>e. rc_lastErr rc' = Some (Wrap ''accept channel'' e)"
    and "rc_reconnectCount rc' = rc_reconnectCount rc"
  using assms
  by (auto simp: handleChannels_turn_def connect_down_def dest!: setLastErr_SomeD
      split: prod.splits blocking.splits sum.splits option.splits)

lemma AcceptChannel_conn: "AcceptChannel pref cc = (r, cc') \<Longrightarrow> conn cc' = conn cc"
  by (auto simp: AcceptChannel_def split: list.splits option.splits if_splits)

lemma handleChannels_relaysD:
  assumes "handleChannels_turn pref rc k = Relays ch rc'"
  shows "rc_cc rc' = rc_cc rc" and "rc_stopped rc' = rc_stopped rc" and "rc_lastErr rc' = rc_lastErr rc"
    and "length (rc_ccs rc') = length (rc_ccs rc)"
    and "shut (conn (rc_ccs rc' ! j)) = shut (conn (rc_ccs rc ! j))"
  using assms
  by (auto simp: handleChannels_turn_def upd_rcc_shut dest: AcceptChannel_conn
      split: prod.splits blocking.splits sum.splits option.splits)

lemma channel_Close_shut: "shut (conn (snd (channel_Close cc ch))) = shut (conn cc)"
  by (auto simp: channel_Close_def sendFrame_def WriteFrame_def conn_Write_def Let_def
      split: prod.splits option.splits if_splits)

lemma relayChannel_dialD:
  assumes "relayChannel_dial rc k ch answer = Some rc'"
  shows "rc_cc rc' = rc_cc rc" and "rc_stopped rc' = rc_stopped rc" and "length (rc_ccs rc') = length (rc_ccs rc)"
    and "rc_lastErr rc' = rc_lastErr rc \<or> (\<exists>p e. rc_lastErr rc' = Some (Wrap p e))"
    and "shut (conn (rc_ccs rc' ! j)) = shut (conn (rc_ccs rc ! j))"
  using assms
  by (auto simp: relayChannel_dial_def upd_rcc_shut channel_Close_shut dest!: setLastErr_SomeD split: sum.splits)

lemma run_failedD:
  assumes "run_failed rnd u rc n e = Some (p, rc')"
  shows "rc_cc rc' = rc_cc rc" and "rc_stopped rc' = rc_stopped rc" and "rc_ccs rc' = rc_ccs rc"
    and "rc_lastErr rc' = rc_lastErr rc \<or> rc_lastErr rc' = Some e" and "p = Stopped \<or> (\<exists>d. p = Sleeping (n + 1) d)"
    and "rc_stopped rc \<Longrightarrow> p = Stopped"
  using assms by (auto simp: run_failed_def Let_def dest!: setLastErr_SomeD split: if_splits)

lemma errs_wrapped_step:
  assumes "client_step s t" and "errs_wrapped s"
  shows "errs_wrapped t"
  using assms
proof (cases rule: client_step.cases)
  case (cs_failed n e rnd u p rc)
  with assms(2) run_failedD(4,5) [OF cs_failed(3)] show ?thesis by (auto simp: errs_wrapped_def)
next
  case (cs_accept n k pref ch rc)
  with assms(2) handleChannels_relaysD(3) [OF cs_accept(3)] show ?thesis by (simp add: errs_wrapped_def)
next
  case (cs_lost n k pref rc)
  with assms(2) handleChannels_lostD(4) [OF cs_lost(3)] show ?thesis by (auto simp: errs_wrapped_def wrapped_def)
next
  case (cs_dial k ch answer rc)
  with assms(2) relayChannel_dialD(4) [OF cs_dial(3)] show ?thesis by (auto simp: errs_wrapped_def wrapped_def)
qed (auto simp: errs_wrapped_def run_top_def relayChannel_end_def connect_dial_wrapped rc_Close_SomeD
      split: run_pc.splits)

lemma cc_tracks_step:
  assumes "client_step s t" and "cc_tracks s"
  shows "cc_tracks t"
  using assms
proof (cases rule: client_step.cases)
  case (cs_failed n e rnd u p rc)
  with assms(2) run_failedD(1,5) [OF cs_failed(3)] show ?thesis by (auto simp: cc_tracks_def)
next
  case (cs_accept n k pref ch rc)
  with assms(2) handleChannels_relaysD(1,4) [OF cs_accept(3)] show ?thesis by (simp add: cc_tracks_def)
next
  case (cs_lost n k pref rc)
  with handleChannels_lostD(1) [OF cs_lost(3)] show ?thesis by (simp add: cc_tracks_def)
next
  case (cs_dial k ch answer rc)
  with assms(2) relayChannel_dialD(1,3) [OF cs_dial(3)] show ?thesis by (auto simp: cc_tracks_def split: run_pc.splits)
next
  case (cs_close rc)
  with assms(2) rc_Close_SomeD(4,5) [OF cs_close(2)] show ?thesis by (auto simp: cc_tracks_def split: run_pc.splits)
qed (auto simp: cc_tracks_def run_top_def relayChannel_end_def split: run_pc.splits)

interpretation client: invariant_system client_init client_step "\<lambda>s. errs_wrapped s \<and> cc_tracks s"
proof
  fix s t
  show "client_init s \<Longrightarrow> errs_wrapped s \<and> cc_tracks s"
    by (auto simp: client_init_def errs_wrapped_def cc_tracks_def NewRemoteClient_def)
  show "errs_wrapped s \<and> cc_tracks s \<Longrightarrow> client_step s t \<Longrightarrow> errs_wrapped t \<and> cc_tracks t"
    by (blast intro: errs_wrapped_step cc_tracks_step)
qed

text \<open>
  A stopped client that is not in the middle of connecting: it holds no open
  control connection. Every step keeps this.
\<close>

definition winding_down :: "client \<Rightarrow> bool" where
  "winding_down s \<longleftrightarrow> rc_stopped (the_rc s) \<and>
     (case pc s of
        Connecting _ \<Rightarrow> False
      | Ready _ _ \<Rightarrow> False
      | Up _ k \<Rightarrow> k < length (rc_ccs (the_rc s)) \<and> shut (conn (rc_ccs (the_rc s) ! k))
      | _ \<Rightarrow> True)"

lemma winding_down_step:
  assumes "client_step s t" and "winding_down s"
  shows "winding_down t"
  using assms
proof (cases rule: client_step.cases)
  case (cs_failed n e rnd u p rc)
  with assms(2) run_failedD(2,5) [OF cs_failed(3)] show ?thesis by (auto simp: winding_down_def)
next
  case (cs_accept n k pref ch rc)
  with assms(2) handleChannels_relaysD(2,4,5) [OF cs_accept(3)] show ?thesis by (simp add: winding_down_def)
next
  case (cs_lost n k pref rc)
  with assms(2) handleChannels_lostD(2) [OF cs_lost(3)] show ?thesis by (simp add: winding_down_def)
next
  case (cs_dial k ch answer rc)
  with assms(2) relayChannel_dialD(2,3,5) [OF cs_dial(3)] show ?thesis
    by (auto simp: winding_down_def split: run_pc.splits)
next
  case (cs_relayed k ch)
  with assms(2) show ?thesis
    by (auto simp: winding_down_def relayChannel_end_def upd_rcc_shut channel_Close_shut split: run_pc.splits)
next
  case (cs_traffic k cc)
  with assms(2) show ?thesis by (auto simp: winding_down_def upd_rcc_nth split: run_pc.splits)
next
  case (cs_close rc)
  with assms(2) rc_Close_SomeD(1) [OF cs_close(2)] show ?thesis by (simp add: winding_down_def)
qed (auto simp: winding_down_def run_top_def)

section \<open>Properties\<close>

text \<open>
  C38: The errors a client keeps all have one concrete type. In every reachable state
  the error in \<^verbatim>\<open>lastErr\<close> is a wrapped error, and none of the three places that
  store one (a failed attempt, a lost connection, a target that cannot be dialled)
  can panic with an inconsistently typed value.
\<close>

theorem lastErr_one_type:
  assumes "client_reachable s"
  shows "(\<forall>e. LastError (the_rc s) = Some e \<longrightarrow> error_type e = T_wrapError)
     \<and> (\<forall>n e rnd u. pc s = Failed n e \<longrightarrow> run_failed rnd u (the_rc s) n e \<noteq> None)
     \<and> (\<forall>pref k. handleChannels_turn pref (the_rc s) k \<noteq> TurnPanics)
     \<and> (\<forall>k ch answer. relayChannel_dial (the_rc s) k ch answer \<noteq> None)"
proof -
  have inv: "errs_wrapped s" using client.reachable_inv [OF assms] by simp
  then have last: "pred_option wrapped (rc_lastErr (the_rc s))" by (simp add: errs_wrapped_def)
  then have "handleChannels_turn pref (the_rc s) k \<noteq> TurnPanics"
      and "relayChannel_dial (the_rc s) k ch answer \<noteq> None" for pref k ch answer
    by (auto simp: handleChannels_turn_def relayChannel_dial_def setLastErr_wrapped wrapped_def
        split: prod.splits blocking.splits sum.splits)
  moreover have "run_failed rnd u (the_rc s) n e \<noteq> None" if "pc s = Failed n e" for n e rnd u
    using inv last that by (simp add: run_failed_def errs_wrapped_def setLastErr_wrapped)
  ultimately show ?thesis using last by (auto simp: LastError_def wrapped_def)
qed

definition demo_rc :: RemoteClient where
  "demo_rc = NewRemoteClient ''s:9000'' '''' None [\<lparr>RemotePort = 9090, BindAddr = '''', TargetAddr = ''a:1''\<rparr>]"

definition demo_at :: "run_pc \<Rightarrow> client" where
  "demo_at p = \<lparr>the_rc = demo_rc, known_hosts = None, fs = fresh_os, pc = p, relays = []\<rparr>"

definition registered :: net_conn where
  "registered = snd (RegisterClient (new_conn []) (rc_tunnels demo_rc))"

lemma demo_connecting_reachable: "client_reachable (demo_at (Connecting 0))"
proof -
  have "client_init (demo_at (AtTop 0))" by (auto simp: client_init_def demo_at_def demo_rc_def)
  moreover have "client_step (demo_at (AtTop 0)) (demo_at (Connecting 0))"
    using cs_top [of "demo_at (AtTop 0)" 0] by (simp add: demo_at_def run_top_def demo_rc_def NewRemoteClient_def)
  ultimately show ?thesis by (meson reachable_init reachable_step)
qed

lemma demo_failed_reachable:
  "client_reachable (demo_at (Failed 0 (Wrap ''dial server'' (SysError ''refused''))))"
proof -
  let ?d = "\<lparr>tls_Dial = (\<lambda>_. Inl EOF), net_Dial = Inl (SysError ''refused'')\<rparr>"
  have "connect_dial id fresh_os ?d demo_rc None = (Inl (Wrap ''dial server'' (SysError ''refused'')), None, fresh_os)"
    by (simp add: connect_dial_def demo_rc_def NewRemoteClient_def)
  then have "client_step (demo_at (Connecting 0)) (demo_at (Failed 0 (Wrap ''dial server'' (SysError ''refused''))))"
    using cs_refused [of "demo_at (Connecting 0)" 0 id ?d] by (simp add: demo_at_def)
  with demo_connecting_reachable show ?thesis by (rule reachable_step)
qed

lemma demo_registered:
  "connect_handshake demo_rc (new_conn []) = Inr registered \<and> \<not> shut registered"
  by (simp add: connect_handshake_def registered_def RegisterClient_def demo_rc_def NewRemoteClient_def
      WriteFrame_writable maxFramePayload_def packTunnels_def pack_entry_def new_conn_def writable_def)

lemma demo_ready_reachable: "client_reachable (demo_at (Ready 0 registered))"
proof -
  let ?d = "\<lparr>tls_Dial = (\<lambda>_. Inl EOF), net_Dial = Inr (new_conn [])\<rparr>"
  have "connect_dial id fresh_os ?d demo_rc None = (Inr registered, None, fresh_os)"
    using demo_registered by (simp add: connect_dial_def demo_rc_def NewRemoteClient_def)
  then have "client_step (demo_at (Connecting 0)) (demo_at (Ready 0 registered))"
    using cs_ready [of "demo_at (Connecting 0)" 0 id ?d] by (simp add: demo_at_def)
  with demo_connecting_reachable show ?thesis by (rule reachable_step)
qed

theorem lastErr_one_type_witness:
  "client_reachable (demo_at (Failed 0 (Wrap ''dial server'' (SysError ''refused''))))
   \<and> run_failed id 0 demo_rc 0 (Wrap ''dial server'' (SysError ''refused'')) \<noteq> None"
  using lastErr_one_type [OF demo_failed_reachable] demo_failed_reachable by (simp add: demo_at_def)

text \<open>
  C27: Close is final, except while a connection is being set up. When it is called at
  any other moment, then in every later state no connection is being set up, no
  control connection the loop serves is open, and the loop never dials again.
\<close>

theorem client_close_final:
  assumes "client_reachable s" and "\<forall>n. pc s \<noteq> Connecting n" and "\<forall>n c. pc s \<noteq> Ready n c"
    and "rc_Close (the_rc s) = Some rc" and "client_step\<^sup>*\<^sup>* (s\<lparr>the_rc := rc\<rparr>) t"
  shows "rc_stopped (the_rc t) \<and> (\<forall>n. pc t \<noteq> Connecting n) \<and> (\<forall>n c. pc t \<noteq> Ready n c)
     \<and> (\<forall>n k. pc t = Up n k \<longrightarrow> shut (conn (rc_ccs (the_rc t) ! k)))"
proof -
  have "cc_tracks s" using client.reachable_inv [OF assms(1)] by simp
  with assms(2,3) rc_Close_SomeD [OF assms(4)] have start: "winding_down (s\<lparr>the_rc := rc\<rparr>)"
    by (auto simp: winding_down_def cc_tracks_def split: run_pc.splits)
  from assms(5) have "winding_down t"
    by (induction rule: rtranclp_induct) (auto intro: start winding_down_step)
  then show ?thesis by (auto simp: winding_down_def)
qed

theorem client_close_final_witness:
  "client_step (demo_at (AtTop 0)\<lparr>the_rc := demo_rc\<lparr>rc_stopped := True\<rparr>\<rparr>)
       (demo_at Stopped\<lparr>the_rc := demo_rc\<lparr>rc_stopped := True\<rparr>\<rparr>)
   \<and> (\<forall>n. pc (demo_at Stopped\<lparr>the_rc := demo_rc\<lparr>rc_stopped := True\<rparr>\<rparr>) \<noteq> Connecting n)"
proof -
  let ?s = "demo_at (AtTop 0)" and ?rc = "demo_rc\<lparr>rc_stopped := True\<rparr>"
  have r: "client_reachable ?s"
    by (rule reachable_init) (auto simp: client_init_def demo_at_def demo_rc_def)
  have c: "rc_Close (the_rc ?s) = Some ?rc"
    by (simp add: rc_Close_def demo_at_def demo_rc_def NewRemoteClient_def)
  have st: "client_step (?s\<lparr>the_rc := ?rc\<rparr>) (demo_at Stopped\<lparr>the_rc := ?rc\<rparr>)"
    using cs_top [of "?s\<lparr>the_rc := ?rc\<rparr>" 0] by (simp add: demo_at_def run_top_def)
  have "\<forall>n. pc (demo_at Stopped\<lparr>the_rc := ?rc\<rparr>) \<noteq> Connecting n"
    using client_close_final [OF r _ _ c r_into_rtranclp [of client_step, OF st]] by (simp add: demo_at_def)
  with st show ?thesis by blast
qed

text \<open>
  Close during the set-up of a connection is lost. When the connection is ready but
  not yet recorded, Close returns without closing it; the client then serves it as
  if nothing had happened, and cannot be closed again: a second Close panics.
\<close>

theorem close_lost_during_connect:
  assumes "client_reachable s" and "pc s = Ready n c" and "\<not> shut c" and "rc_Close (the_rc s) = Some rc"
  shows "\<exists>t k. client_step (s\<lparr>the_rc := rc\<rparr>) t \<and> pc t = Up n k \<and> rc_stopped (the_rc t) \<and> IsConnected (the_rc t)
     \<and> \<not> shut (conn (rc_ccs (the_rc t) ! k)) \<and> rc_Close (the_rc t) = None"
proof -
  let ?t = "(s\<lparr>the_rc := rc\<rparr>)\<lparr>the_rc := connect_up rc c 0, pc := Up n (length (rc_ccs rc))\<rparr>"
  have "client_step (s\<lparr>the_rc := rc\<rparr>) ?t"
    using cs_up [of "s\<lparr>the_rc := rc\<rparr>" n c 0] assms(2) by simp
  moreover have "rc_stopped rc" using rc_Close_SomeD(2) [OF assms(4)] .
  ultimately show ?thesis
    using assms(3) by (intro exI [of _ ?t] exI [of _ "length (rc_ccs rc)"])
      (simp add: IsConnected_def rc_Close_def NewCtrlConn_def)
qed

theorem close_lost_during_connect_witness:
  "\<exists>t k. client_step (demo_at (Ready 0 registered)\<lparr>the_rc := demo_rc\<lparr>rc_stopped := True\<rparr>\<rparr>) t
     \<and> pc t = Up 0 k \<and> \<not> shut (conn (rc_ccs (the_rc t) ! k)) \<and> rc_Close (the_rc t) = None"
proof -
  have "rc_Close (the_rc (demo_at (Ready 0 registered))) = Some (demo_rc\<lparr>rc_stopped := True\<rparr>)"
    by (simp add: rc_Close_def demo_at_def demo_rc_def NewRemoteClient_def)
  moreover have "pc (demo_at (Ready 0 registered)) = Ready 0 registered" by (simp add: demo_at_def)
  ultimately show ?thesis
    using close_lost_during_connect [OF demo_ready_reachable _ conjunct2 [OF demo_registered]] by blast
qed

text \<open>
  A connection that was established and then ended is dialled again at once: no
  backoff, and the attempt is not counted.
\<close>

lemma lost_connection_no_backoff:
  assumes "client_step s t" and "pc s = Up n k" and "pc t = AtTop m"
  shows "m = 0 \<and> rc_reconnectCount (the_rc t) = rc_reconnectCount (the_rc s)
     \<and> (rc_stopped (the_rc t) \<or> client_step t (t\<lparr>pc := Connecting 0\<rparr>))"
  using assms
proof (cases rule: client_step.cases)
  case (cs_lost n' k' pref rc)
  then show ?thesis
    using assms handleChannels_lostD(5) [OF cs_lost(3)] cs_top [of t 0]
    by (cases "rc_stopped rc") (auto simp: run_top_def)
qed auto

end
