(* ===== verification/Remote_Server.thy ===== *)
theory Remote_Server
  imports Ctrl_Conn Handshake Net_Addr
begin

text \<open>
  The remote server (\<^verbatim>\<open>relay/remoteserver.go\<close>): admission of control connections,
  the public listeners that several control connections share, round-robin
  dispatch of public connections onto them, and teardown. Control connections and
  shared listeners are objects the code passes by pointer; here they live in two
  stores and are named by their index. Each critical section of the code is one
  definition, so that the interleavings of goroutines are sequences of them.
\<close>

section \<open>State\<close>

text \<open>
  \<^verbatim>\<open>sharedListener\<close>: \<open>sl_open\<close> says whether \<^verbatim>\<open>ln\<close> still accepts. The field \<^verbatim>\<open>next\<close> is
  never negative.
\<close>

record sharedListener =
  sl_port :: u16
  sl_bind :: string
  sl_open :: bool
  sl_conns :: "(nat \<times> string) list"
  sl_order :: "nat list"
  sl_next :: nat
  sl_closed :: bool

record RemoteServer =
  rs_ctrlLn :: bool
  rs_token :: string
  rs_conns :: "nat list"
  rs_closed :: bool
  rs_done :: bool
  rs_listeners :: "((u16 \<times> string) \<times> nat) list"
  rs_sls :: "sharedListener list"
  rs_ccs :: "ctrl_conn list"

definition upd_sl :: "nat \<Rightarrow> (sharedListener \<Rightarrow> sharedListener) \<Rightarrow> RemoteServer \<Rightarrow> RemoteServer" where
  "upd_sl l f rs = rs\<lparr>rs_sls := (rs_sls rs)[l := f (rs_sls rs ! l)]\<rparr>"

definition upd_cc :: "nat \<Rightarrow> (ctrl_conn \<Rightarrow> ctrl_conn) \<Rightarrow> RemoteServer \<Rightarrow> RemoteServer" where
  "upd_cc r f rs = rs\<lparr>rs_ccs := (rs_ccs rs)[r := f (rs_ccs rs ! r)]\<rparr>"

text \<open>\<open>lnErr\<close> is what binding the control address answers.\<close>

definition NewRemoteServer :: "error option \<Rightarrow> string \<Rightarrow> bool \<Rightarrow> RemoteServer res" where
  "NewRemoteServer lnErr token tlsEnabled =
     (case lnErr of
        Some e \<Rightarrow> Inl (Wrap (if tlsEnabled then ''remote server tls listen'' else ''remote server listen'') e)
      | None \<Rightarrow> Inr \<lparr>rs_ctrlLn = True, rs_token = token, rs_conns = [], rs_closed = False, rs_done = False,
                    rs_listeners = [], rs_sls = [], rs_ccs = []\<rparr>)"

text \<open>One turn of \<^verbatim>\<open>Serve\<close>: what \<^verbatim>\<open>Accept\<close> returned, and whether the loop returns.\<close>

datatype serve_turn = ServeReturns "error option" | ServeClient net_conn

definition Serve_turn :: "RemoteServer \<Rightarrow> net_conn res \<Rightarrow> serve_turn" where
  "Serve_turn rs acc =
     (case acc of
        Inl err \<Rightarrow> if rs_done rs then ServeReturns None
                   else ServeReturns (Some (Wrap ''remote server accept'' err))
      | Inr c \<Rightarrow> ServeClient c)"


section \<open>Control connections\<close>

definition trackConn :: "RemoteServer \<Rightarrow> nat \<Rightarrow> bool \<times> RemoteServer" where
  "trackConn rs cc =
     (if rs_closed rs then (False, rs) else (True, rs\<lparr>rs_conns := List.insert cc (rs_conns rs)\<rparr>))"

definition untrackConn :: "RemoteServer \<Rightarrow> nat \<Rightarrow> RemoteServer" where
  "untrackConn rs cc = rs\<lparr>rs_conns := removeAll cc (rs_conns rs)\<rparr>"

text \<open>
  \<^verbatim>\<open>handleClient\<close> up to the point where it waits for the control connection to end:
  either the client is dropped, with its connection closed, or it is served, with
  the tunnels it registered, each of which gets a goroutine.
\<close>

datatype client_start = Dropped net_conn | Serving nat "RemoteTunnel list"

definition handleClient_register :: "RemoteServer \<Rightarrow> net_conn \<Rightarrow> int \<Rightarrow> client_start \<times> RemoteServer" where
  "handleClient_register rs c now =
     (case RegisterServer c of
        (Inl err, c1) \<Rightarrow> (Dropped (conn_Close c1), rs)
      | (Inr tunnels, c1) \<Rightarrow>
          let r = length (rs_ccs rs);
              rs1 = rs\<lparr>rs_ccs := rs_ccs rs @ [NewCtrlConn c1 now]\<rparr> in
          case trackConn rs1 r of
            (False, rs2) \<Rightarrow>
              let rs3 = upd_cc r ctrl_Close rs2 in (Dropped (conn_Close (conn (rs_ccs rs3 ! r))), rs3)
          | (True, rs2) \<Rightarrow> (Serving r tunnels, rs2))"

definition handleClient :: "RemoteServer \<Rightarrow> net_conn \<Rightarrow> int \<Rightarrow> client_start \<times> RemoteServer" where
  "handleClient rs c now =
     (if rs_token rs \<noteq> '''' then
        (case AuthServer c (rs_token rs) of
           (Some err, c1) \<Rightarrow> (Dropped (conn_Close c1), rs)
         | (None, c1) \<Rightarrow> handleClient_register rs c1 now)
      else handleClient_register rs c now)"

text \<open>The deferred calls when the control connection has ended.\<close>

definition handleClient_exit :: "RemoteServer \<Rightarrow> nat \<Rightarrow> RemoteServer" where
  "handleClient_exit rs r =
     upd_cc r (\<lambda>cc. cc\<lparr>conn := conn_Close (conn cc)\<rparr>) (upd_cc r ctrl_Close (untrackConn rs r))"


section \<open>Shared listeners\<close>

definition defaultBindAddr :: "string \<Rightarrow> string" where
  "defaultBindAddr addr = (if addr = '''' then ''0.0.0.0'' else addr)"

text \<open>
  \<^verbatim>\<open>listenTunnel\<close>: attempt \<open>n\<close> to bind answers \<open>listen n\<close>; after a failure the clock
  shows \<open>now n\<close>, and \<open>dead n\<close> says whether the wait of 100 ms was cut short by the
  end of the control connection. Times are in nanoseconds. Running out of fuel is
  the value \<open>None\<close>.
\<close>

fun listenTunnel_loop ::
  "(nat \<Rightarrow> error option) \<Rightarrow> (nat \<Rightarrow> int) \<Rightarrow> (nat \<Rightarrow> bool) \<Rightarrow> int \<Rightarrow> nat \<Rightarrow> nat \<Rightarrow> error option option" where
  "listenTunnel_loop listen now dead deadline 0 n = None"
| "listenTunnel_loop listen now dead deadline (Suc fuel) n =
     (case listen n of
        None \<Rightarrow> Some None
      | Some err \<Rightarrow>
          if now n > deadline then Some (Some err)
          else if dead n then Some (Some err)
          else listenTunnel_loop listen now dead deadline fuel (Suc n))"

definition listenTunnel ::
  "(nat \<Rightarrow> error option) \<Rightarrow> (nat \<Rightarrow> int) \<Rightarrow> (nat \<Rightarrow> bool) \<Rightarrow> int \<Rightarrow> nat \<Rightarrow> error option option" where
  "listenTunnel listen now dead start fuel =
     listenTunnel_loop listen now dead (start + 3 * 10 ^ 9) fuel 0"

text \<open>
  \<^verbatim>\<open>attachSharedListener\<close>, all under \<^verbatim>\<open>rs.mu\<close>. \<open>listen\<close> is what \<^verbatim>\<open>listenTunnel\<close> answers
  for an address.
\<close>

definition sl_register :: "nat \<Rightarrow> string \<Rightarrow> sharedListener \<Rightarrow> sharedListener" where
  "sl_register cc target sl =
     (if map_of (sl_conns sl) cc = None
      then sl\<lparr>sl_conns := AList.update cc target (sl_conns sl), sl_order := sl_order sl @ [cc]\<rparr>
      else sl\<lparr>sl_conns := AList.update cc target (sl_conns sl)\<rparr>)"

definition attach_fresh ::
  "(string \<Rightarrow> error option) \<Rightarrow> RemoteServer \<Rightarrow> u16 \<Rightarrow> string \<Rightarrow> string \<Rightarrow> nat \<Rightarrow> nat res \<times> RemoteServer" where
  "attach_fresh listen rs port bindAddr target cc =
     (case listen (JoinHostPort (defaultBindAddr bindAddr) (itoa (unat port))) of
        Some err \<Rightarrow> (Inl err, rs)
      | None \<Rightarrow>
          let l = length (rs_sls rs);
              sl = \<lparr>sl_port = port, sl_bind = bindAddr, sl_open = True, sl_conns = [(cc, target)],
                    sl_order = [cc], sl_next = 0, sl_closed = False\<rparr> in
          (Inr l, rs\<lparr>rs_sls := rs_sls rs @ [sl],
                     rs_listeners := AList.update (port, bindAddr) l (rs_listeners rs)\<rparr>))"

definition attachSharedListener ::
  "(string \<Rightarrow> error option) \<Rightarrow> RemoteServer \<Rightarrow> u16 \<Rightarrow> string \<Rightarrow> string \<Rightarrow> nat \<Rightarrow> nat res \<times> RemoteServer" where
  "attachSharedListener listen rs port bindAddr target cc =
     (if rs_closed rs then (Inl (Errorf ''server closed''), rs)
      else case map_of (rs_listeners rs) (port, bindAddr) of
        Some l \<Rightarrow>
          if \<not> sl_closed (rs_sls rs ! l) then (Inr l, upd_sl l (sl_register cc target) rs)
          else attach_fresh listen
                 (rs\<lparr>rs_listeners := AList.delete (port, bindAddr) (rs_listeners rs)\<rparr>) port bindAddr target cc
      | None \<Rightarrow> attach_fresh listen rs port bindAddr target cc)"

text \<open>
  \<^verbatim>\<open>detachSharedListener\<close> has three parts: one under \<^verbatim>\<open>sl.mu\<close>, which says whether
  the listener must be closed, then \<^verbatim>\<open>sl.Close\<close>, then one under \<^verbatim>\<open>rs.mu\<close>.
\<close>

fun index_of :: "nat \<Rightarrow> nat list \<Rightarrow> nat option" where
  "index_of cc [] = None"
| "index_of cc (c # cs) = (if c = cc then Some 0 else map_option Suc (index_of cc cs))"

definition sl_unregister :: "nat \<Rightarrow> sharedListener \<Rightarrow> bool \<times> sharedListener" where
  "sl_unregister cc sl =
     (if map_of (sl_conns sl) cc = None then (False, sl)
      else
        let sl1 = sl\<lparr>sl_conns := AList.delete cc (sl_conns sl)\<rparr>;
            sl2 = (case index_of cc (sl_order sl1) of
                     None \<Rightarrow> sl1
                   | Some idx \<Rightarrow>
                       let order = take idx (sl_order sl1) @ drop (idx + 1) (sl_order sl1);
                           n1 = (if sl_next sl1 > idx then sl_next sl1 - 1 else sl_next sl1);
                           n2 = (if n1 \<ge> length order then 0 else n1) in
                       sl1\<lparr>sl_order := order, sl_next := n2\<rparr>) in
        (length (sl_order sl2) = 0, sl2))"

definition sl_Close :: "sharedListener \<Rightarrow> sharedListener" where
  "sl_Close sl = (if sl_closed sl then sl else sl\<lparr>sl_closed := True, sl_open := False\<rparr>)"

definition forgetListener :: "RemoteServer \<Rightarrow> nat \<Rightarrow> RemoteServer" where
  "forgetListener rs l =
     (let key = (sl_port (rs_sls rs ! l), sl_bind (rs_sls rs ! l)) in
      if map_of (rs_listeners rs) key = Some l
      then rs\<lparr>rs_listeners := AList.delete key (rs_listeners rs)\<rparr>
      else rs)"

definition detachSharedListener :: "RemoteServer \<Rightarrow> nat \<Rightarrow> nat \<Rightarrow> RemoteServer" where
  "detachSharedListener rs l cc =
     (let (shouldClose, sl) = sl_unregister cc (rs_sls rs ! l);
          rs1 = upd_sl l (\<lambda>_. sl) rs in
      if shouldClose then forgetListener (upd_sl l sl_Close rs1) l else rs1)"

text \<open>
  \<^verbatim>\<open>serveRemoteTunnel\<close> before and after its wait for the control connection.
\<close>

definition serveRemoteTunnel_start ::
  "(string \<Rightarrow> error option) \<Rightarrow> RemoteServer \<Rightarrow> nat \<Rightarrow> RemoteTunnel \<Rightarrow> nat option \<times> RemoteServer" where
  "serveRemoteTunnel_start listen rs cc t =
     (case attachSharedListener listen rs (RemotePort t) (BindAddr t) (TargetAddr t) cc of
        (Inl err, rs1) \<Rightarrow> (None, rs1)
      | (Inr l, rs1) \<Rightarrow> (Some l, rs1))"

definition serveRemoteTunnel_end :: "RemoteServer \<Rightarrow> nat \<Rightarrow> nat \<Rightarrow> RemoteServer" where
  "serveRemoteTunnel_end rs l cc = detachSharedListener rs l cc"


section \<open>Dispatch\<close>

text \<open>
  The choice \<^verbatim>\<open>dispatch\<close> makes under \<^verbatim>\<open>sl.mu\<close>: no choice without control connections.
  A missing map entry reads as the empty string.
\<close>

definition dispatch_pick :: "sharedListener \<Rightarrow> (nat \<times> string) option \<times> sharedListener" where
  "dispatch_pick sl =
     (if length (sl_order sl) = 0 then (None, sl)
      else
        let cc = sl_order sl ! (sl_next sl mod length (sl_order sl));
            target = (case map_of (sl_conns sl) cc of None \<Rightarrow> '''' | Some t \<Rightarrow> t) in
        (Some (cc, target), sl\<lparr>sl_next := (sl_next sl + 1) mod length (sl_order sl)\<rparr>))"

datatype dispatched = NoControlConn | OpenFailed nat error | Relaying nat nat

definition dispatch :: "RemoteServer \<Rightarrow> nat \<Rightarrow> dispatched \<times> RemoteServer" where
  "dispatch rs l =
     (case dispatch_pick (rs_sls rs ! l) of
        (None, sl) \<Rightarrow> (NoControlConn, rs)
      | (Some (cc, target), sl) \<Rightarrow>
          let rs1 = upd_sl l (\<lambda>_. sl) rs in
          case OpenChannel (rs_ccs rs1 ! cc) target of
            (Inl err, c) \<Rightarrow> (OpenFailed cc err, upd_cc cc (\<lambda>_. c) rs1)
          | (Inr ch, c) \<Rightarrow> (Relaying cc ch, upd_cc cc (\<lambda>_. c) rs1))"

text \<open>One turn of \<^verbatim>\<open>acceptLoop\<close>; \<open>None\<close> when the loop returns.\<close>

definition acceptLoop_turn :: "RemoteServer \<Rightarrow> nat \<Rightarrow> unit res \<Rightarrow> dispatched option \<times> RemoteServer" where
  "acceptLoop_turn rs l acc =
     (case acc of
        Inl err \<Rightarrow> (None, rs)
      | Inr _ \<Rightarrow> (case dispatch rs l of (d, rs1) \<Rightarrow> (Some d, rs1)))"

text \<open>\<^verbatim>\<open>RemoteServer.Close\<close>; \<open>lnErr\<close> is what closing the control listener answers.\<close>

definition rs_Close :: "RemoteServer \<Rightarrow> error option \<Rightarrow> error option \<times> RemoteServer" where
  "rs_Close rs lnErr =
     (if rs_closed rs then (None, rs)
      else
        let rs1 = rs\<lparr>rs_closed := True, rs_done := True, rs_ctrlLn := False\<rparr>;
            rs2 = fold (\<lambda>r. upd_cc r ctrl_Close) (rs_conns rs1) rs1;
            rs3 = fold (\<lambda>l. upd_sl l sl_Close) (map snd (rs_listeners rs1)) rs2 in
        (lnErr, rs3))"

section \<open>The rotating queue\<close>

text \<open>
  What the dispatcher promises, as an interface: the scheduler holds a queue of
  clients, each pick serves the first one and moves it to the end. Fairness
  follows from this alone.
\<close>

locale scheduler =
  fixes pick :: "'s \<Rightarrow> 'c option \<times> 's"
    and queue :: "'s \<Rightarrow> 'c list"
    and wf :: "'s \<Rightarrow> bool"
  assumes pick_empty: "wf s \<Longrightarrow> queue s = [] \<Longrightarrow> fst (pick s) = None"
    and pick_rotates: "wf s \<Longrightarrow> queue s = c # q \<Longrightarrow> \<exists>s'. pick s = (Some c, s') \<and> queue s' = q @ [c] \<and> wf s'"
begin

primrec picks :: "nat \<Rightarrow> 's \<Rightarrow> 'c option list \<times> 's" where
  "picks 0 s = ([], s)"
| "picks (Suc n) s = (case pick s of (c, s1) \<Rightarrow> (case picks n s1 of (cs, s2) \<Rightarrow> (c # cs, s2)))"

lemma picks_prefix:
  assumes "wf s" and "queue s = p @ q"
  shows "\<exists>s'. picks (length p) s = (map Some p, s') \<and> queue s' = q @ p \<and> wf s'"
  using assms
proof (induction p arbitrary: s q)
  case (Cons c p)
  then obtain s1 where s1: "pick s = (Some c, s1)" "queue s1 = p @ (q @ [c])" "wf s1"
    using pick_rotates [of s c "p @ q"] by auto
  from Cons.IH [OF s1(3,2)] obtain s' where "picks (length p) s1 = (map Some p, s')"
    "queue s' = (q @ [c]) @ p" "wf s'" by blast
  with s1(1) show ?case by auto
qed simp

text \<open>One round serves everyone once, in order, and leaves the queue as it was.\<close>

lemma picks_round:
  "wf s \<Longrightarrow> \<exists>s'. picks (length (queue s)) s = (map Some (queue s), s') \<and> queue s' = queue s \<and> wf s'"
  using picks_prefix [of s "queue s" "[]"] by simp

lemma picks_add:
  "picks (m + n) s = (case picks m s of (cs, s1) \<Rightarrow> (case picks n s1 of (ds, s2) \<Rightarrow> (cs @ ds, s2)))"
  by (induction m arbitrary: s) (auto split: prod.splits)

lemma picks_fair:
  "wf s \<Longrightarrow> \<exists>s'. picks (k * length (queue s)) s = (concat (replicate k (map Some (queue s))), s')
     \<and> queue s' = queue s \<and> wf s'"
proof (induction k arbitrary: s)
  case (Suc k)
  from picks_round [OF Suc.prems] obtain s1 where
    s1: "picks (length (queue s)) s = (map Some (queue s), s1)" "queue s1 = queue s" "wf s1" by blast
  from Suc.IH [OF s1(3)] s1(2) obtain s' where
    "picks (k * length (queue s)) s1 = (concat (replicate k (map Some (queue s))), s')"
    "queue s' = queue s" "wf s'" by auto
  with s1(1) show ?case by (simp add: picks_add)
qed simp

end

text \<open>
  The shared listener's side: the round-robin order is without duplicates and
  lists exactly the registered control connections, and \<^verbatim>\<open>next\<close> is an index into
  it. The queue is the order, starting at \<^verbatim>\<open>next\<close>.
\<close>

definition sl_wf :: "sharedListener \<Rightarrow> bool" where
  "sl_wf sl \<longleftrightarrow> distinct (sl_order sl) \<and> set (sl_order sl) = fst ` set (sl_conns sl)
     \<and> (sl_next sl < length (sl_order sl) \<or> sl_order sl = [] \<and> sl_next sl = 0)"

definition rr_queue :: "sharedListener \<Rightarrow> nat list" where
  "rr_queue sl = drop (sl_next sl) (sl_order sl) @ take (sl_next sl) (sl_order sl)"

lemma rr_queue_set [simp]: "set (rr_queue sl) = set (sl_order sl)"
proof -
  have "set (take (sl_next sl) (sl_order sl) @ drop (sl_next sl) (sl_order sl)) = set (rr_queue sl)"
    unfolding rr_queue_def set_append by (rule Un_commute)
  then show ?thesis by simp
qed

lemma rr_queue_length [simp]: "length (rr_queue sl) = length (sl_order sl)"
  by (simp add: rr_queue_def)

lemma rr_queue_distinct: "distinct (sl_order sl) \<Longrightarrow> distinct (rr_queue sl)"
  by (simp add: card_distinct distinct_card)

lemma rr_queue_nil [simp]: "rr_queue sl = [] \<longleftrightarrow> sl_order sl = []"
  by (metis length_0_conv rr_queue_length)

lemma pick_rotates_rr:
  assumes "sl_wf sl" and "rr_queue sl = c # q"
  shows "\<exists>sl'. dispatch_pick sl = (Some (c, case map_of (sl_conns sl) c of None \<Rightarrow> '''' | Some t \<Rightarrow> t), sl')
     \<and> rr_queue sl' = q @ [c] \<and> sl_wf sl' \<and> sl_conns sl' = sl_conns sl \<and> sl_order sl' = sl_order sl"
proof -
  let ?o = "sl_order sl" and ?n = "sl_next sl"
  have n: "?n < length ?o" using assms by (auto simp: sl_wf_def rr_queue_def)
  then have d: "drop ?n ?o = ?o ! ?n # drop (Suc ?n) ?o" by (rule Cons_nth_drop_Suc [symmetric])
  with assms(2) have c: "c = ?o ! ?n" "q = drop (Suc ?n) ?o @ take ?n ?o" by (auto simp: rr_queue_def)
  let ?sl = "sl\<lparr>sl_next := (?n + 1) mod length ?o\<rparr>"
  have "rr_queue ?sl = q @ [c]"
  proof (cases "Suc ?n = length ?o")
    case True
    then show ?thesis using c n by (simp add: rr_queue_def take_Suc_conv_app_nth [symmetric])
  next
    case False
    then have "Suc ?n mod length ?o = Suc ?n" using n by simp
    then show ?thesis using c n by (simp add: rr_queue_def take_Suc_conv_app_nth)
  qed
  moreover have "sl_wf ?sl"
  proof -
    have "0 < length ?o" using n by linarith
    then have "(?n + 1) mod length ?o < length ?o" by (rule mod_less_divisor)
    then show ?thesis using assms(1) by (simp add: sl_wf_def)
  qed
  moreover have "?o \<noteq> []" using n by auto
  ultimately show ?thesis using c n by (simp add: dispatch_pick_def Let_def)
qed

definition pick_conn :: "sharedListener \<Rightarrow> nat option \<times> sharedListener" where
  "pick_conn sl = (case dispatch_pick sl of (r, sl') \<Rightarrow> (map_option fst r, sl'))"

interpretation rr: scheduler pick_conn rr_queue sl_wf
proof
  fix s assume "sl_wf s" "rr_queue s = []"
  then show "fst (pick_conn s) = None" by (simp add: pick_conn_def dispatch_pick_def)
next
  fix s c q assume "sl_wf s" "rr_queue s = c # q"
  from pick_rotates_rr [OF this] show "\<exists>s'. pick_conn s = (Some c, s') \<and> rr_queue s' = q @ [c] \<and> sl_wf s'"
    by (auto simp: pick_conn_def)
qed

lemma index_of_split:
  "c \<in> set xs \<Longrightarrow> \<exists>i. index_of c xs = Some i \<and> i < length xs \<and> xs ! i = c \<and> take i xs @ drop (i + 1) xs = remove1 c xs
     \<and> c \<notin> set (take i xs)"
  by (induction xs) auto

lemma sl_register_wf:
  assumes "sl_wf sl"
  shows "sl_wf (sl_register cc target sl)"
    and "map_of (sl_conns (sl_register cc target sl)) cc = Some target"
    and "cc \<in> set (sl_order (sl_register cc target sl))"
  using assms
  by (auto simp: sl_wf_def sl_register_def update_conv' map_of_eq_None_iff dom_update image_iff
      split: if_splits)

text \<open>Removing a control connection removes it from the queue and leaves the others in their order.\<close>

lemma order_remove:
  assumes "order = u @ cc # v" and "distinct order" and "n < length order"
  defines "m \<equiv> (if n > length u then n - 1 else n)"
  defines "k \<equiv> (if m \<ge> length (u @ v) then 0 else m)"
  shows "drop k (u @ v) @ take k (u @ v) = removeAll cc (drop n order @ take n order)"
    and "k < length (u @ v) \<or> u @ v = [] \<and> k = 0"
proof -
  have nin: "cc \<notin> set u" "cc \<notin> set v" using assms(1,2) by auto
  have sub: "cc \<notin> set (take i u)" "cc \<notin> set (drop i u)" "cc \<notin> set (take i v)" "cc \<notin> set (drop i v)" for i
    using nin by (meson in_set_takeD in_set_dropD)+
  show "drop k (u @ v) @ take k (u @ v) = removeAll cc (drop n order @ take n order)"
  proof (cases "n > length u")
    case True
    then obtain j where j: "n = Suc (length u + j)" by (metis less_iff_Suc_add)
    then have "k = length u + j" using assms(1,3) by (auto simp: m_def k_def)
    then show ?thesis using assms(1) j nin sub by (simp add: Suc_diff_le)
  next
    case False
    then have "m = n" by (simp add: m_def)
    show ?thesis
    proof (cases "n \<ge> length (u @ v)")
      case True
      with False have "v = []" "n = length u" by (cases v; simp)+
      with \<open>m = n\<close> assms(1) nin show ?thesis by (simp add: k_def)
    next
      case less: False
      with \<open>m = n\<close> False assms(1) nin sub show ?thesis by (simp add: k_def)
    qed
  qed
  show "k < length (u @ v) \<or> u @ v = [] \<and> k = 0" by (auto simp: k_def)
qed

lemma sl_unregister_wf:
  assumes "sl_wf sl" and "sl_unregister cc sl = (b, sl')"
  shows "sl_wf sl' \<and> rr_queue sl' = removeAll cc (rr_queue sl)
    \<and> (b \<longleftrightarrow> cc \<in> set (sl_order sl) \<and> sl_order sl' = []) \<and> set (sl_order sl') = set (sl_order sl) - {cc}
    \<and> sl_port sl' = sl_port sl \<and> sl_bind sl' = sl_bind sl \<and> sl_closed sl' = sl_closed sl \<and> sl_open sl' = sl_open sl"
proof (cases "cc \<in> set (sl_order sl)")
  case False
  then have "map_of (sl_conns sl) cc = None" using assms(1) by (simp add: sl_wf_def map_of_eq_None_iff)
  with assms False show ?thesis by (auto simp: sl_unregister_def)
next
  case True
  then have some: "map_of (sl_conns sl) cc \<noteq> None" using assms(1) by (simp add: sl_wf_def map_of_eq_None_iff)
  from index_of_split [OF True] obtain i where i: "index_of cc (sl_order sl) = Some i" "i < length (sl_order sl)"
    "sl_order sl ! i = cc" by blast
  define u v where "u = take i (sl_order sl)" and "v = drop (i + 1) (sl_order sl)"
  have o: "sl_order sl = u @ cc # v" and lu: "length u = i"
    using i(2,3) id_take_nth_drop [OF i(2)] by (simp_all add: u_def v_def)
  have d: "distinct (sl_order sl)" and n: "sl_next sl < length (sl_order sl)"
    and cs: "set (sl_order sl) = fst ` set (sl_conns sl)"
    using assms(1) True by (auto simp: sl_wf_def)
  define k where "k = (let m = if sl_next sl > i then sl_next sl - 1 else sl_next sl in if m \<ge> length (u @ v) then 0 else m)"
  note q = order_remove [OF o d n, unfolded lu]
  have sl': "sl' = sl\<lparr>sl_conns := AList.delete cc (sl_conns sl), sl_order := u @ v, sl_next := k\<rparr>"
    "b = (u @ v = [])"
    using assms(2) some i(1) by (auto simp: sl_unregister_def Let_def u_def v_def k_def)
  have dv: "distinct (u @ v)" "set (u @ v) = set (sl_order sl) - {cc}" using d o by auto
  have "fst ` set (AList.delete cc (sl_conns sl)) = fst ` set (sl_conns sl) - {cc}"
    by (auto simp: AList.delete_eq image_iff)
  then show ?thesis
    using sl' q dv cs True by (auto simp: sl_wf_def rr_queue_def k_def Let_def)
qed

section \<open>The server as a state machine\<close>

text \<open>
  The interleavings of the server's goroutines, one critical section per step.
  \<open>closing\<close> holds the detachments that have found their listener empty and not yet
  closed it, \<open>forgetting\<close> those that have closed it and not yet removed it from the
  table.
\<close>

record server =
  the_rs :: RemoteServer
  closing :: "nat list"
  forgetting :: "nat list"

inductive server_step :: "server \<Rightarrow> server \<Rightarrow> bool" where
  st_client: "handleClient (the_rs s) c now = (r, rs') \<Longrightarrow> server_step s (s\<lparr>the_rs := rs'\<rparr>)"
| st_exit: "server_step s (s\<lparr>the_rs := handleClient_exit (the_rs s) cc\<rparr>)"
| st_attach: "attachSharedListener listen (the_rs s) port bnd target cc = (r, rs') \<Longrightarrow>
     server_step s (s\<lparr>the_rs := rs'\<rparr>)"
| st_unregister: "l < length (rs_sls (the_rs s)) \<Longrightarrow> sl_unregister cc (rs_sls (the_rs s) ! l) = (b, sl) \<Longrightarrow>
     server_step s (s\<lparr>the_rs := upd_sl l (\<lambda>_. sl) (the_rs s), closing := (if b then l # closing s else closing s)\<rparr>)"
| st_close: "l \<in> set (closing s) \<Longrightarrow>
     server_step s (s\<lparr>the_rs := upd_sl l sl_Close (the_rs s), closing := remove1 l (closing s),
                      forgetting := l # forgetting s\<rparr>)"
| st_forget: "l \<in> set (forgetting s) \<Longrightarrow>
     server_step s (s\<lparr>the_rs := forgetListener (the_rs s) l, forgetting := remove1 l (forgetting s)\<rparr>)"
| st_dispatch: "l < length (rs_sls (the_rs s)) \<Longrightarrow> dispatch (the_rs s) l = (d, rs') \<Longrightarrow>
     server_step s (s\<lparr>the_rs := rs'\<rparr>)"
| st_Close: "rs_Close (the_rs s) lnErr = (e, rs') \<Longrightarrow> server_step s (s\<lparr>the_rs := rs'\<rparr>)"

definition server_init :: "server \<Rightarrow> bool" where
  "server_init s \<longleftrightarrow> closing s = [] \<and> forgetting s = []
     \<and> (\<exists>token tls. NewRemoteServer None token tls = Inr (the_rs s))"

text \<open>
  The invariant: every shared listener is well formed, its listening socket is open
  exactly when it is not closed, and every entry of the table leads to a listener
  for its port and bind address.
\<close>

definition rs_wf :: "RemoteServer \<Rightarrow> bool" where
  "rs_wf rs \<longleftrightarrow> (\<forall>sl\<in>set (rs_sls rs). sl_wf sl \<and> (sl_open sl \<longleftrightarrow> \<not> sl_closed sl))
     \<and> (\<forall>key l. map_of (rs_listeners rs) key = Some l \<longrightarrow> l < length (rs_sls rs)
          \<and> key = (sl_port (rs_sls rs ! l), sl_bind (rs_sls rs ! l)))"

lemma upd_sl_nth:
  "rs_sls (upd_sl l f rs) ! k = (if k = l \<and> l < length (rs_sls rs) then f (rs_sls rs ! l) else rs_sls rs ! k)"
  "length (rs_sls (upd_sl l f rs)) = length (rs_sls rs)" "rs_listeners (upd_sl l f rs) = rs_listeners rs"
  "rs_closed (upd_sl l f rs) = rs_closed rs"
  by (auto simp: upd_sl_def nth_list_update list_update_beyond)

lemma rs_wf_upd_sl:
  assumes "rs_wf rs" and "l < length (rs_sls rs) \<Longrightarrow> sl_wf (f (rs_sls rs ! l))
      \<and> sl_open (f (rs_sls rs ! l)) = (\<not> sl_closed (f (rs_sls rs ! l)))
      \<and> sl_port (f (rs_sls rs ! l)) = sl_port (rs_sls rs ! l) \<and> sl_bind (f (rs_sls rs ! l)) = sl_bind (rs_sls rs ! l)"
  shows "rs_wf (upd_sl l f rs)"
proof (cases "l < length (rs_sls rs)")
  case True
  have "\<forall>sl\<in>set (rs_sls (upd_sl l f rs)). sl_wf sl \<and> (sl_open sl \<longleftrightarrow> \<not> sl_closed sl)"
    using assms True by (auto simp: rs_wf_def upd_sl_def dest!: set_update_subset_insert [THEN subsetD])
  then show ?thesis
    using assms True by (auto simp: rs_wf_def upd_sl_nth)
next
  case False
  then have "upd_sl l f rs = rs" by (simp add: upd_sl_def list_update_beyond)
  with assms(1) show ?thesis by simp
qed

lemma rs_wf_nth: "rs_wf rs \<Longrightarrow> l < length (rs_sls rs) \<Longrightarrow>
    sl_wf (rs_sls rs ! l) \<and> (sl_open (rs_sls rs ! l) \<longleftrightarrow> \<not> sl_closed (rs_sls rs ! l))"
  by (simp add: rs_wf_def)

lemma rs_wf_cong: "rs_sls rs' = rs_sls rs \<Longrightarrow> rs_listeners rs' = rs_listeners rs \<Longrightarrow> rs_wf rs' = rs_wf rs"
  by (simp add: rs_wf_def)

lemma rs_wf_delete: "rs_wf rs \<Longrightarrow> rs_wf (rs\<lparr>rs_listeners := AList.delete key (rs_listeners rs)\<rparr>)"
  by (auto simp: rs_wf_def delete_conv' split: if_splits)

lemma sl_register_meta [simp]:
  "sl_port (sl_register cc t sl) = sl_port sl" "sl_bind (sl_register cc t sl) = sl_bind sl"
  "sl_closed (sl_register cc t sl) = sl_closed sl" "sl_open (sl_register cc t sl) = sl_open sl"
  by (simp_all add: sl_register_def)

lemma sl_Close_meta [simp]:
  "sl_port (sl_Close sl) = sl_port sl" "sl_bind (sl_Close sl) = sl_bind sl" "sl_closed (sl_Close sl)"
  "sl_conns (sl_Close sl) = sl_conns sl" "sl_order (sl_Close sl) = sl_order sl" "sl_next (sl_Close sl) = sl_next sl"
  by (simp_all add: sl_Close_def)

lemma sl_Close_wf: "sl_wf sl \<Longrightarrow> sl_wf (sl_Close sl)"
  by (simp add: sl_wf_def)

lemma sl_Close_open: "(sl_open sl \<longleftrightarrow> \<not> sl_closed sl) \<Longrightarrow> \<not> sl_open (sl_Close sl)"
  by (simp add: sl_Close_def)

lemma rs_wf_close: "rs_wf rs \<Longrightarrow> rs_wf (upd_sl l sl_Close rs)"
  by (rule rs_wf_upd_sl) (use rs_wf_nth sl_Close_wf sl_Close_open in auto)

lemma attach_fresh_wf:
  assumes "rs_wf rs" and "attach_fresh listen rs port bnd target cc = (r, rs')"
  shows "rs_wf rs'"
proof (cases "listen (JoinHostPort (defaultBindAddr bnd) (itoa (unat port)))")
  case None
  with assms(2) have rs': "rs_sls rs' = rs_sls rs @ [\<lparr>sl_port = port, sl_bind = bnd, sl_open = True,
      sl_conns = [(cc, target)], sl_order = [cc], sl_next = 0, sl_closed = False\<rparr>]"
    "rs_listeners rs' = AList.update (port, bnd) (length (rs_sls rs)) (rs_listeners rs)"
    by (auto simp: attach_fresh_def Let_def)
  show ?thesis
    using assms(1) unfolding rs_wf_def rs'
    by (auto simp: sl_wf_def nth_append update_conv' less_SucI split: if_splits)
qed (use assms in \<open>simp add: attach_fresh_def\<close>)

lemma attach_wf:
  assumes "rs_wf rs" and "attachSharedListener listen rs port bnd target cc = (r, rs')"
  shows "rs_wf rs'"
proof -
  have reg: "rs_wf (upd_sl l (sl_register cc target) rs)" for l
    using assms(1) by (rule rs_wf_upd_sl) (use rs_wf_nth [OF assms(1)] sl_register_wf in auto)
  show ?thesis
    using assms reg attach_fresh_wf [of rs listen port bnd target cc r rs']
      attach_fresh_wf [OF rs_wf_delete [OF assms(1)], of listen "(port, bnd)" port bnd target cc r rs']
    by (auto simp: attachSharedListener_def split: if_splits option.splits)
qed

lemma dispatch_pick_keeps:
  assumes "sl_wf sl" and "dispatch_pick sl = (r, sl')"
  shows "sl_wf sl' \<and> sl_port sl' = sl_port sl \<and> sl_bind sl' = sl_bind sl \<and> sl_open sl' = sl_open sl
     \<and> sl_closed sl' = sl_closed sl"
proof (cases "sl_order sl = []")
  case True
  with assms show ?thesis by (simp add: dispatch_pick_def)
next
  case False
  then have "0 < length (sl_order sl)" by simp
  moreover have "sl' = sl\<lparr>sl_next := (sl_next sl + 1) mod length (sl_order sl)\<rparr>"
    using assms(2) False by (auto simp: dispatch_pick_def Let_def)
  ultimately show ?thesis using assms(1) by (simp add: sl_wf_def)
qed

lemma upd_cc_simps [simp]:
  "rs_sls (upd_cc r f rs) = rs_sls rs" "rs_listeners (upd_cc r f rs) = rs_listeners rs"
  "rs_conns (upd_cc r f rs) = rs_conns rs" "rs_closed (upd_cc r f rs) = rs_closed rs"
  "length (rs_ccs (upd_cc r f rs)) = length (rs_ccs rs)"
  by (simp_all add: upd_cc_def)

lemma dispatch_wf:
  assumes "rs_wf rs" and "l < length (rs_sls rs)" and "dispatch rs l = (d, rs')"
  shows "rs_wf rs'"
proof -
  obtain r sl where p: "dispatch_pick (rs_sls rs ! l) = (r, sl)" by fastforce
  have k: "rs_wf (upd_sl l (\<lambda>_. sl) rs)"
    using assms(1) by (rule rs_wf_upd_sl) (use dispatch_pick_keeps [OF _ p] rs_wf_nth [OF assms(1,2)] in auto)
  have "rs_sls rs' = rs_sls (if r = None then rs else upd_sl l (\<lambda>_. sl) rs)"
    "rs_listeners rs' = rs_listeners rs"
    using assms(3) p by (auto simp: dispatch_def Let_def upd_sl_nth split: option.splits prod.splits sum.splits)
  then show ?thesis
    using k assms(1) rs_wf_cong [of rs' rs] rs_wf_cong [of rs' "upd_sl l (\<lambda>_. sl) rs"]
    by (auto simp: upd_sl_nth split: if_splits)
qed

lemma fold_keeps:
  assumes "\<And>x rs. P rs \<Longrightarrow> P (f x rs)"
  shows "P rs \<Longrightarrow> P (fold f xs rs)"
  using assms by (induction xs arbitrary: rs) auto

lemma fold_upd_cc [simp]:
  "rs_sls (fold (\<lambda>r. upd_cc r f) xs rs) = rs_sls rs"
  "rs_listeners (fold (\<lambda>r. upd_cc r f) xs rs) = rs_listeners rs"
  "rs_closed (fold (\<lambda>r. upd_cc r f) xs rs) = rs_closed rs"
  by (induction xs arbitrary: rs) simp_all

lemma rs_Close_wf:
  assumes "rs_wf rs" and "rs_Close rs lnErr = (e, rs')"
  shows "rs_wf rs'"
proof (cases "rs_closed rs")
  case False
  let ?rs1 = "rs\<lparr>rs_closed := True, rs_done := True, rs_ctrlLn := False\<rparr>"
  let ?rs2 = "fold (\<lambda>r. upd_cc r ctrl_Close) (rs_conns ?rs1) ?rs1"
  have "rs_wf ?rs2" using assms(1) rs_wf_cong [of ?rs2 rs] by simp
  moreover have "rs' = fold (\<lambda>l. upd_sl l sl_Close) (map snd (rs_listeners ?rs1)) ?rs2"
    using assms(2) False by (simp add: rs_Close_def Let_def)
  ultimately show ?thesis by (simp only:) (rule fold_keeps [of rs_wf, OF rs_wf_close])
qed (use assms in \<open>simp add: rs_Close_def\<close>)

lemma forget_wf: "rs_wf rs \<Longrightarrow> rs_wf (forgetListener rs l)"
  using rs_wf_delete by (auto simp: forgetListener_def Let_def)

lemma handleClient_keeps:
  assumes "handleClient rs c now = (r, rs')"
  shows "rs_sls rs' = rs_sls rs \<and> rs_listeners rs' = rs_listeners rs \<and> rs_closed rs' = rs_closed rs"
  using assms
  by (auto simp: handleClient_def handleClient_register_def trackConn_def Let_def
      split: if_splits prod.splits option.splits sum.splits)

lemma server_step_wf:
  assumes "server_step s t" and "rs_wf (the_rs s)"
  shows "rs_wf (the_rs t)"
  using assms
proof cases
  case (st_client c now r rs')
  then show ?thesis using assms(2) handleClient_keeps [of "the_rs s" c now r rs'] rs_wf_cong [of rs' "the_rs s"] by simp
next
  case (st_exit cc)
  then show ?thesis
    using assms(2) rs_wf_cong [of "handleClient_exit (the_rs s) cc" "the_rs s"]
    by (simp add: handleClient_exit_def untrackConn_def)
next
  case (st_attach listen port bnd target cc r rs')
  then show ?thesis using attach_wf assms(2) by simp
next
  case (st_unregister l cc b sl)
  then show ?thesis
    using assms(2) sl_unregister_wf [OF _ st_unregister(3)] rs_wf_nth [OF assms(2), of l]
    by (auto intro!: rs_wf_upd_sl)
next
  case (st_dispatch l d rs')
  then show ?thesis using dispatch_wf assms(2) by simp
qed (use assms(2) rs_wf_close forget_wf rs_Close_wf in auto)

lemma server_init_wf: "server_init s \<Longrightarrow> rs_wf (the_rs s)"
  by (cases "the_rs s") (auto simp: server_init_def NewRemoteServer_def rs_wf_def)

interpretation srv: invariant_system server_init server_step "\<lambda>s. rs_wf (the_rs s)"
  by unfold_locales (auto intro: server_init_wf server_step_wf)

abbreviation server_reachable :: "server \<Rightarrow> bool" where
  "server_reachable \<equiv> reachable server_init server_step"

section \<open>Properties\<close>

text \<open>A new server, and one where two control connections share port 9090.\<close>

definition demo_new :: RemoteServer where
  "demo_new = \<lparr>rs_ctrlLn = True, rs_token = '''', rs_conns = [], rs_closed = False, rs_done = False,
     rs_listeners = [], rs_sls = [], rs_ccs = []\<rparr>"

definition demo_shared :: RemoteServer where
  "demo_shared = snd (attachSharedListener (\<lambda>_. None)
     (snd (attachSharedListener (\<lambda>_. None) demo_new 9090 '''' ''a:1'' 0)) 9090 '''' ''b:2'' 1)"

lemma demo_shared_sls:
  "rs_sls demo_shared = [\<lparr>sl_port = 9090, sl_bind = '''', sl_open = True, sl_conns = [(0, ''a:1''), (1, ''b:2'')],
     sl_order = [0, 1], sl_next = 0, sl_closed = False\<rparr>]"
  by (simp add: demo_shared_def demo_new_def attachSharedListener_def attach_fresh_def Let_def upd_sl_def
      sl_register_def)

lemma demo_shared_reachable: "server_reachable \<lparr>the_rs = demo_shared, closing = [], forgetting = []\<rparr>"
proof -
  let ?s = "\<lambda>rs. \<lparr>the_rs = rs, closing = [], forgetting = []\<rparr>"
  have step: "server_step (?s rs) (?s (snd (attachSharedListener listen rs port bnd t cc)))" for listen rs port bnd t cc
    using st_attach [of listen "?s rs" port bnd t cc] by (simp add: prod_eq_iff)
  have "server_init (?s demo_new)"
    by (auto simp: server_init_def demo_new_def NewRemoteServer_def)
  then show ?thesis
    unfolding demo_shared_def by (meson reachable_init reachable_step step)
qed

text \<open>
  C26: Dispatch is fair. In every state the server can reach, under every interleaving
  of attaching, detaching, dispatching and closing, \<open>k\<close> rounds of dispatches on a
  shared listener give each control connection registered on it exactly \<open>k\<close> public
  connections, in the same order every round.
\<close>

theorem dispatch_fair:
  assumes "server_reachable s" and "sl \<in> set (rs_sls (the_rs s))"
  shows "fst (rr.picks (k * length (sl_order sl)) sl) = concat (replicate k (map Some (rr_queue sl)))
     \<and> distinct (rr_queue sl) \<and> set (rr_queue sl) = fst ` set (sl_conns sl)"
proof -
  have wf: "sl_wf sl" using srv.reachable_inv [OF assms(1)] assms(2) by (simp add: rs_wf_def)
  from rr.picks_fair [OF this, of k] show ?thesis
    using wf rr_queue_distinct by (auto simp: sl_wf_def)
qed

theorem dispatch_fair_witness:
  "fst (rr.picks (2 * 2) (rs_sls demo_shared ! 0)) = [Some 0, Some 1, Some 0, Some 1]"
  using dispatch_fair [OF demo_shared_reachable, of "rs_sls demo_shared ! 0" 2]
  by (simp add: demo_shared_sls rr_queue_def numeral_2_eq_2)

text \<open>
  C21: A shared listener implements a rotating queue of control connections: an
  attach adds one at the place that is served last in the current round, a detach
  takes exactly that one out and keeps the order of the others, a dispatch serves
  the first one and moves it to the end. This holds in every reachable state.
\<close>

theorem shared_listener_refines_queue:
  assumes "server_reachable s" and "sl \<in> set (rs_sls (the_rs s))"
  shows "rr_queue (snd (sl_unregister cc sl)) = removeAll cc (rr_queue sl)
     \<and> (cc \<notin> set (rr_queue sl) \<longrightarrow> rr_queue (sl_register cc t sl)
          = drop (sl_next sl) (sl_order sl) @ [cc] @ take (sl_next sl) (sl_order sl))
     \<and> (cc \<in> set (rr_queue sl) \<longrightarrow> rr_queue (sl_register cc t sl) = rr_queue sl)
     \<and> map_of (sl_conns (sl_register cc t sl)) cc = Some t
     \<and> (rr_queue sl \<noteq> [] \<longrightarrow> rr_queue (snd (dispatch_pick sl)) = tl (rr_queue sl) @ [hd (rr_queue sl)])"
proof -
  have wf: "sl_wf sl" using srv.reachable_inv [OF assms(1)] assms(2) by (simp add: rs_wf_def)
  then have reg: "map_of (sl_conns sl) cc = None \<longleftrightarrow> cc \<notin> set (rr_queue sl)"
    and n: "sl_next sl \<le> length (sl_order sl)"
    by (auto simp: sl_wf_def map_of_eq_None_iff)
  have "rr_queue (snd (dispatch_pick sl)) = tl (rr_queue sl) @ [hd (rr_queue sl)]" if "rr_queue sl \<noteq> []"
    using pick_rotates_rr [OF wf, of "hd (rr_queue sl)" "tl (rr_queue sl)"] that by auto
  then show ?thesis
    using sl_unregister_wf [OF wf, of cc] reg n sl_register_wf(2) [OF wf]
    by (cases "sl_unregister cc sl") (auto simp: sl_register_def rr_queue_def)
qed

theorem shared_listener_refines_queue_witness:
  "rr_queue (snd (sl_unregister 0 (rs_sls demo_shared ! 0))) = [1]"
  using shared_listener_refines_queue [OF demo_shared_reachable, of "rs_sls demo_shared ! 0" 0]
  by (simp add: demo_shared_sls rr_queue_def)

text \<open>
  C31: A public connection goes to a registered control connection and to the target
  that control connection registered: the channel \<^verbatim>\<open>dispatch\<close> opens carries exactly
  that target.
\<close>

theorem dispatch_to_registered_target:
  assumes "server_reachable s" and "l < length (rs_sls (the_rs s))"
    and "dispatch (the_rs s) l = (Relaying cc ch, rs')" and "cc < length (rs_ccs (the_rs s))"
  shows "map_of (sl_conns (rs_sls (the_rs s) ! l)) cc = Some (ch_target (objs (rs_ccs rs' ! cc) ! ch))
     \<and> ch < length (objs (rs_ccs rs' ! cc))"
proof -
  let ?sl = "rs_sls (the_rs s) ! l"
  have wf: "sl_wf ?sl" using srv.reachable_inv [OF assms(1)] assms(2) by (simp add: rs_wf_def)
  have ne: "rr_queue ?sl \<noteq> []" using assms(3) by (auto simp: dispatch_def dispatch_pick_def split: if_splits)
  obtain t sl' where p: "dispatch_pick ?sl = (Some (hd (rr_queue ?sl), t), sl')"
    and t: "t = (case map_of (sl_conns ?sl) (hd (rr_queue ?sl)) of None \<Rightarrow> '''' | Some t \<Rightarrow> t)"
    using pick_rotates_rr [OF wf, of "hd (rr_queue ?sl)" "tl (rr_queue ?sl)"] ne by auto
  obtain c where o: "OpenChannel (rs_ccs (the_rs s) ! cc) t = (Inr ch, c)" "cc = hd (rr_queue ?sl)"
    "rs_ccs rs' = (rs_ccs (the_rs s))[cc := c]"
    using assms(3) p
    by (auto simp: dispatch_def Let_def upd_sl_def upd_cc_def split: prod.splits sum.splits)
  have "cc \<in> fst ` set (sl_conns ?sl)" using o(2) ne wf hd_in_set [OF ne] by (auto simp: sl_wf_def)
  then obtain t' where "map_of (sl_conns ?sl) cc = Some t'" by (metis map_of_eq_None_iff not_None_eq)
  moreover have "ch = length (objs (rs_ccs (the_rs s) ! cc))" "ch_target (objs c ! ch) = t" "ch < length (objs c)"
    using o(1) by (auto simp: OpenChannel_def Let_def newChannel_def sendFrame_def split: prod.splits option.splits)
  ultimately show ?thesis using o t assms(4) by simp
qed

text \<open>A server that has admitted one client, which registered one tunnel, with its listener.\<close>

definition demo_tunnels :: "RemoteTunnel list" where
  "demo_tunnels = [\<lparr>RemotePort = 9090, BindAddr = '''', TargetAddr = ''a:1''\<rparr>]"

definition demo_client :: RemoteServer where
  "demo_client = demo_new\<lparr>rs_ccs := [NewCtrlConn (new_conn []) 5], rs_conns := [0]\<rparr>"

lemma demo_handleClient:
  "handleClient demo_new (new_conn (enc_frame \<lparr>Typ = FrameRegister, Payload = packTunnels demo_tunnels\<rparr>)) 5
     = (Serving 0 demo_tunnels, demo_client)"
proof -
  have ok: "length (packTunnels demo_tunnels) \<le> maxFramePayload"
    by (simp add: packTunnels_def demo_tunnels_def pack_entry_def maxFramePayload_def)
  have "unpackTunnels (packTunnels demo_tunnels) = Inr demo_tunnels"
    by (rule unpack_packTunnels) (simp_all add: demo_tunnels_def tunnel_ok_def)
  then have "RegisterServer (new_conn (enc_frame \<lparr>Typ = FrameRegister, Payload = packTunnels demo_tunnels\<rparr>))
      = (Inr demo_tunnels, new_conn [])"
    unfolding RegisterServer_def by (subst ReadFrame_written [OF ok, of _ FrameRegister "[]"]) simp_all
  then show ?thesis
    by (simp add: handleClient_def handleClient_register_def demo_new_def demo_client_def trackConn_def Let_def)
qed

definition demo_listening :: RemoteServer where
  "demo_listening = snd (attachSharedListener (\<lambda>_. None) demo_client 9090 '''' ''a:1'' 0)"

lemma demo_listening_reachable: "server_reachable \<lparr>the_rs = demo_listening, closing = [], forgetting = []\<rparr>"
proof -
  let ?s = "\<lambda>rs. \<lparr>the_rs = rs, closing = [], forgetting = []\<rparr>"
  have "server_init (?s demo_new)"
    by (auto simp: server_init_def demo_new_def NewRemoteServer_def)
  moreover have "server_step (?s demo_new) (?s demo_client)"
    using st_client [of "?s demo_new", OF _ ] demo_handleClient by fastforce
  moreover have "server_step (?s demo_client) (?s demo_listening)"
    unfolding demo_listening_def
    using st_attach [of "\<lambda>_. None" "?s demo_client" 9090 "''''" "''a:1''" 0] by (simp add: prod_eq_iff)
  ultimately show ?thesis by (meson reachable_init reachable_step)
qed

theorem dispatch_to_registered_target_witness:
  "\<exists>rs'. dispatch demo_listening 0 = (Relaying 0 0, rs') \<and> ch_target (objs (rs_ccs rs' ! 0) ! 0) = ''a:1''"
proof -
  have d: "fst (dispatch demo_listening 0) = Relaying 0 0" and n: "length (rs_sls demo_listening) = 1"
    "length (rs_ccs demo_listening) = 1" and c: "sl_conns (rs_sls demo_listening ! 0) = [(0, ''a:1'')]"
    by (simp_all add: demo_listening_def attachSharedListener_def attach_fresh_def Let_def demo_client_def demo_new_def
        dispatch_def dispatch_pick_def upd_sl_def OpenChannel_def NewCtrlConn_def sendFrame_writable maxFramePayload_def)
  then have "dispatch demo_listening 0 = (Relaying 0 0, snd (dispatch demo_listening 0))" by (simp add: prod_eq_iff)
  with dispatch_to_registered_target [OF demo_listening_reachable, of 0 0 0] n c show ?thesis
    by (intro exI [of _ "snd (dispatch demo_listening 0)"]) simp
qed

text \<open>
  C10: No client gets in without the token. On a server with a token, a connection
  whose first bytes are not an authentication frame with exactly that token is
  closed, and the server's state is as before: no control connection, no listener.
\<close>

theorem client_needs_token:
  assumes "rs_token rs \<noteq> ''''" and "handleClient rs c now = (r, rs')"
    and "\<nexists>rest. inp c = enc_frame \<lparr>Typ = FrameAuthRequest, Payload = auth_payload (rs_token rs)\<rparr> @ rest"
  shows "rs' = rs \<and> (\<exists>c'. r = Dropped c' \<and> shut c')"
  using assms AuthServer_sound [of c "rs_token rs"]
  by (auto simp: handleClient_def conn_Close_def split: prod.splits option.splits)

theorem client_needs_token_witness:
  "snd (handleClient (demo_new\<lparr>rs_token := ''k''\<rparr>) (new_conn []) 0) = demo_new\<lparr>rs_token := ''k''\<rparr>"
proof -
  obtain r rs' where h: "handleClient (demo_new\<lparr>rs_token := ''k''\<rparr>) (new_conn []) 0 = (r, rs')" by fastforce
  have "rs' = demo_new\<lparr>rs_token := ''k''\<rparr> \<and> (\<exists>c'. r = Dropped c' \<and> shut c')"
    by (rule client_needs_token [OF _ h]) (simp_all add: enc_frame_def)
  with h show ?thesis by simp
qed

lemma fold_upd_sl_closed:
  "sl_closed (rs_sls rs ! l) \<or> l \<in> set xs \<and> l < length (rs_sls rs) \<Longrightarrow>
     sl_closed (rs_sls (fold (\<lambda>l. upd_sl l sl_Close) xs rs) ! l)"
  by (induction xs arbitrary: rs) (auto simp: upd_sl_nth)

lemma ctrl_Close_shut [simp]: "shut (conn (ctrl_Close cc))"
  by (simp add: ctrl_Close_def Let_def conn_Close_def)

lemma fold_upd_cc_closed:
  "shut (conn (rs_ccs rs ! r)) \<or> r \<in> set xs \<and> r < length (rs_ccs rs) \<Longrightarrow>
     shut (conn (rs_ccs (fold (\<lambda>r. upd_cc r ctrl_Close) xs rs) ! r))"
proof (induction xs arbitrary: rs)
  case (Cons x xs)
  have "shut (conn (rs_ccs (upd_cc x ctrl_Close rs) ! r)) \<or> r \<in> set xs \<and> r < length (rs_ccs (upd_cc x ctrl_Close rs))"
    using Cons.prems by (cases "r = x"; cases "x < length (rs_ccs rs)") (auto simp: upd_cc_def list_update_beyond)
  from Cons.IH [OF this] show ?case by simp
qed simp

lemma fold_upd_sl_ccs [simp]:
  "rs_ccs (fold (\<lambda>l. upd_sl l f) xs rs) = rs_ccs rs" "rs_closed (fold (\<lambda>l. upd_sl l f) xs rs) = rs_closed rs"
  by (induction xs arbitrary: rs) (simp_all add: upd_sl_def)

definition quieter :: "RemoteServer \<Rightarrow> RemoteServer \<Rightarrow> bool" where
  "quieter rs rs' \<longleftrightarrow> rs_closed rs' \<and> set (rs_conns rs') \<subseteq> set (rs_conns rs) \<and> length (rs_sls rs') = length (rs_sls rs)"

lemma handleClient_closed:
  assumes "rs_closed rs" and "handleClient rs c now = (r, rs')"
  shows "quieter rs rs'"
  using assms
  by (auto simp: quieter_def handleClient_def handleClient_register_def trackConn_def Let_def
      split: if_splits prod.splits option.splits sum.splits)

lemma dispatch_closed:
  assumes "rs_closed rs" and "dispatch rs l = (d, rs')"
  shows "quieter rs rs'"
  using assms
  by (auto simp: quieter_def dispatch_def Let_def upd_sl_def upd_cc_def split: option.splits prod.splits sum.splits)

lemma server_step_closed:
  assumes "server_step s t" and "rs_closed (the_rs s)"
  shows "quieter (the_rs s) (the_rs t)"
  using assms
proof cases
  case (st_client c now r rs')
  then show ?thesis using handleClient_closed assms(2) by simp
next
  case (st_dispatch l d rs')
  then show ?thesis using dispatch_closed assms(2) by simp
qed (use assms(2) in \<open>auto simp: quieter_def handleClient_exit_def untrackConn_def upd_cc_def upd_sl_def
       attachSharedListener_def forgetListener_def Let_def rs_Close_def\<close>)

lemma server_steps_closed:
  "server_step\<^sup>*\<^sup>* s t \<Longrightarrow> rs_closed (the_rs s) \<Longrightarrow> quieter (the_rs s) (the_rs t)"
proof (induction rule: rtranclp_induct)
  case (step t u)
  then have "quieter (the_rs s) (the_rs t)" by simp
  moreover from this have "quieter (the_rs t) (the_rs u)"
    using server_step_closed [OF step(2)] by (simp add: quieter_def)
  ultimately show ?case by (auto simp: quieter_def)
qed (simp add: quieter_def)

text \<open>
  C30: Closing the server is final. Every tracked control connection is closed and
  unmapped, every listener of the table is closed, and no later step of any
  goroutine tracks a connection, attaches a tunnel or reopens the server.
\<close>

theorem server_close_final:
  assumes "\<not> rs_closed rs" and "rs_Close rs lnErr = (e, rs')" and "server_step\<^sup>*\<^sup>* \<lparr>the_rs = rs', closing = cs, forgetting = fs\<rparr> t"
  shows "(\<forall>r\<in>set (rs_conns rs). r < length (rs_ccs rs) \<longrightarrow> shut (conn (rs_ccs rs' ! r)))
     \<and> (\<forall>key l. map_of (rs_listeners rs) key = Some l \<and> l < length (rs_sls rs) \<longrightarrow> sl_closed (rs_sls rs' ! l))
     \<and> rs_closed (the_rs t) \<and> set (rs_conns (the_rs t)) \<subseteq> set (rs_conns rs')
     \<and> length (rs_sls (the_rs t)) = length (rs_sls rs')"
proof -
  let ?rs1 = "rs\<lparr>rs_closed := True, rs_done := True, rs_ctrlLn := False\<rparr>"
  let ?rs2 = "fold (\<lambda>r. upd_cc r ctrl_Close) (rs_conns rs) ?rs1"
  have rs': "rs' = fold (\<lambda>l. upd_sl l sl_Close) (map snd (rs_listeners rs)) ?rs2"
    using assms(1,2) by (simp add: rs_Close_def Let_def)
  have "quieter rs' (the_rs t)" using server_steps_closed [OF assms(3)] rs' by simp
  moreover have "shut (conn (rs_ccs rs' ! r))" if "r \<in> set (rs_conns rs)" "r < length (rs_ccs rs)" for r
    using fold_upd_cc_closed [of ?rs1 r "rs_conns rs"] that rs' by simp
  moreover have "sl_closed (rs_sls rs' ! l)" if "map_of (rs_listeners rs) key = Some l" "l < length (rs_sls rs)" for key l
    unfolding rs' using that map_of_SomeD [OF that(1)] by (intro fold_upd_sl_closed) force
  ultimately show ?thesis unfolding quieter_def by blast
qed

theorem server_close_final_witness:
  "sl_closed (rs_sls (snd (rs_Close demo_shared None)) ! 0) \<and> rs_closed (snd (rs_Close demo_shared None))"
proof -
  have "map_of (rs_listeners demo_shared) (9090, '''') = Some 0" "\<not> rs_closed demo_shared"
    by (simp_all add: demo_shared_def demo_new_def attachSharedListener_def attach_fresh_def Let_def upd_sl_def)
  with server_close_final [of demo_shared None "fst (rs_Close demo_shared None)" "snd (rs_Close demo_shared None)"
      "[]" "[]" "\<lparr>the_rs = snd (rs_Close demo_shared None), closing = [], forgetting = []\<rparr>"]
  show ?thesis by (auto simp: demo_shared_sls)
qed

text \<open>
  A tunnel can be lost at attach time. Detaching the last control connection of
  a listener releases \<^verbatim>\<open>sl.mu\<close> before it closes the listener; a control connection
  attaching to the same port in between is told it succeeded and is registered on a
  listener that is then closed and dropped from the table, although its own control
  connection is alive.
\<close>

theorem attach_lost_during_detach:
  fixes listen :: "string \<Rightarrow> error option" and target :: string and new :: nat
  assumes "rs_wf rs" and "\<not> rs_closed rs" and "map_of (rs_listeners rs) (port, bnd) = Some l"
    and "\<not> sl_closed (rs_sls rs ! l)" and "sl_unregister old (rs_sls rs ! l) = (True, sl)"
  defines "rs1 \<equiv> upd_sl l (\<lambda>_. sl) rs"
  defines "rs2 \<equiv> snd (attachSharedListener listen rs1 port bnd target new)"
  defines "rs3 \<equiv> forgetListener (upd_sl l sl_Close rs2) l"
  shows "fst (attachSharedListener listen rs1 port bnd target new) = Inr l
     \<and> new \<in> set (sl_order (rs_sls rs3 ! l)) \<and> \<not> sl_open (rs_sls rs3 ! l)
     \<and> map_of (rs_listeners rs3) (port, bnd) = None"
proof -
  have l: "l < length (rs_sls rs)" "port = sl_port (rs_sls rs ! l)" "bnd = sl_bind (rs_sls rs ! l)"
    using assms(1,3) unfolding rs_wf_def by auto
  have sl: "sl_wf sl" "sl_closed sl = sl_closed (rs_sls rs ! l)" "sl_open sl = sl_open (rs_sls rs ! l)"
    "sl_port sl = port" "sl_bind sl = bnd"
    using sl_unregister_wf [OF _ assms(5)] rs_wf_nth [OF assms(1) l(1)] l by auto
  have o: "sl_open sl" using sl rs_wf_nth [OF assms(1) l(1)] assms(4) by simp
  have a: "attachSharedListener listen rs1 port bnd target new = (Inr l, upd_sl l (sl_register new target) rs1)"
    using assms(2-4) sl l by (simp add: attachSharedListener_def rs1_def upd_sl_def)
  then have "rs_sls rs2 = (rs_sls rs)[l := sl_register new target sl]" "rs_listeners rs2 = rs_listeners rs"
    using l by (simp_all add: rs2_def rs1_def upd_sl_def)
  then have "rs_sls rs3 ! l = sl_Close (sl_register new target sl)"
    "rs_listeners rs3 = AList.delete (port, bnd) (rs_listeners rs)"
    using l sl assms(3) by (simp_all add: rs3_def forgetListener_def Let_def upd_sl_def)
  then show ?thesis
    using a sl_register_wf(3) [OF sl(1)] o sl assms(4) by (simp add: sl_Close_def delete_conv')
qed

theorem attach_lost_during_detach_witness:
  "\<exists>rs3 :: RemoteServer. 1 \<in> set (sl_order (rs_sls rs3 ! 0)) \<and> \<not> sl_open (rs_sls rs3 ! 0) \<and> map_of (rs_listeners rs3) (9090, '''') = None"
proof -
  let ?sl = "rs_sls demo_listening ! 0"
  have l: "map_of (rs_listeners demo_listening) (9090, '''') = Some 0" "\<not> rs_closed demo_listening"
    and sl: "?sl = \<lparr>sl_port = 9090, sl_bind = '''', sl_open = True, sl_conns = [(0, ''a:1'')], sl_order = [0],
       sl_next = 0, sl_closed = False\<rparr>"
    by (simp_all add: demo_listening_def attachSharedListener_def attach_fresh_def Let_def demo_client_def demo_new_def)
  have u: "\<not> sl_closed ?sl" "sl_unregister 0 ?sl = (True, snd (sl_unregister 0 ?sl))"
    unfolding sl by (simp_all add: sl_unregister_def)
  have "rs_wf demo_listening" using srv.reachable_inv [OF demo_listening_reachable] by simp
  from attach_lost_during_detach [OF this l(2,1) u, of "\<lambda>_. None" "''b:2''" 1] show ?thesis by blast
qed

lemma listenTunnel_loop_returns:
  assumes "now (n + d) > deadline" and "d < fuel"
  shows "\<exists>k\<le>d. (\<forall>m<k. listen (n + m) \<noteq> None)
     \<and> listenTunnel_loop listen now dead deadline fuel n = Some (listen (n + k))"
  using assms
proof (induction fuel arbitrary: n d)
  case (Suc fuel)
  show ?case
  proof (cases "listen n = None \<or> now n > deadline \<or> dead n")
    case True
    then show ?thesis by (intro exI [of _ 0]) (auto split: option.splits)
  next
    case False
    then obtain d' where d: "d = Suc d'" using Suc.prems(1) by (cases d) auto
    with Suc.prems obtain k where k: "k \<le> d'" "\<forall>m<k. listen (Suc n + m) \<noteq> None"
      "listenTunnel_loop listen now dead deadline fuel (Suc n) = Some (listen (Suc n + k))"
      using Suc.IH [of "Suc n" d'] by auto
    have "\<forall>m<Suc k. listen (n + m) \<noteq> None"
    proof (intro allI impI)
      fix m assume "m < Suc k"
      then show "listen (n + m) \<noteq> None" using k(2) False by (cases m) auto
    qed
    with k d False show ?thesis
      by (intro exI [of _ "Suc k"]) (auto split: option.splits)
  qed
qed simp

text \<open>
  Binding a public port is bounded in time. Given that every wait of 100 ms lasts
  at least that long, \<^verbatim>\<open>listenTunnel\<close> returns after at most 32 attempts; it succeeds
  exactly if one of its attempts does, and its error is the last attempt's.
\<close>

theorem listenTunnel_bounded:
  assumes "\<And>n. start + int n * 10 ^ 8 \<le> now n" and "32 \<le> fuel"
  shows "\<exists>k<32. (\<forall>m<k. listen m \<noteq> None) \<and> listenTunnel listen now dead start fuel = Some (listen k)"
proof -
  have "now (0 + 31) > start + 3 * 10 ^ 9" using assms(1) [of 31] by simp
  then obtain k where "k \<le> 31" "\<forall>m<k. listen m \<noteq> None"
    "listenTunnel_loop listen now dead (start + 3 * 10 ^ 9) fuel 0 = Some (listen k)"
    using listenTunnel_loop_returns [where n = 0 and d = 31 and fuel = fuel and listen = listen
        and now = now and dead = dead and deadline = "start + 3 * 10 ^ 9"] assms(2) by auto
  then show ?thesis unfolding listenTunnel_def by (intro exI [of _ k]) auto
qed

theorem listenTunnel_bounded_witness:
  "\<exists>k<32. (\<forall>m<k. (\<lambda>n::nat. if n = 3 then None else Some (SysError ''in use'')) m \<noteq> None)
     \<and> listenTunnel (\<lambda>n. if n = 3 then None else Some (SysError ''in use'')) (\<lambda>n. int n * 10 ^ 8) (\<lambda>_. False) 0 32
       = Some ((\<lambda>n. if n = 3 then None else Some (SysError ''in use'')) k)"
  by (rule listenTunnel_bounded) simp_all

end
