(* ===== verification/Tunnel_Run.thy ===== *)
theory Tunnel_Run
  imports Tunnel_Manager Socks5 Udp_Proxy Remote_Client Remote_Server
begin

text \<open>
  The run functions of the manager (\<^verbatim>\<open>runLocal\<close> to \<^verbatim>\<open>runRemoteServer\<close> in
  \<^verbatim>\<open>manager/manager.go\<close>): what each creates from its configuration, and how its
  goroutine lives between the first step and the last. The daemon is then the
  manager together with the goroutines of all the tunnels it ever started.
\<close>

section \<open>What a run function creates\<close>

text \<open>
  What the run functions use of the system: the packages and the clock behind the TLS
  identity, \<^verbatim>\<open>relay.DefaultIdentityDir\<close>, and what listening answers.
\<close>

record run_env =
  re_pk :: crypto_pkgs
  re_rand :: rand_source
  re_now :: int
  re_identityDir :: string
  re_listen :: "string \<Rightarrow> error option"
  re_tlsListen :: "string \<Rightarrow> tls_Certificate \<Rightarrow> unit res"
  re_resolveUDP :: "string \<Rightarrow> string res"
  re_listenUDP :: "string \<Rightarrow> error option"

text \<open>
  What a run function waits on. A remote client keeps the pointer \<^verbatim>\<open>mt\<close> it looked up in
  the table (\<open>None\<close> is nil); \<open>ManyClients\<close> is the slice of \<^verbatim>\<open>runRemoteClientMulti\<close>.
\<close>

datatype service =
    TCPService Proxy
  | UDPService UDPProxy
  | ChainService ChainProxy
  | SocksService SocksProxy
  | ServerService RemoteServer
  | OneClient RemoteClient "nat option"
  | ManyClients "RemoteClient list"

text \<open>The part of the process the set-up changes: the cached identities and the files.\<close>

type_synonym process = "identityCache \<times> os_env"

definition run_SetupTLS :: "run_env \<Rightarrow> string \<Rightarrow> string \<Rightarrow> bool \<Rightarrow> process \<Rightarrow> TLSConfig res \<times> process" where
  "run_SetupTLS env cert key verify p =
     (case p of (cache, os) \<Rightarrow>
        (case SetupTLS (re_pk env) (re_rand env) (re_now env) cache os (re_identityDir env) cert key verify of
           (r, cache1, os1) \<Rightarrow> (r, cache1, os1)))"

definition wrap_err :: "string \<Rightarrow> ('a \<Rightarrow> 'b) \<Rightarrow> 'a res \<Rightarrow> 'b res" where
  "wrap_err msg f r = (case r of Inl e \<Rightarrow> Inl (Wrap msg e) | Inr x \<Rightarrow> Inr (f x))"

definition runLocal :: "run_env \<Rightarrow> TunnelConfig \<Rightarrow> process \<Rightarrow> service res \<times> process" where
  "runLocal env tc p =
     (if tc_Protocol tc = ''udp'' then
        (if tc_TLS tc then (Inl (Errorf ''tls is not supported with UDP''), p)
         else (wrap_err ''udp proxy failed'' UDPService
                 (NewUDPProxy (re_resolveUDP env) (re_listenUDP env) (tc_Local tc) (tc_Remote tc)), p))
      else if tc_TLS tc then
        (case run_SetupTLS env (tc_TLSCert tc) (tc_TLSKey tc) (tc_TLSVerify tc) p of
           (Inl e, p1) \<Rightarrow> (Inl (Wrap ''tls'' e), p1)
         | (Inr tlsCfg, p1) \<Rightarrow>
             (wrap_err ''proxy failed'' TCPService (NewTLSProxy (re_tlsListen env) (tc_Local tc) (tc_Remote tc) tlsCfg), p1))
      else (wrap_err ''proxy failed'' TCPService (NewProxy (re_listen env) (tc_Local tc) (tc_Remote tc)), p))"

definition runChain :: "run_env \<Rightarrow> TunnelConfig \<Rightarrow> service res" where
  "runChain env tc =
     (case NewChainProxy (re_listen env) (tc_Local tc) (tc_Hops tc) of
        Inl e \<Rightarrow> Inl (Wrap ''chain proxy failed'' e)
      | Inr None \<Rightarrow> Inl (Errorf ''chain proxy nil'')
      | Inr (Some proxy) \<Rightarrow> Inr (ChainService proxy))"

definition runDynamic :: "run_env \<Rightarrow> TunnelConfig \<Rightarrow> service res" where
  "runDynamic env tc =
     wrap_err ''socks proxy failed'' SocksService
       (if tc_SocksUser tc \<noteq> '''' \<or> tc_SocksPass tc \<noteq> ''''
        then NewSocksProxyWithAuth (re_listen env) (tc_Local tc) (tc_SocksUser tc) (tc_SocksPass tc)
        else NewSocksProxy (re_listen env) (tc_Local tc))"

text \<open>The TLS settings of a remote client, the same in both functions (\<^verbatim>\<open>tlsCfg\<close> may be nil).\<close>

definition client_tls :: "run_env \<Rightarrow> TunnelConfig \<Rightarrow> process \<Rightarrow> TLSConfig option res \<times> process" where
  "client_tls env tc p =
     (if tc_TLS tc then
        (case run_SetupTLS env (tc_TLSCert tc) (tc_TLSKey tc) (tc_TLSVerify tc) p of
           (Inl e, p1) \<Rightarrow> (Inl (Wrap ''tls'' e), p1)
         | (Inr tlsCfg, p1) \<Rightarrow>
             (Inr (Some (tlsCfg\<lparr>tls_TrustOnFirstUse := tc_TLSTrustOnFirstUse tc,
                                tls_ServerFingerprint := tc_TLSServerFingerprint tc\<rparr>)), p1))
      else (Inr None, p))"

definition client_tunnel :: "TunnelConfig \<Rightarrow> RemoteTunnel res" where
  "client_tunnel tc =
     wrap_err ''invalid remote spec'' (\<lambda>(bind, port, target). \<lparr>RemotePort = port, BindAddr = bind, TargetAddr = target\<rparr>)
       (mgr_parseRemoteSpec (tc_Remote tc))"

definition runRemoteClient :: "run_env \<Rightarrow> TunnelConfig \<Rightarrow> Manager \<Rightarrow> process \<Rightarrow> service res \<times> process" where
  "runRemoteClient env tc m p =
     (case client_tls env tc p of
        (Inl e, p1) \<Rightarrow> (Inl e, p1)
      | (Inr tlsCfg, p1) \<Rightarrow>
          (case client_tunnel tc of
             Inl e \<Rightarrow> (Inl e, p1)
           | Inr t \<Rightarrow> (Inr (OneClient (NewRemoteClient (tc_Server tc) (tc_Token tc) tlsCfg [t])
                               (runRemoteClient_lookup (tc_Name tc) m)), p1)))"

definition runRemoteClientMulti :: "run_env \<Rightarrow> TunnelConfig \<Rightarrow> process \<Rightarrow> service res \<times> process" where
  "runRemoteClientMulti env tc p =
     (case client_tls env tc p of
        (Inl e, p1) \<Rightarrow> (Inl e, p1)
      | (Inr tlsCfg, p1) \<Rightarrow>
          (case client_tunnel tc of
             Inl e \<Rightarrow> (Inl e, p1)
           | Inr t \<Rightarrow> (Inr (ManyClients (map (\<lambda>i. NewRemoteClient (tc_Server tc) (tc_Token tc) tlsCfg [t])
                               [0..<nat (multi_connections tc)])), p1)))"

definition runRemoteServer :: "run_env \<Rightarrow> TunnelConfig \<Rightarrow> process \<Rightarrow> service res \<times> process" where
  "runRemoteServer env tc p =
     (let listen = re_listen env (tc_Local tc) in
      if tc_TLS tc then
        (case run_SetupTLS env (tc_TLSCert tc) (tc_TLSKey tc) (tc_TLSVerify tc) p of
           (Inl e, p1) \<Rightarrow> (Inl (Wrap ''tls'' e), p1)
         | (Inr tlsCfg, p1) \<Rightarrow>
             (let lnErr = (if tls_Enabled tlsCfg
                           then (case TLSListener (re_tlsListen env) (tc_Local tc) tlsCfg of Inl e \<Rightarrow> Some e | Inr _ \<Rightarrow> None)
                           else listen) in
              (wrap_err ''server'' ServerService (NewRemoteServer lnErr (tc_Token tc) (tls_Enabled tlsCfg)), p1)))
      else (wrap_err ''server'' ServerService (NewRemoteServer listen (tc_Token tc) False), p))"

text \<open>The function \<^verbatim>\<open>startOne\<close> chose, up to the point where it waits.\<close>

fun run_setup :: "run_env \<Rightarrow> runFn \<Rightarrow> TunnelConfig \<Rightarrow> Manager \<Rightarrow> process \<Rightarrow> service res \<times> process" where
  "run_setup env RunLocal tc m p = runLocal env tc p"
| "run_setup env RunChain tc m p = (runChain env tc, p)"
| "run_setup env RunDynamic tc m p = (runDynamic env tc, p)"
| "run_setup env RunRemoteClient tc m p = runRemoteClient env tc m p"
| "run_setup env RunRemoteClientMulti tc m p = runRemoteClientMulti env tc p"
| "run_setup env RunRemoteServer tc m p = runRemoteServer env tc p"


section \<open>Waiting, and the end\<close>

text \<open>Whether the service accepts, and whether it is a client.\<close>

fun is_client :: "service \<Rightarrow> bool" where
  "is_client (OneClient _ _) = True"
| "is_client (ManyClients _) = True"
| "is_client _ = False"

fun active :: "service \<Rightarrow> bool" where
  "active (TCPService p) = px_open p"
| "active (UDPService p) = up_open p"
| "active (ChainService p) = cp_open p"
| "active (SocksService p) = px_open p"
| "active (ServerService rs) = rs_ctrlLn rs"
| "active (OneClient rc _) = (\<not> rc_stopped rc)"
| "active (ManyClients rcs) = (\<exists>rc\<in>set rcs. \<not> rc_stopped rc)"

text \<open>What \<^verbatim>\<open>Serve\<close> returns when the listener answers an error; a client's \<^verbatim>\<open>Run\<close> is not waited for.\<close>

fun Serve_error :: "service \<Rightarrow> error \<Rightarrow> error option" where
  "Serve_error (TCPService p) err = (case proxy_Serve_turn p (Inl err) of ServeEnds e \<Rightarrow> e | Handle _ \<Rightarrow> None)"
| "Serve_error (UDPService p) err = (case udp_Serve_turn p (Inl err) of UdpReturns e \<Rightarrow> e | _ \<Rightarrow> None)"
| "Serve_error (ChainService p) err = (case chain_Serve_turn p (Inl err) of ServeEnds e \<Rightarrow> e | Handle _ \<Rightarrow> None)"
| "Serve_error (SocksService p) err = (case socks_Serve_turn p (Inl err) of ServeEnds e \<Rightarrow> e | Handle _ \<Rightarrow> None)"
| "Serve_error (ServerService rs) err = (case Serve_turn rs (Inl err) of ServeReturns e \<Rightarrow> e | ServeClient _ \<Rightarrow> None)"
| "Serve_error (OneClient _ _) err = None"
| "Serve_error (ManyClients _) err = None"

text \<open>The branch of a \<^verbatim>\<open>select\<close> on \<^verbatim>\<open>stop\<close>; \<open>None\<close> is the panic of closing a client twice.\<close>

fun close_clients :: "RemoteClient list \<Rightarrow> RemoteClient list option" where
  "close_clients [] = Some []"
| "close_clients (c # cs) =
     Option.bind (rc_Close c) (\<lambda>c1. map_option ((#) c1) (close_clients cs))"

fun run_stop :: "service \<Rightarrow> service option" where
  "run_stop (TCPService p) = Some (TCPService (snd (proxy_Close p)))"
| "run_stop (UDPService p) = Some (UDPService (snd (udp_Close p)))"
| "run_stop (ChainService p) = Some (ChainService (snd (chain_Close p)))"
| "run_stop (SocksService p) = Some (SocksService (snd (socks_Close p)))"
| "run_stop (ServerService rs) = Some (ServerService (snd (rs_Close rs None)))"
| "run_stop (OneClient rc mt) = map_option (\<lambda>rc1. OneClient rc1 mt) (rc_Close rc)"
| "run_stop (ManyClients rcs) = map_option ManyClients (close_clients rcs)"

section \<open>The goroutines\<close>

text \<open>
  Where a tunnel's goroutine is: not scheduled yet; before the set-up; waiting, with the
  error \<^verbatim>\<open>Serve\<close> has put into \<^verbatim>\<open>errCh\<close>, if any; returned, with what it returned and
  the service it leaves behind.
\<close>

datatype run_at =
    NotBegun
  | Begun
  | Running service "error option"
  | Ended "service option" "error option"

record tunnel_system =
  d_m :: Manager
  d_cache :: identityCache
  d_runs :: "run_at list"

text \<open>
  The operations of the manager, each under its lock, and what the rest of the process
  does to the files and the store of known hosts.
\<close>

inductive manager_op :: "Manager \<Rightarrow> Manager \<Rightarrow> bool" where
  op_control: "HandleControl js pd marshal unmarshal lb req m = Some (resp, m') \<Longrightarrow> manager_op m m'"
| op_start: "manager_op m (startLocked pd m)"
| op_stop: "stopLocked m = Some m' \<Longrightarrow> manager_op m m'"
| op_reload: "mgr_Reload pd unmarshal m = Some (e, m') \<Longrightarrow> manager_op m m'"
| op_os: "manager_op m (m\<lparr>m_os := os, m_knownHosts := kh\<rparr>)"

text \<open>What connections and datagrams may do to a service that waits: they neither open nor close it.\<close>

fun traffic :: "service \<Rightarrow> service \<Rightarrow> bool" where
  "traffic (TCPService p) (TCPService q) = (px_open q = px_open p \<and> px_closed q = px_closed p)"
| "traffic (UDPService p) (UDPService q) = (up_open q = up_open p \<and> up_closed q = up_closed p)"
| "traffic (ChainService p) (ChainService q) = (cp_open q = cp_open p \<and> cp_closed q = cp_closed p)"
| "traffic (SocksService p) (SocksService q) = (px_open q = px_open p \<and> px_closed q = px_closed p)"
| "traffic (ServerService p) (ServerService q) = (rs_ctrlLn q = rs_ctrlLn p \<and> rs_closed q = rs_closed p)"
| "traffic (OneClient c mt) (OneClient d mt') = (rc_stopped d = rc_stopped c \<and> mt' = mt)"
| "traffic (ManyClients cs) (ManyClients ds) = list_all2 (\<lambda>c d. rc_stopped d = rc_stopped c) cs ds"
| "traffic _ _ = False"

definition set_run :: "nat \<Rightarrow> run_at \<Rightarrow> Manager \<Rightarrow> tunnel_system \<Rightarrow> tunnel_system" where
  "set_run r a m s = s\<lparr>d_m := m, d_runs := (d_runs s)[r := a]\<rparr>"

definition set_process :: "process \<Rightarrow> tunnel_system \<Rightarrow> tunnel_system" where
  "set_process p s = (case p of (cache, os) \<Rightarrow> s\<lparr>d_cache := cache, d_m := (d_m s)\<lparr>m_os := os\<rparr>\<rparr>)"

abbreviation run_of :: "run_env \<Rightarrow> nat \<Rightarrow> Manager \<Rightarrow> tunnel_system \<Rightarrow> service res \<times> process" where
  "run_of env r m0 s \<equiv> run_setup env (mt_run (m_mts (d_m s) ! r)) (mt_cfg (m_mts (d_m s) ! r)) m0
     (d_cache s, m_os (d_m s))"

definition set_listening :: "nat \<Rightarrow> service \<Rightarrow> int \<Rightarrow> Manager \<Rightarrow> Manager" where
  "set_listening r svc now m =
     (if is_client svc then m
      else upd_mt r (\<lambda>mt. mt\<lparr>mt_state := ts_Set ''listening'' '''' now (mt_state mt)\<rparr>) m)"

text \<open>
  The steps of the daemon. The set-up of a remote client reads the table without the
  lock: it sees it as it is (\<open>m0\<close> is the manager), or as it was before \<^verbatim>\<open>startOne\<close> entered
  the tunnel.
\<close>

inductive tunnel_step :: "tunnel_system \<Rightarrow> tunnel_system \<Rightarrow> bool" where
  tn_op: "manager_op (d_m s) m \<Longrightarrow>
    tunnel_step s (s\<lparr>d_m := m, d_runs := d_runs s @ replicate (length (m_mts m) - length (m_mts (d_m s))) NotBegun\<rparr>)"
| tn_begin: "r < length (d_runs s) \<Longrightarrow> d_runs s ! r = NotBegun \<Longrightarrow>
    tunnel_step s (set_run r Begun (goroutine_begin r now (d_m s)) s)"
| tn_fail: "r < length (d_runs s) \<Longrightarrow> d_runs s ! r = Begun \<Longrightarrow> run_of env r m0 s = (Inl e, p) \<Longrightarrow>
    s' = set_process p s \<Longrightarrow> tunnel_step s (set_run r (Ended None (Some e)) (goroutine_end r (Some e) now (d_m s')) s')"
| tn_serve: "r < length (d_runs s) \<Longrightarrow> d_runs s ! r = Begun \<Longrightarrow> run_of env r m0 s = (Inr svc, p) \<Longrightarrow>
    m0 = d_m s \<or> map_of (m_tunnels m0) (tc_Name (mt_cfg (m_mts (d_m s) ! r))) = None \<Longrightarrow>
    s' = set_process p s \<Longrightarrow> tunnel_step s (set_run r (Running svc None) (set_listening r svc now (d_m s')) s')"
| tn_tick: "r < length (d_runs s) \<Longrightarrow> d_runs s ! r = Running (OneClient rc mt) e \<Longrightarrow>
    runRemoteClient_tick (IsConnected rc) (rc_reconnectCount rc) (LastError rc) now mt r (d_m s) = Some m \<Longrightarrow>
    tunnel_step s (s\<lparr>d_m := m\<rparr>)"
| tn_multi: "r < length (d_runs s) \<Longrightarrow> d_runs s ! r = Running (ManyClients rcs) e \<Longrightarrow>
    tunnel_step s (s\<lparr>d_m := runRemoteClientMulti_tick (mt_cfg (m_mts (d_m s) ! r))
                            (map (\<lambda>rc. (IsConnected rc, rc_reconnectCount rc)) rcs) now r (d_m s)\<rparr>)"
| tn_traffic: "r < length (d_runs s) \<Longrightarrow> d_runs s ! r = Running svc e \<Longrightarrow> traffic svc svc' \<Longrightarrow>
    tunnel_step s (set_run r (Running svc' e) (d_m s) s)"
| tn_served: "r < length (d_runs s) \<Longrightarrow> d_runs s ! r = Running svc None \<Longrightarrow> Serve_error svc err = Some e \<Longrightarrow>
    tunnel_step s (set_run r (Running svc (Some e)) (d_m s) s)"
| tn_err: "r < length (d_runs s) \<Longrightarrow> d_runs s ! r = Running svc (Some e) \<Longrightarrow>
    tunnel_step s (set_run r (Ended (Some svc) (Some e)) (goroutine_end r (Some e) now (d_m s)) s)"
| tn_stop: "r < length (d_runs s) \<Longrightarrow> d_runs s ! r = Running svc e \<Longrightarrow> mt_cancelled (m_mts (d_m s) ! r) \<Longrightarrow>
    run_stop svc = Some svc' \<Longrightarrow>
    tunnel_step s (set_run r (Ended (Some svc') None) (goroutine_end r None now (d_m s)) s)"

definition tunnel_init :: "tunnel_system \<Rightarrow> bool" where
  "tunnel_init s \<longleftrightarrow> (\<exists>cfg path os. d_m s = NewManager cfg path os) \<and> d_runs s = []"

abbreviation tunnels_reachable :: "tunnel_system \<Rightarrow> bool" where
  "tunnels_reachable \<equiv> reachable tunnel_init tunnel_step"


section \<open>What the manager's operations do to managed tunnels\<close>

text \<open>
  They only cancel tunnels that were started before, and start fresh ones.
\<close>

definition fresh_mt :: "managedTunnel \<Rightarrow> bool" where
  "fresh_mt mt \<longleftrightarrow> mt_state mt = zero_TunnelState \<and> \<not> mt_done mt \<and> select_runFn (mt_cfg mt) = Inr (mt_run mt)"

definition grows :: "Manager \<Rightarrow> Manager \<Rightarrow> bool" where
  "grows m m' \<longleftrightarrow> length (m_mts m) \<le> length (m_mts m')
     \<and> (\<forall>r < length (m_mts m). m_mts m' ! r = (m_mts m ! r)\<lparr>mt_cancelled := mt_cancelled (m_mts m' ! r)\<rparr>
            \<and> (mt_cancelled (m_mts m ! r) \<longrightarrow> mt_cancelled (m_mts m' ! r)))
     \<and> (\<forall>r < length (m_mts m'). length (m_mts m) \<le> r \<longrightarrow> fresh_mt (m_mts m' ! r))"

lemma fresh_mt_cancelled [simp]: "fresh_mt (mt\<lparr>mt_cancelled := c\<rparr>) \<longleftrightarrow> fresh_mt mt"
  by (simp add: fresh_mt_def)

lemma grows_same: "m_mts m' = m_mts m \<Longrightarrow> grows m m'"
  by (simp add: grows_def)

lemma grows_trans:
  assumes "grows a b" and "grows b c"
  shows "grows a c"
proof -
  have "m_mts c ! r = (m_mts a ! r)\<lparr>mt_cancelled := mt_cancelled (m_mts c ! r)\<rparr>" if r: "r < length (m_mts a)" for r
  proof -
    have "r < length (m_mts b)" using assms(1) r by (simp add: grows_def)
    moreover obtain x where "m_mts b ! r = (m_mts a ! r)\<lparr>mt_cancelled := x\<rparr>"
      using assms(1) r unfolding grows_def by blast
    moreover from calculation(1) obtain y where "m_mts c ! r = (m_mts b ! r)\<lparr>mt_cancelled := y\<rparr>"
      using assms(2) unfolding grows_def by blast
    ultimately show ?thesis by simp
  qed
  moreover have "fresh_mt (m_mts c ! r)" if "r < length (m_mts c)" "length (m_mts a) \<le> r" for r
  proof (cases "r < length (m_mts b)")
    case True
    then have "m_mts c ! r = (m_mts b ! r)\<lparr>mt_cancelled := mt_cancelled (m_mts c ! r)\<rparr>" "fresh_mt (m_mts b ! r)"
      using assms that by (auto simp: grows_def)
    then show ?thesis by (metis fresh_mt_cancelled)
  next
    case False
    then show ?thesis using assms(2) that by (simp add: grows_def)
  qed
  moreover have "length (m_mts a) \<le> length (m_mts c)" using assms by (simp add: grows_def)
  moreover have "mt_cancelled (m_mts c ! r)" if "r < length (m_mts a)" "mt_cancelled (m_mts a ! r)" for r
    using assms that unfolding grows_def by (meson order.strict_trans2)
  ultimately show ?thesis by (simp add: grows_def)
qed

lemma grows_startOne: "grows m (snd (startOne pd tc m))"
  by (auto simp: startOne_def grows_def fresh_mt_def nth_append less_Suc_eq Let_def split: sum.splits)

lemma grows_cancel: "cancel r m = Some m' \<Longrightarrow> grows m m'"
  by (cases "r < length (m_mts m)")
     (auto simp: cancel_def grows_def upd_mt_def nth_list_update list_update_beyond split: if_splits)

lemma grows_stopTunnel: "stopTunnelLocked name r m = Some m' \<Longrightarrow> grows m m'"
  by (auto simp: stopTunnelLocked_def grows_def dest: grows_cancel)

text \<open>
  Every operation is made of three: it starts a tunnel, stops one that is in the
  table, or changes neither the table nor the tunnels. What those three preserve, every
  operation preserves.
\<close>

locale table_invariant =
  fixes P :: "Manager \<Rightarrow> bool"
  assumes start: "P m \<Longrightarrow> P (snd (startOne pd tc m))"
    and stop: "P m \<Longrightarrow> map_of (m_tunnels m) name = Some r \<Longrightarrow> stopTunnelLocked name r m = Some m' \<Longrightarrow> P m'"
    and frame: "P m \<Longrightarrow> m_tunnels m' = m_tunnels m \<Longrightarrow> m_mts m' = m_mts m \<Longrightarrow> P m'"
    and names: "P m \<Longrightarrow> distinct (map fst (m_tunnels m))"
begin

lemma started: "startOne pd tc a = (e, m') \<Longrightarrow> P a \<Longrightarrow> P m'"
  using start [of a pd tc] by simp

lemma stop_loop_P:
  assumes "P m" and "distinct (map fst es)" and "set es \<subseteq> set (m_tunnels m)" and "stop_loop want es m = Some m'"
  shows "P m'"
  using assms
proof (induction want es m rule: stop_loop.induct)
  case (2 want name r es m)
  show ?case
  proof (cases "want (m_mts m ! r)")
    case True
    then obtain m1 where m1: "stopTunnelLocked name r m = Some m1" "stop_loop want es m1 = Some m'"
      using 2(6) by (auto simp: bind_eq_Some_conv)
    have "map_of (m_tunnels m) name = Some r" using names [OF 2(3)] 2(5) by simp
    then have "P m1" using stop [OF 2(3) _ m1(1)] by simp
    moreover have "m_tunnels m1 = AList.delete name (m_tunnels m)"
      using m1(1) by (auto simp: stopTunnelLocked_def cancel_def upd_mt_def split: if_splits)
    then have "set es \<subseteq> set (m_tunnels m1)" using 2(4,5) by (force simp: AList.delete_eq)
    ultimately show ?thesis using 2(1) [OF True m1(1)] 2(4) m1(2) by simp
  next
    case False
    then show ?thesis using 2(2) [OF False] 2(3-6) by simp
  qed
qed simp

lemma stop_all: "P m \<Longrightarrow> stop_loop want (m_tunnels m) m = Some m' \<Longrightarrow> P m'"
  using stop_loop_P [of m "m_tunnels m" want m'] names by blast

lemma stop_one: "P m \<Longrightarrow> stop_if_running name m = Some m' \<Longrightarrow> P m'"
  by (auto simp: stop_if_running_def split: option.splits intro: stop)

lemma start_all: "P m \<Longrightarrow> P (start_loop pd want tcs m)"
  by (induction tcs arbitrary: m) (simp_all add: start)

lemma start_group: "P m \<Longrightarrow> P (startGroup_loop pd g tcs m)"
  by (induction tcs arbitrary: m) (simp_all add: start)

lemma saved: "save_cfg marshal a = (e, m') \<Longrightarrow> P m \<Longrightarrow> m_tunnels a = m_tunnels m \<Longrightarrow> m_mts a = m_mts m \<Longrightarrow> P m'"
  by (auto simp: save_cfg_def split: prod.splits intro: frame [of m])

lemma Add_P: "mgr_Add pd marshal tc m = (e, m') \<Longrightarrow> P m \<Longrightarrow> P m'"
  by (auto simp: mgr_Add_def split: if_splits option.splits prod.splits intro: started dest: saved [of _ _ _ _ m])

lemma Enable_P: "mgr_Enable pd marshal name m = (e, m') \<Longrightarrow> P m \<Longrightarrow> P m'"
  by (auto simp: mgr_Enable_def Let_def split: if_splits option.splits prod.splits intro: started dest: saved [of _ _ _ _ m])

lemma Remove_P: "mgr_Remove marshal name m = Some (e, m') \<Longrightarrow> P m \<Longrightarrow> P m'"
  by (auto simp: mgr_Remove_def Let_def split: if_splits option.splits intro: stop_one dest: stop_one saved)

lemma Disable_P: "mgr_Disable marshal name m = Some (e, m') \<Longrightarrow> P m \<Longrightarrow> P m'"
  by (auto simp: mgr_Disable_def Let_def split: if_splits option.splits prod.splits intro: stop_one dest: saved [of _ _ _ _ m])

lemma Restart_P: "mgr_Restart pd name m = Some (e, m') \<Longrightarrow> P m \<Longrightarrow> P m'"
  by (auto simp: mgr_Restart_def Let_def split: if_splits intro: started stop_one)

lemma Reload_P: "mgr_Reload pd unmarshal m = Some (e, m') \<Longrightarrow> P m \<Longrightarrow> P m'"
  by (auto simp: mgr_Reload_def stopLocked_def startLocked_def split: sum.splits option.splits
      intro!: start_all intro: frame [OF stop_all])

lemma with_params_P: "with_params req p k m = Some (resp, m') \<Longrightarrow> P m \<Longrightarrow> (\<And>x. k x = Some (resp, m') \<Longrightarrow> P m') \<Longrightarrow> P m'"
  by (cases p) (auto simp: with_params_def)

lemma control_P: "HandleControl js pd marshal unmarshal lb req m = Some (resp, m') \<Longrightarrow> P m \<Longrightarrow> P m'"
  unfolding HandleControl_def Let_def
  by (auto split: if_splits prod.splits option.splits elim!: with_params_P
      simp: StartGroup_def start_group stopLocked_def StopGroup_def
      dest: Add_P Enable_P Remove_P Disable_P Restart_P Reload_P stop_all saved [of _ _ _ _ m])

lemma manager_op_P: "manager_op m m' \<Longrightarrow> P m \<Longrightarrow> P m'"
  by (induction rule: manager_op.induct)
     (auto simp: startLocked_def stopLocked_def start_all intro: control_P stop_all Reload_P frame)

end



lemma startOne_names: "distinct (map fst (m_tunnels m)) \<Longrightarrow> distinct (map fst (m_tunnels (snd (startOne pd tc m))))"
  by (auto simp: startOne_def Let_def split: sum.splits intro: distinct_update)

lemma stopTunnel_tables:
  "stopTunnelLocked name r m = Some m' \<Longrightarrow>
     m_tunnels m' = AList.delete name (m_tunnels m) \<and> m_mts m' = (m_mts m)[r := (m_mts m ! r)\<lparr>mt_cancelled := True\<rparr>]"
  by (auto simp: stopTunnelLocked_def cancel_def upd_mt_def split: if_splits)

interpretation grow: table_invariant "\<lambda>m. grows m0 m \<and> distinct (map fst (m_tunnels m))" for m0
  by unfold_locales
     (auto simp: startOne_names distinct_delete dest: stopTunnel_tables grows_stopTunnel
       intro: grows_trans grows_startOne grows_trans [OF _ grows_same])

text \<open>Every tunnel that was ever started is cancelled or in the table: none is forgotten.\<close>

definition tracked :: "Manager \<Rightarrow> bool" where
  "tracked m \<longleftrightarrow> (\<forall>r < length (m_mts m). mt_cancelled (m_mts m ! r) \<or> r \<in> snd ` set (m_tunnels m))"

lemma tracked_start: "tracked m \<Longrightarrow> tracked (snd (startOne pd tc m))"
  by (auto simp: tracked_def startOne_def Let_def less_Suc_eq nth_append update_fresh split: sum.splits)

lemma tracked_stop:
  assumes "tracked m" and "distinct (map fst (m_tunnels m))" and "map_of (m_tunnels m) name = Some r"
    and "stopTunnelLocked name r m = Some m'"
  shows "tracked m'"
proof -
  have keeps: "k \<in> snd ` set (m_tunnels m')" if k: "k \<in> snd ` set (m_tunnels m)" "k \<noteq> r" for k
  proof -
    obtain n where n: "(n, k) \<in> set (m_tunnels m)" using k(1) by auto
    then have "n \<noteq> name" using map_of_is_SomeI [OF assms(2) n] assms(3) k(2) by auto
    with n show ?thesis using stopTunnel_tables [OF assms(4)] by (force simp: AList.delete_eq)
  qed
  moreover have m': "m_mts m' = (m_mts m)[r := (m_mts m ! r)\<lparr>mt_cancelled := True\<rparr>]"
    using stopTunnel_tables [OF assms(4)] by simp
  ultimately have "mt_cancelled (m_mts m' ! k) \<or> k \<in> snd ` set (m_tunnels m')" if k: "k < length (m_mts m)" for k
  proof (cases "k = r")
    case False
    have "mt_cancelled (m_mts m ! k) \<or> k \<in> snd ` set (m_tunnels m)" using assms(1) k by (simp add: tracked_def)
    then show ?thesis using keeps [of k] False m' by auto
  qed (use k m' in simp)
  then show ?thesis using m' by (simp add: tracked_def)
qed

lemma tracked_cong: "tracked m \<Longrightarrow> m_tunnels m' = m_tunnels m \<Longrightarrow> m_mts m' = m_mts m \<Longrightarrow> tracked m'"
  by (simp add: tracked_def)

interpretation track: table_invariant "\<lambda>m. tracked m \<and> distinct (map fst (m_tunnels m))"
proof unfold_locales
  fix m m' name r
  assume "tracked m \<and> distinct (map fst (m_tunnels m))" "map_of (m_tunnels m) name = Some r"
    "stopTunnelLocked name r m = Some m'"
  then show "tracked m' \<and> distinct (map fst (m_tunnels m'))"
    using tracked_stop [of m name r m'] stopTunnel_tables [of name r m m'] by (simp add: distinct_delete)
qed (auto simp: startOne_names tracked_start intro: tracked_cong)

section \<open>The invariant\<close>

text \<open>A service that nobody has closed.\<close>

fun up :: "service \<Rightarrow> bool" where
  "up (TCPService p) = (px_open p \<and> \<not> px_closed p)"
| "up (UDPService p) = (up_open p \<and> \<not> up_closed p)"
| "up (ChainService p) = (cp_open p \<and> \<not> cp_closed p)"
| "up (SocksService p) = (px_open p \<and> \<not> px_closed p)"
| "up (ServerService rs) = (rs_ctrlLn rs \<and> \<not> rs_closed rs)"
| "up (OneClient rc _) = (\<not> rc_stopped rc)"
| "up (ManyClients rcs) = (\<forall>rc\<in>set rcs. \<not> rc_stopped rc)"

text \<open>What the managed tunnel shows at each point of its goroutine.\<close>

fun run_ok :: "managedTunnel \<Rightarrow> run_at \<Rightarrow> bool" where
  "run_ok mt NotBegun = fresh_mt mt"
| "run_ok mt Begun = (\<not> mt_done mt \<and> ts_Status (mt_state mt) = ''starting'')"
| "run_ok mt (Running svc e) = (\<not> mt_done mt \<and> up svc
     \<and> (if is_client svc
        then e = None \<and> ts_Status (mt_state mt) \<in> {''starting'', ''established'', ''degraded'', ''reconnecting''}
        else ts_Status (mt_state mt) = ''listening''))"
| "run_ok mt (Ended svc None) = (mt_done mt \<and> mt_cancelled mt \<and> ts_Status (mt_state mt) = ''stopped''
     \<and> (\<exists>x. svc = Some x \<and> \<not> active x))"
| "run_ok mt (Ended svc (Some e)) = (mt_done mt \<and> ts_Status (mt_state mt) = ''error''
     \<and> ts_LastErr (mt_state mt) = err_text e \<and> (\<forall>x. svc = Some x \<longrightarrow> active x))"

definition system_ok :: "tunnel_system \<Rightarrow> bool" where
  "system_ok s \<longleftrightarrow> mgr_wf (d_m s) \<and> tracked (d_m s) \<and> length (d_runs s) = length (m_mts (d_m s))
     \<and> (\<forall>r < length (d_runs s). run_ok (m_mts (d_m s) ! r) (d_runs s ! r))"

lemma tracked_upd:
  assumes "\<And>mt. mt_cancelled (f mt) = mt_cancelled mt" and "tracked m"
  shows "tracked (upd_mt r f m)"
proof -
  have "mt_cancelled ((m_mts m)[r := f (m_mts m ! r)] ! k) = mt_cancelled (m_mts m ! k)" for k
    using assms(1) by (cases "k = r"; cases "r < length (m_mts m)") (auto simp: list_update_beyond)
  then show ?thesis using assms(2) by (simp add: tracked_def upd_mt_def)
qed

lemma run_ok_cancelled: "run_ok mt a \<Longrightarrow> (mt_cancelled mt \<longrightarrow> c) \<Longrightarrow> run_ok (mt\<lparr>mt_cancelled := c\<rparr>) a"
  by (cases "(mt, a)" rule: run_ok.cases) auto

lemma run_ok_lastErr: "run_ok mt a \<Longrightarrow> run_ok (mt\<lparr>mt_lastErr := e\<rparr>) a"
  by (cases "(mt, a)" rule: run_ok.cases) (auto simp: fresh_mt_def)

lemma traffic_keeps: "traffic x y \<Longrightarrow> up y = up x \<and> is_client y = is_client x"
  by (cases "(x, y)" rule: traffic.cases) (auto simp: list_all2_conv_all_nth set_conv_nth)

lemma Serve_error_client: "is_client x \<Longrightarrow> Serve_error x err = None"
  by (cases x) auto

lemma up_active: "up x \<Longrightarrow> \<not> is_client x \<Longrightarrow> active x"
  by (cases x) auto

lemma close_clients_ok:
  assumes "\<forall>rc\<in>set rcs. \<not> rc_stopped rc"
  obtains ds where "close_clients rcs = Some ds" "\<forall>rc\<in>set ds. rc_stopped rc"
  using assms
proof (induction rcs arbitrary: thesis)
  case (Cons c cs)
  obtain ds where ds: "close_clients cs = Some ds" "\<forall>rc\<in>set ds. rc_stopped rc" using Cons.IH Cons.prems(2) by auto
  obtain d where d: "rc_Close c = Some d" "rc_stopped d"
    using Cons.prems(2) by (auto simp: rc_Close_def Let_def upd_rcc_def split: option.split)
  show ?case by (rule Cons.prems(1) [of "d # ds"]) (use ds d in auto)
qed simp

lemma fold_upd_cc_ctrlLn: "rs_ctrlLn (fold (\<lambda>r. upd_cc r f) xs rs) = rs_ctrlLn rs"
  by (induction xs arbitrary: rs) (simp_all add: upd_cc_def)

lemma fold_upd_sl_ctrlLn: "rs_ctrlLn (fold (\<lambda>l. upd_sl l f) xs rs) = rs_ctrlLn rs"
  by (induction xs arbitrary: rs) (simp_all add: upd_sl_def)

lemma fold_upd_us_open: "up_open (fold (\<lambda>i. upd_us i f) xs p) = up_open p"
  by (induction xs arbitrary: p) (simp_all add: upd_us_def)

lemma run_stop_ok:
  assumes "up svc"
  obtains svc' where "run_stop svc = Some svc'" "\<not> active svc'"
proof (cases svc)
  case (ManyClients rcs)
  then show thesis using close_clients_ok [of rcs] assms that by (metis active.simps(7) option.simps(9) run_stop.simps(7) up.simps(7))
next
  case (ServerService rs)
  then show thesis using assms that by (auto simp: rs_Close_def Let_def fold_upd_cc_ctrlLn fold_upd_sl_ctrlLn)
next
  case (UDPService p)
  then show thesis using that by (auto simp: udp_Close_def Let_def fold_upd_us_open)
next
  case (OneClient rc mt)
  then show thesis using assms that by (auto simp: rc_Close_def Let_def upd_rcc_def split: option.splits)
qed (use that in \<open>auto simp: proxy_Close_def socks_Close_def chain_Close_def px_Close_def\<close>)

lemma run_setup_up: "run_setup env fn tc m p = (Inr svc, p') \<Longrightarrow> up svc"
  by (cases fn)
     (auto simp: runLocal_def runChain_def runDynamic_def runRemoteClient_def runRemoteClientMulti_def runRemoteServer_def
        wrap_err_def NewUDPProxy_def NewProxy_def NewTLSProxy_def proxy_on_def NewChainProxy_def NewSocksProxy_def
        NewSocksProxyWithAuth_def NewRemoteClient_def NewRemoteServer_def Let_def
        split: if_splits sum.splits prod.splits option.splits)

lemma manager_op_wf: "manager_op m m' \<Longrightarrow> mgr_wf m \<Longrightarrow> mgr_wf m'"
proof (induction rule: manager_op.induct)
  case (op_control js pd marshal unmarshal lb req m resp m')
  then show ?case using manager_step_wf ms_control by blast
next
  case (op_stop m m')
  then show ?case using stopLocked_ok by fastforce
next
  case (op_reload pd unmarshal m e m')
  then show ?case using manager_step_wf ms_reload by blast
next
  case (op_os m os kh)
  then show ?case by (auto intro: mgr_wf_cong [of _ m] simp: cfg_names_def)
qed (simp add: startLocked_wf)

lemma system_ok_op:
  assumes "system_ok s" and "manager_op (d_m s) m"
  shows "system_ok (s\<lparr>d_m := m, d_runs := d_runs s @ replicate (length (m_mts m) - length (m_mts (d_m s))) NotBegun\<rparr>)"
proof -
  have "distinct (map fst (m_tunnels (d_m s)))" using assms(1) by (simp add: system_ok_def mgr_wf_def)
  then have g: "grows (d_m s) m" and tr: "tracked m"
    using grow.manager_op_P [OF assms(2)] track.manager_op_P [OF assms(2)] assms(1) by (simp_all add: grows_same system_ok_def)
  have len: "length (d_runs s) = length (m_mts (d_m s))" using assms(1) by (simp add: system_ok_def)
  have "run_ok (m_mts m ! r) (d_runs s ! r)" if r: "r < length (d_runs s)" for r
  proof -
    have "run_ok (m_mts (d_m s) ! r) (d_runs s ! r)" using assms(1) r by (simp add: system_ok_def)
    moreover have "m_mts m ! r = (m_mts (d_m s) ! r)\<lparr>mt_cancelled := mt_cancelled (m_mts m ! r)\<rparr>"
      "mt_cancelled (m_mts (d_m s) ! r) \<longrightarrow> mt_cancelled (m_mts m ! r)"
      using g r len by (auto simp: grows_def)
    ultimately show ?thesis using run_ok_cancelled by metis
  qed
  moreover have "fresh_mt (m_mts m ! r)" if "r < length (m_mts m)" "\<not> r < length (d_runs s)" for r
    using g that len by (simp add: grows_def)
  moreover have "length (m_mts (d_m s)) \<le> length (m_mts m)" using g by (simp add: grows_def)
  ultimately show ?thesis
    using manager_op_wf [OF assms(2)] tr assms(1) len by (auto simp: system_ok_def nth_append)
qed

lemma system_ok_set:
  assumes "system_ok s" and "r < length (d_runs s)" and "run_ok (f (m_mts (d_m s) ! r)) a"
    and "\<And>mt. mt_cancelled (f mt) = mt_cancelled mt" and "\<And>mt. mt_cfg (f mt) = mt_cfg mt"
  shows "system_ok (set_run r a (upd_mt r f (d_m s)) s)"
  using assms upd_mt_wf [of "d_m s" f r] tracked_upd [of f "d_m s" r]
  by (auto simp: system_ok_def set_run_def upd_mt_def nth_list_update)

lemma system_ok_run:
  "system_ok s \<Longrightarrow> r < length (d_runs s) \<Longrightarrow> run_ok (m_mts (d_m s) ! r) a \<Longrightarrow> system_ok (set_run r a (d_m s) s)"
  by (auto simp: system_ok_def set_run_def nth_list_update)

lemma system_ok_mt:
  assumes "system_ok s" and "\<And>mt. mt_cancelled (f mt) = mt_cancelled mt" and "\<And>mt. mt_cfg (f mt) = mt_cfg mt"
    and "r < length (d_runs s) \<Longrightarrow> run_ok (f (m_mts (d_m s) ! r)) (d_runs s ! r)"
  shows "system_ok (s\<lparr>d_m := upd_mt r f (d_m s)\<rparr>)"
proof -
  have "run_ok ((m_mts (d_m s))[r := f (m_mts (d_m s) ! r)] ! k) (d_runs s ! k)" if "k < length (d_runs s)" for k
    using assms(1,4) that by (cases "k = r") (auto simp: system_ok_def)
  then show ?thesis
    using assms(1) upd_mt_wf [of "d_m s" f r] tracked_upd [of f "d_m s" r] assms(2,3) by (auto simp: system_ok_def upd_mt_def)
qed

lemma system_ok_process: "system_ok (set_process p s) = system_ok s"
  by (cases p) (auto simp: system_ok_def set_process_def mgr_wf_def cfg_names_def tracked_def)

lemma set_process_simps [simp]:
  "d_runs (set_process p s) = d_runs s" "m_mts (d_m (set_process p s)) = m_mts (d_m s)"
  by (cases p; simp add: set_process_def)+

lemma ts_Set_simps [simp]:
  "ts_Status (ts_Set st e now ts) = st" "ts_LastErr (ts_Set st e now ts) = e"
  by (simp_all add: ts_Set_def Let_def)

lemma system_ok_at: "system_ok s \<Longrightarrow> r < length (d_runs s) \<Longrightarrow> d_runs s ! r = a \<Longrightarrow> run_ok (m_mts (d_m s) ! r) a"
  by (auto simp: system_ok_def)

lemma system_ok_serve:
  assumes "system_ok s" and "r < length (d_runs s)" and "d_runs s ! r = Begun" and "up svc"
  shows "system_ok (set_run r (Running svc None) (set_listening r svc now (d_m s)) s)"
proof (cases "is_client svc")
  case True
  then show ?thesis unfolding set_listening_def
    using assms system_ok_at [OF assms(1-3)] by (auto intro!: system_ok_run)
next
  case False
  then show ?thesis unfolding set_listening_def
    using assms system_ok_at [OF assms(1-3)] by (auto intro!: system_ok_set)
qed

lemma system_ok_tick:
  assumes "system_ok s" and "r < length (d_runs s)" and "d_runs s ! r = Running (OneClient rc mt) e"
    and "runRemoteClient_tick isup n err now mt r (d_m s) = Some m"
  shows "system_ok (s\<lparr>d_m := m\<rparr>)"
proof -
  let ?f = "\<lambda>t. t\<lparr>mt_state := SetReconnectCount n
      (ts_Set (if isup then ''established'' else ''reconnecting'') '''' now (mt_state t))\<rparr>"
  let ?s = "s\<lparr>d_m := upd_mt r ?f (d_m s)\<rparr>"
  have s1: "system_ok ?s"
    using assms(1,3) system_ok_at [OF assms(1-3)] by (intro system_ok_mt) (auto simp: SetReconnectCount_def)
  have "system_ok (?s\<lparr>d_m := upd_mt q (\<lambda>t. t\<lparr>mt_lastErr := x\<rparr>) (d_m ?s)\<rparr>)" for q x
    by (rule system_ok_mt [OF s1]) (use s1 in \<open>auto simp: system_ok_def intro: run_ok_lastErr\<close>)
  then show ?thesis using s1 assms(4) unfolding runRemoteClient_tick_def Let_def by (auto split: option.splits)
qed

lemma system_ok_step:
  assumes "system_ok s" and "tunnel_step s t"
  shows "system_ok t"
  using assms(2)
proof cases
  case (tn_op m)
  then show ?thesis using system_ok_op assms(1) by blast
next
  case (tn_begin r now)
  then show ?thesis unfolding tn_begin(1) goroutine_begin_def
    using assms(1) by (intro system_ok_set) (auto simp: system_ok_def fresh_mt_def)
next
  case (tn_fail r env m0 e p s' now)
  then show ?thesis unfolding tn_fail(1) goroutine_end_def
    using assms(1) by (intro system_ok_set) (auto simp: system_ok_process)
next
  case (tn_serve r env m0 svc p s' now)
  then show ?thesis using assms(1) run_setup_up [OF tn_serve(4)] system_ok_serve [of s'] by (simp add: system_ok_process)
next
  case (tn_tick r rc mt e now m)
  then show ?thesis using system_ok_tick [OF assms(1)] by blast
next
  case (tn_multi r rcs e now)
  then show ?thesis unfolding tn_multi(1) runRemoteClientMulti_tick_def Let_def
    using assms(1) system_ok_at [OF assms(1) tn_multi(2,3)]
    by (auto intro!: system_ok_mt simp: multi_status_def Let_def SetReconnectCount_def split: prod.splits)
next
  case (tn_traffic r svc e svc')
  then show ?thesis unfolding tn_traffic(1)
    using assms(1) system_ok_at [OF assms(1) tn_traffic(2,3)] traffic_keeps [of svc svc'] by (auto intro!: system_ok_run)
next
  case (tn_served r svc err e)
  then show ?thesis unfolding tn_served(1)
    using assms(1) system_ok_at [OF assms(1) tn_served(2,3)] Serve_error_client [of svc err] by (auto intro!: system_ok_run)
next
  case (tn_err r svc e now)
  then show ?thesis unfolding tn_err(1) goroutine_end_def
    using assms(1) system_ok_at [OF assms(1) tn_err(2,3)] up_active [of svc] by (auto intro!: system_ok_set split: if_splits)
next
  case (tn_stop r svc e svc' now)
  have "\<not> active svc'"
    using run_stop_ok [of svc] tn_stop(5) system_ok_at [OF assms(1) tn_stop(2,3)] by (metis option.inject run_ok.simps(3))
  then show ?thesis unfolding tn_stop(1) goroutine_end_def
    using assms(1) tn_stop by (auto intro!: system_ok_set)
qed

lemma system_ok_init: "tunnel_init s \<Longrightarrow> system_ok s"
  by (auto simp: tunnel_init_def system_ok_def NewManager_def mgr_wf_def tracked_def Let_def)

interpretation tun: invariant_system tunnel_init tunnel_step system_ok
  by unfold_locales (auto intro: system_ok_init system_ok_step)

section \<open>Reaching the end\<close>

lemma ends_from_running:
  assumes "system_ok s" and "r < length (d_runs s)" and "d_runs s ! r = Running svc e" and "mt_cancelled (m_mts (d_m s) ! r)"
  obtains t svc' where "tunnel_step s t" "d_runs t ! r = Ended (Some svc') None" "\<not> active svc'"
proof -
  have "up svc" using assms(1-3) by (metis run_ok.simps(3) system_ok_def)
  then obtain svc' where svc': "run_stop svc = Some svc'" "\<not> active svc'" by (rule run_stop_ok)
  show thesis
    by (rule that [OF tn_stop [OF assms(2,3,4) svc'(1), of 0] _ svc'(2)]) (use assms(2) in \<open>simp add: set_run_def\<close>)
qed

lemma after_begun:
  assumes "system_ok s" and "r < length (d_runs s)" and "d_runs s ! r = Begun"
  obtains t svc e where "tunnel_step s t" "mt_cancelled (m_mts (d_m t) ! r) = mt_cancelled (m_mts (d_m s) ! r)"
    "r < length (d_runs t)" "d_runs t ! r = Ended None (Some e) \<or> d_runs t ! r = Running svc None"
proof -
  fix env :: run_env
  obtain res p where run: "run_of env r (d_m s) s = (res, p)" by (cases "run_of env r (d_m s) s")
  have len: "r < length (m_mts (d_m s))" using assms by (simp add: system_ok_def)
  show thesis
  proof (cases res)
    case (Inl e)
    show thesis
      by (rule that [OF tn_fail [OF assms(2,3) run [unfolded Inl] refl, of 0]])
         (use assms(2) len in \<open>auto simp: set_run_def goroutine_end_def upd_mt_def\<close>)
  next
    case (Inr svc)
    show thesis
      by (rule that [OF tn_serve [OF assms(2,3) run [unfolded Inr] disjI1 [OF refl] refl, of 0]])
         (use assms(2) len in \<open>auto simp: set_run_def set_listening_def upd_mt_def\<close>)
  qed
qed

definition ended :: "run_at \<Rightarrow> bool" where
  "ended a \<longleftrightarrow> (\<exists>svc res. a = Ended svc res)"

lemma ends_from_begun:
  assumes "system_ok s" and "r < length (d_runs s)" and "d_runs s ! r = Begun" and "mt_cancelled (m_mts (d_m s) ! r)"
  obtains t where "tunnel_step\<^sup>*\<^sup>* s t" "ended (d_runs t ! r)"
proof -
  obtain t svc e where t: "tunnel_step s t" "mt_cancelled (m_mts (d_m t) ! r) = mt_cancelled (m_mts (d_m s) ! r)"
    "r < length (d_runs t)" "d_runs t ! r = Ended None (Some e) \<or> d_runs t ! r = Running svc None"
    by (rule after_begun [OF assms(1-3)])
  show thesis using t(4)
  proof
    assume "d_runs t ! r = Ended None (Some e)"
    then show thesis using that [of t] t(1) by (auto simp: ended_def)
  next
    assume run: "d_runs t ! r = Running svc None"
    have "system_ok t" using system_ok_step [OF assms(1) t(1)] .
    then obtain u svc' where "tunnel_step t u" "d_runs u ! r = Ended (Some svc') None"
      using ends_from_running t(2,3) run assms(4) by metis
    then show thesis using that [of u] t(1) by (auto simp: ended_def intro: rtranclp.rtrancl_into_rtrancl)
  qed
qed

lemma cancelled_ends:
  assumes "system_ok s" and "r < length (d_runs s)" and "mt_cancelled (m_mts (d_m s) ! r)"
  obtains t where "tunnel_step\<^sup>*\<^sup>* s t" "ended (d_runs t ! r)"
proof (cases "d_runs s ! r")
  case NotBegun
  let ?t = "set_run r Begun (goroutine_begin r 0 (d_m s)) s"
  have st: "tunnel_step s ?t" using tn_begin [OF assms(2) NotBegun] .
  have "r < length (m_mts (d_m s))" using assms by (simp add: system_ok_def)
  then have "r < length (d_runs ?t)" "d_runs ?t ! r = Begun" "mt_cancelled (m_mts (d_m ?t) ! r)"
    using assms(2,3) by (simp_all add: set_run_def goroutine_begin_def upd_mt_def)
  then obtain t where "tunnel_step\<^sup>*\<^sup>* ?t t" "ended (d_runs t ! r)"
    using ends_from_begun [OF system_ok_step [OF assms(1) st]] by blast
  then show thesis using that [of t] st by (meson converse_rtranclp_into_rtranclp)
next
  case Begun
  then show thesis using ends_from_begun [OF assms(1,2) _ assms(3)] that by blast
next
  case (Running svc e)
  then show thesis using ends_from_running [OF assms(1,2) _ assms(3)] that by (metis ended_def r_into_rtranclp)
next
  case (Ended svc res)
  then show thesis using that [of s] by (auto simp: ended_def)
qed

section \<open>Properties\<close>

text \<open>
  C14: The status a tunnel is reported with tells where its goroutine is: a tunnel outside
  the table is stopped; one that waits shows that it listens, and its listener is then
  open, or the state of its connections; one whose goroutine returned shows that
  error. A tunnel of the table is never one that ended without an error.
\<close>

theorem status_truthful:
  assumes "tunnels_reachable s" and "mgr_Status name (d_m s) = Inr st"
  shows "case map_of (m_tunnels (d_m s)) name of
      None \<Rightarrow> st_Status st = ''stopped''
    | Some r \<Rightarrow> (case d_runs s ! r of
          NotBegun \<Rightarrow> st_Status st = ''running''
        | Begun \<Rightarrow> st_Status st = ''starting''
        | Running svc _ \<Rightarrow>
            if is_client svc then st_Status st \<in> {''starting'', ''established'', ''degraded'', ''reconnecting''}
            else active svc \<and> st_Status st = ''listening''
        | Ended _ res \<Rightarrow> \<exists>e. res = Some e \<and> st_Status st = ''error'' \<and> st_Error st = err_text e)"
proof -
  have ok: "system_ok s" by (rule tun.reachable_inv [OF assms(1)])
  define k where "k = nat (findConfig name (d_m s))"
  have k: "tc_Name (Tunnels (m_cfg (d_m s)) ! k) = name" "st = tunnelStatusLocked (d_m s) (Tunnels (m_cfg (d_m s)) ! k)"
    using assms(2) findConfig_nth [of name "d_m s"] by (auto simp: k_def mgr_Status_def split: if_splits)
  show ?thesis
  proof (cases "map_of (m_tunnels (d_m s)) name")
    case None
    then show ?thesis by (simp add: k tunnelStatusLocked_def Let_def)
  next
    case (Some r)
    have st: "st_Status st = (let status = ts_Status (mt_state (m_mts (d_m s) ! r)) in if status = '''' then ''running'' else status)"
      "st_Error st = ts_LastErr (mt_state (m_mts (d_m s) ! r))"
      by (simp_all add: k Some tunnelStatusLocked_def ts_Get_def Let_def)
    have r: "r < length (m_mts (d_m s))" "\<not> mt_cancelled (m_mts (d_m s) ! r)"
      using ok map_of_SomeD [OF Some] by (auto simp: system_ok_def mgr_wf_def)
    then have "run_ok (m_mts (d_m s) ! r) (d_runs s ! r)" using ok by (simp add: system_ok_def)
    then show ?thesis using r(2) Some
      by (cases "(m_mts (d_m s) ! r, d_runs s ! r)" rule: run_ok.cases)
         (auto simp: st Let_def fresh_mt_def zero_TunnelState_def up_active)
  qed
qed

text \<open>
  C15: Stopping releases the listener. Once the goroutine of a cancelled tunnel has
  returned without an error, its service accepts nothing and its clients are stopped;
  and the goroutine of a cancelled tunnel can always reach its end, wherever it is, so
  that the wait for it need not time out.
\<close>

theorem stop_releases:
  assumes "tunnels_reachable s" and "r < length (d_runs s)"
  shows "(mt_done (m_mts (d_m s) ! r) \<longleftrightarrow> ended (d_runs s ! r))
     \<and> (\<forall>svc. d_runs s ! r = Ended svc None \<longrightarrow> mt_cancelled (m_mts (d_m s) ! r) \<and> (\<exists>x. svc = Some x \<and> \<not> active x))
     \<and> (mt_cancelled (m_mts (d_m s) ! r) \<longrightarrow> (\<exists>t. tunnel_step\<^sup>*\<^sup>* s t \<and> ended (d_runs t ! r)))"
proof -
  have ok: "system_ok s" by (rule tun.reachable_inv [OF assms(1)])
  then have "run_ok (m_mts (d_m s) ! r) (d_runs s ! r)" using assms(2) by (simp add: system_ok_def)
  moreover have "\<exists>t. tunnel_step\<^sup>*\<^sup>* s t \<and> ended (d_runs t ! r)" if "mt_cancelled (m_mts (d_m s) ! r)"
    using cancelled_ends [OF ok assms(2) that] by blast
  ultimately show ?thesis
    by (cases "(m_mts (d_m s) ! r, d_runs s ! r)" rule: run_ok.cases) (auto simp: ended_def fresh_mt_def)
qed

text \<open>
  A tunnel that fails keeps its listener: when \<^verbatim>\<open>Serve\<close> returns an error (an
  \<^verbatim>\<open>Accept\<close> without free file descriptors is enough) the run function returns it
  without closing the proxy, so that the address stays taken although the goroutine
  is done.
\<close>

theorem failed_tunnel_keeps_listener:
  assumes "tunnels_reachable s" and "r < length (d_runs s)" and "d_runs s ! r = Ended (Some svc) (Some e)"
  shows "mt_done (m_mts (d_m s) ! r) \<and> active svc"
  using tun.reachable_inv [OF assms(1)] assms(2,3) by (fastforce simp: system_ok_def)

text \<open>A daemon with one tunnel: started, listening, stopped.\<close>

definition demo_env :: run_env where
  "demo_env = \<lparr>re_pk = demo_pkgs, re_rand = demo_rand, re_now = 0, re_identityDir = ''/id'', re_listen = (\<lambda>_. None),
     re_tlsListen = (\<lambda>_ _. Inr ()), re_resolveUDP = Inr, re_listenUDP = (\<lambda>_. None)\<rparr>"

definition demo_started :: tunnel_system where
  "demo_started = \<lparr>d_m = demo_running, d_cache = (\<lambda>_. None), d_runs = [NotBegun]\<rparr>"

definition demo_begun :: tunnel_system where
  "demo_begun = set_run 0 Begun (goroutine_begin 0 1 (d_m demo_started)) demo_started"

definition demo_up_sys :: tunnel_system where
  "demo_up_sys = set_run 0 (Running (TCPService (proxy_on ''web:80'')) None)
     (set_listening 0 (TCPService (proxy_on ''web:80'')) 2 (d_m demo_begun)) demo_begun"

lemma demo_running_mts: "length (m_mts demo_running) = 1" "mt_cfg (m_mts demo_running ! 0) = demo_tc"
  "mt_run (m_mts demo_running ! 0) = RunLocal" "\<not> mt_cancelled (m_mts demo_running ! 0)"
  by (simp_all add: demo_running_def startLocked_def demo_mgr_def NewManager_def demo_cfg_def demo_tc_def
      zero_TunnelConfig_def startOne_def select_runFn_def Let_def)

lemma demo_started_reachable: "tunnels_reachable demo_started"
proof -
  let ?s = "\<lparr>d_m = demo_mgr, d_cache = (\<lambda>_. None), d_runs = []\<rparr>"
  have "tunnel_init ?s" by (auto simp: tunnel_init_def demo_mgr_def)
  then have "tunnels_reachable ?s" by (rule reachable_init)
  moreover have "manager_op (d_m ?s) demo_running" unfolding demo_running_def by (simp add: op_start)
  then have "tunnel_step ?s demo_started"
    using tn_op [of ?s demo_running] by (simp add: demo_started_def demo_running_mts demo_mgr_def NewManager_def Let_def)
  ultimately show ?thesis by (rule reachable_step)
qed

lemma demo_begun_reachable: "tunnels_reachable demo_begun"
  unfolding demo_begun_def
  by (rule reachable_step [OF demo_started_reachable tn_begin]) (simp_all add: demo_started_def)

lemma demo_begun_mts: "mt_cfg (m_mts (d_m demo_begun) ! 0) = demo_tc" "mt_run (m_mts (d_m demo_begun) ! 0) = RunLocal"
  "length (m_mts (d_m demo_begun)) = 1"
  using demo_running_mts by (simp_all add: demo_begun_def set_run_def goroutine_begin_def upd_mt_def demo_started_def)

lemma demo_up_reachable: "tunnels_reachable demo_up_sys"
proof -
  let ?p = "(d_cache demo_begun, m_os (d_m demo_begun))"
  have "run_of demo_env 0 (d_m demo_begun) demo_begun = (Inr (TCPService (proxy_on ''web:80'')), ?p)"
    by (simp add: demo_begun_mts runLocal_def demo_tc_def zero_TunnelConfig_def wrap_err_def NewProxy_def demo_env_def)
  moreover have "set_process ?p demo_begun = demo_begun" by (simp add: set_process_def)
  ultimately have "tunnel_step demo_begun demo_up_sys"
    unfolding demo_up_sys_def
    using tn_serve [of 0 demo_begun demo_env "d_m demo_begun" "TCPService (proxy_on ''web:80'')" ?p demo_begun 2]
    by (simp add: demo_begun_def set_run_def demo_started_def)
  with demo_begun_reachable show ?thesis by (rule reachable_step)
qed

lemma demo_up_state: "m_tunnels (d_m demo_up_sys) = [(''web'', 0)]"
  "d_runs demo_up_sys ! 0 = Running (TCPService (proxy_on ''web:80'')) None" "length (d_runs demo_up_sys) = 1"
  "findConfig ''web'' (d_m demo_up_sys) = 0"
  using demo_running_tunnels
  by (simp_all add: demo_up_sys_def set_run_def set_listening_def upd_mt_def demo_begun_def goroutine_begin_def
      demo_started_def findConfig_def demo_cfg_def demo_tc_def zero_TunnelConfig_def)

theorem status_truthful_witness:
  "\<exists>st. mgr_Status ''web'' (d_m demo_up_sys) = Inr st \<and> st_Status st = ''listening''"
proof -
  obtain st where st: "mgr_Status ''web'' (d_m demo_up_sys) = Inr st"
    by (simp add: mgr_Status_def demo_up_state)
  show ?thesis using status_truthful [OF demo_up_reachable st] st by (auto simp: demo_up_state)
qed

theorem stop_releases_witness:
  "\<exists>s t. stopLocked (d_m demo_started) = Some (d_m s) \<and> tunnel_step\<^sup>*\<^sup>* s t \<and> ended (d_runs t ! 0)"
proof -
  have wf: "mgr_wf (d_m demo_started)" using tun.reachable_inv [OF demo_started_reachable] by (simp add: system_ok_def)
  obtain m where m: "stopLocked (d_m demo_started) = Some m" using stopLocked_ok [OF wf] by blast
  have len: "length (m_mts m) = 1" "mt_cancelled (m_mts m ! 0)"
    using m demo_running_mts demo_running_tunnels
    by (auto simp: stopLocked_def demo_started_def stopTunnelLocked_def cancel_def upd_mt_def bind_eq_Some_conv split: if_splits)
  let ?s = "demo_started\<lparr>d_m := m\<rparr>"
  have "tunnel_step demo_started ?s"
    using tn_op [OF op_stop [OF m]] len demo_running_mts by (simp add: demo_started_def)
  then have "tunnels_reachable ?s" by (rule reachable_step [OF demo_started_reachable])
  then obtain t where "tunnel_step\<^sup>*\<^sup>* ?s t" "ended (d_runs t ! 0)"
    using stop_releases [of ?s 0] len by (auto simp: demo_started_def)
  then show ?thesis using m by (intro exI [of _ ?s] exI [of _ t]) simp
qed

theorem failed_tunnel_keeps_listener_witness:
  "\<exists>s svc. tunnel_step\<^sup>*\<^sup>* demo_up_sys s \<and> mt_done (m_mts (d_m s) ! 0) \<and> d_runs s ! 0 = Ended (Some svc) (Some (SysError ''too many open files'')) \<and> active svc"
proof -
  let ?svc = "TCPService (proxy_on ''web:80'')" and ?e = "SysError ''too many open files''"
  define s1 where "s1 = set_run 0 (Running ?svc (Some ?e)) (d_m demo_up_sys) demo_up_sys"
  define s2 where "s2 = set_run 0 (Ended (Some ?svc) (Some ?e)) (goroutine_end 0 (Some ?e) 3 (d_m s1)) s1"
  have 1: "tunnel_step demo_up_sys s1" unfolding s1_def
    by (rule tn_served [where err = ?e]) (simp_all add: demo_up_state proxy_Serve_turn_def Serve_answer_def proxy_on_def)
  have s1: "0 < length (d_runs s1)" "d_runs s1 ! 0 = Running ?svc (Some ?e)"
    by (simp_all add: s1_def set_run_def demo_up_state)
  have 2: "tunnel_step s1 s2" unfolding s2_def by (rule tn_err [OF s1])
  have s2: "0 < length (d_runs s2)" "d_runs s2 ! 0 = Ended (Some ?svc) (Some ?e)"
    using s1 by (simp_all add: s2_def set_run_def)
  have "tunnels_reachable s1" by (rule reachable_step [OF demo_up_reachable 1])
  then have "tunnels_reachable s2" using 2 by (rule reachable_step)
  then have "mt_done (m_mts (d_m s2) ! 0) \<and> active ?svc" using s2 by (rule failed_tunnel_keeps_listener)
  moreover have "tunnel_step\<^sup>*\<^sup>* demo_up_sys s2" using 1 2 by auto
  ultimately show ?thesis using s2(2) by blast
qed

end
