(* ===== verification/Daemon.thy ===== *)
theory Daemon
  imports Tunnel_Run
begin

text \<open>
  The daemon process: its pid file (\<^verbatim>\<open>manager/daemon.go\<close>), the control socket
  (\<^verbatim>\<open>manager/control.go\<close>), and the life of the process from \<^verbatim>\<open>runDaemon\<close> in
  \<^verbatim>\<open>main.go\<close>: control requests, signals, the shutdown. Parameters: the JSON encoding of
  requests and answers, and \<^verbatim>\<open>kill\<close>.
\<close>

section \<open>The pid file\<close>

text \<open>
  \<^verbatim>\<open>strconv.Atoi\<close>, that is \<^verbatim>\<open>ParseInt(s, 10, 64)\<close>: a sign, then the loop of
  \<^verbatim>\<open>ParseUint\<close>, then the range of the signed type.
\<close>

definition Atoi :: "string \<Rightarrow> int res" where
  "Atoi s =
     (let fail = (\<lambda>e. Inl (Wrap (''strconv.Atoi: parsing '' @ quote s) e));
          syntax = fail (Errorf ''invalid syntax''); range = fail (Errorf ''value out of range'');
          neg = (s \<noteq> '''' \<and> hd s = CHR ''-'');
          ds = (if s \<noteq> '''' \<and> (hd s = CHR ''-'' \<or> hd s = CHR ''+'') then tl s else s) in
      if ds = '''' then syntax
      else case parse_digits 64 0 ds of
        Inl e \<Rightarrow> fail e
      | Inr n \<Rightarrow>
          if \<not> neg \<and> n \<ge> 2 ^ 63 then range
          else if neg \<and> n > 2 ^ 63 then range
          else Inr (if neg then - int n else int n))"

definition PidfilePath :: "os_env \<Rightarrow> string" where
  "PidfilePath os = filepath_Join [DefaultDataDir os, ''tunneld.pid'']"

definition WritePidfile :: "nat \<Rightarrow> os_env \<Rightarrow> error option \<times> os_env" where
  "WritePidfile pid os =
     (case os_mkdirErr os (PidfilePath os) of
        Some e \<Rightarrow> (Some e, os)
      | None \<Rightarrow> WriteFile os (PidfilePath os) (itoa pid @ [CHR 0x0A]))"

text \<open>\<^verbatim>\<open>os.Remove\<close>: \<open>rmErr\<close> is what the system answers for a file that exists.\<close>

definition os_Remove :: "(string \<Rightarrow> error option) \<Rightarrow> os_env \<Rightarrow> string \<Rightarrow> error option \<times> os_env" where
  "os_Remove rmErr os path =
     (case os_files os path of
        None \<Rightarrow> (Some (SysError (''remove '' @ path @ '': no such file or directory'')), os)
      | Some _ \<Rightarrow>
          (case rmErr path of
             Some e \<Rightarrow> (Some e, os)
           | None \<Rightarrow> (None, os\<lparr>os_files := (os_files os)(path := None)\<rparr>)))"

definition RemovePidfile :: "(string \<Rightarrow> error option) \<Rightarrow> os_env \<Rightarrow> error option \<times> os_env" where
  "RemovePidfile rmErr os = os_Remove rmErr os (PidfilePath os)"

definition ReadPidfile :: "os_env \<Rightarrow> int res" where
  "ReadPidfile os =
     (case ReadFile os (PidfilePath os) of
        Inl e \<Rightarrow> Inl e
      | Inr data \<Rightarrow> (case Atoi (TrimSpace data) of Inl e \<Rightarrow> Inl (Wrap ''invalid pid'' e) | Inr pid \<Rightarrow> Inr pid))"

text \<open>\<open>kill pid\<close> says whether \<^verbatim>\<open>syscall.Kill(pid, 0)\<close> succeeds.\<close>

definition processExists :: "(int \<Rightarrow> bool) \<Rightarrow> int \<Rightarrow> bool" where
  "processExists kill pid = kill pid"

definition IsRunning :: "(int \<Rightarrow> bool) \<Rightarrow> os_env \<Rightarrow> bool" where
  "IsRunning kill os = (case ReadPidfile os of Inl _ \<Rightarrow> False | Inr pid \<Rightarrow> processExists kill pid)"


section \<open>The control socket\<close>

definition ControlSocketPath :: "string \<Rightarrow> os_env \<Rightarrow> string" where
  "ControlSocketPath controlSocketOverride os =
     (if controlSocketOverride \<noteq> '''' then controlSocketOverride
      else filepath_Join [DefaultDataDir os, ''control.sock''])"

text \<open>
  The messages on the socket. Encoding an answer may fail, when its result is not valid
  JSON; \<open>Encode\<close> then writes nothing.
\<close>

record control_codec =
  enc_req :: "Request \<Rightarrow> string"
  dec_req :: "string \<Rightarrow> Request res"
  enc_resp :: "Response \<Rightarrow> string res"
  dec_resp :: "string \<Rightarrow> Response res"

text \<open>
  \<^verbatim>\<open>handleControlConn\<close>: what has arrived on the connection when the decoder is done (or
  the deadline has passed), and what is written before it is closed. \<open>None\<close> is a
  panic of the handler.
\<close>

definition handleControlConn ::
  "control_codec \<Rightarrow> (Request \<Rightarrow> 's \<Rightarrow> (Response \<times> 's) option) \<Rightarrow> string \<Rightarrow> 's \<Rightarrow> (string \<times> 's) option" where
  "handleControlConn cd handler data s =
     (case dec_req cd data of
        Inl _ \<Rightarrow> Some ('''', s)
      | Inr req \<Rightarrow>
          (case handler req s of
             None \<Rightarrow> None
           | Some (resp, s') \<Rightarrow>
               Some (case enc_resp cd resp of Inl _ \<Rightarrow> '''' | Inr answer \<Rightarrow> answer, s')))"

text \<open>
  \<^verbatim>\<open>SendControl\<close>: \<open>params\<close> is \<open>None\<close> for nil and otherwise what \<^verbatim>\<open>json.Marshal\<close> makes of
  it; the errors are those of dialling and of sending; \<open>answer\<close> is what arrives for
  the request that was sent.
\<close>

definition SendControl_request :: "string \<Rightarrow> string res option \<Rightarrow> Request res" where
  "SendControl_request meth params =
     (case params of
        Some (Inl e) \<Rightarrow> Inl e
      | Some (Inr data) \<Rightarrow> Inr \<lparr>req_Method = meth, req_Params = data, req_ID = 1\<rparr>
      | None \<Rightarrow> Inr \<lparr>req_Method = meth, req_Params = '''', req_ID = 1\<rparr>)"

definition SendControl_response :: "control_codec \<Rightarrow> string \<Rightarrow> string res" where
  "SendControl_response cd answer =
     (case dec_resp cd answer of
        Inl e \<Rightarrow> Inl (Wrap ''read response'' e)
      | Inr resp \<Rightarrow>
          if resp_Error resp \<noteq> '''' then Inl (Errorf (''control error: '' @ resp_Error resp))
          else Inr (resp_Result resp))"

definition SendControl ::
  "control_codec \<Rightarrow> error option \<Rightarrow> error option \<Rightarrow> (string \<Rightarrow> 's \<Rightarrow> (string \<times> 's) option)
     \<Rightarrow> string \<Rightarrow> string res option \<Rightarrow> 's \<Rightarrow> (string res \<times> 's) option" where
  "SendControl cd dialErr sendErr server meth params s =
     (case dialErr of
        Some e \<Rightarrow> Some (Inl (Wrap ''dial control'' e), s)
      | None \<Rightarrow>
          (case SendControl_request meth params of
             Inl e \<Rightarrow> Some (Inl e, s)
           | Inr req \<Rightarrow>
               (case sendErr of
                  Some e \<Rightarrow> Some (Inl (Wrap ''send request'' e), s)
                | None \<Rightarrow> map_option (\<lambda>(answer, s'). (SendControl_response cd answer, s')) (server (enc_req cd req) s))))"


text \<open>
  \<^verbatim>\<open>ServeControl\<close>: the errors before the loop (\<open>lnErr\<close>, \<open>chmodErr\<close> are those of listening and
  of restricting the socket to its owner), and one turn of the loop, where \<open>stopped\<close> says that
  the channel \<^verbatim>\<open>stop\<close> is closed.
\<close>

definition ServeControl_listen :: "error option \<Rightarrow> error option \<Rightarrow> error option" where
  "ServeControl_listen lnErr chmodErr =
     (case lnErr of
        Some e \<Rightarrow> Some (Wrap ''control listen'' e)
      | None \<Rightarrow> (case chmodErr of Some e \<Rightarrow> Some (Wrap ''control socket chmod'' e) | None \<Rightarrow> None))"

definition ServeControl_turn :: "bool \<Rightarrow> 'c res \<Rightarrow> 'c accept_turn" where
  "ServeControl_turn stopped answer =
     (case answer of
        Inl err \<Rightarrow> if stopped then ServeEnds None else ServeEnds (Some err)
      | Inr c \<Rightarrow> Handle c)"


section \<open>The life of the daemon\<close>

text \<open>
  The goroutines of \<^verbatim>\<open>runDaemon\<close>: \<open>dm_shutdown\<close> says that the channel \<^verbatim>\<open>shutdown\<close> is
  closed, \<open>dm_pending\<close> counts the goroutines that sleep after a \<^verbatim>\<open>stop\<close> request,
  \<open>dm_control\<close> says that the control socket accepts, \<open>dm_exited\<close> that \<^verbatim>\<open>runDaemon\<close>
  has returned.
\<close>

record daemon =
  dm_sys :: tunnel_system
  dm_shutdown :: bool
  dm_pending :: nat
  dm_control :: bool
  dm_exited :: bool

text \<open>\<^verbatim>\<open>triggerShutdown\<close>: the \<^verbatim>\<open>sync.Once\<close> makes a second call do nothing.\<close>

definition triggerShutdown :: "daemon \<Rightarrow> daemon" where
  "triggerShutdown d = d\<lparr>dm_shutdown := True\<rparr>"

definition set_mgr :: "Manager \<Rightarrow> daemon \<Rightarrow> daemon" where
  "set_mgr m d = d\<lparr>dm_sys := (dm_sys d)\<lparr>d_m := m,
     d_runs := d_runs (dm_sys d) @ replicate (length (m_mts m) - length (m_mts (d_m (dm_sys d)))) NotBegun\<rparr>\<rparr>"

text \<open>The goroutine of the control server when \<^verbatim>\<open>ServeControl\<close> has returned.\<close>

definition control_returned :: "error option \<Rightarrow> daemon \<Rightarrow> daemon" where
  "control_returned err d =
     (let d1 = d\<lparr>dm_control := False\<rparr> in case err of None \<Rightarrow> d1 | Some _ \<Rightarrow> triggerShutdown d1)"

text \<open>The process up to the point where it waits for the shutdown: \<open>Inl\<close> is \<^verbatim>\<open>log.Fatalf\<close>.\<close>

definition runDaemon_start :: "(string \<Rightarrow> int res) \<Rightarrow> nat \<Rightarrow> Config \<Rightarrow> identityCache \<Rightarrow> os_env \<Rightarrow> daemon res" where
  "runDaemon_start pd pid cfg cache os =
     (case WritePidfile pid os of
        (Some e, os1) \<Rightarrow> Inl (Wrap ''pidfile'' e)
      | (None, os1) \<Rightarrow>
          let m = NewManager cfg '''' os1 in
          Inr (set_mgr (startLocked pd m)
            \<lparr>dm_sys = \<lparr>d_m = m, d_cache = cache, d_runs = []\<rparr>, dm_shutdown = False, dm_pending = 0,
             dm_control = True, dm_exited = False\<rparr>))"

text \<open>The handler of the control server.\<close>

definition daemon_handler ::
  "json_api \<Rightarrow> (string \<Rightarrow> int res) \<Rightarrow> (Config \<Rightarrow> string res) \<Rightarrow> (string \<Rightarrow> Config res) \<Rightarrow> LogBuffer
     \<Rightarrow> Request \<Rightarrow> daemon \<Rightarrow> (Response \<times> daemon) option" where
  "daemon_handler js pd marshal unmarshal lb req d =
     (case HandleControl js pd marshal unmarshal lb req (d_m (dm_sys d)) of
        None \<Rightarrow> None
      | Some (resp, m) \<Rightarrow>
          let d1 = set_mgr m d in
          Some (resp, if req_Method req = ''stop'' then d1\<lparr>dm_pending := dm_pending d1 + 1\<rparr> else d1))"

text \<open>The end of \<^verbatim>\<open>runDaemon\<close>: stop every tunnel, then the deferred removal of the pid file.\<close>

definition runDaemon_end :: "(string \<Rightarrow> error option) \<Rightarrow> daemon \<Rightarrow> daemon option" where
  "runDaemon_end rmErr d =
     (case stopLocked (d_m (dm_sys d)) of
        None \<Rightarrow> None
      | Some m \<Rightarrow> Some ((set_mgr (m\<lparr>m_os := snd (RemovePidfile rmErr (m_os m))\<rparr>) d)\<lparr>dm_exited := True\<rparr>))"

inductive daemon_step :: "daemon \<Rightarrow> daemon \<Rightarrow> bool" where
  dn_request: "\<not> dm_exited d \<Longrightarrow> daemon_handler js pd marshal unmarshal lb req d = Some (resp, d') \<Longrightarrow> daemon_step d d'"
| dn_timer: "\<not> dm_exited d \<Longrightarrow> dm_pending d > 0 \<Longrightarrow>
    daemon_step d (triggerShutdown (d\<lparr>dm_pending := dm_pending d - 1\<rparr>))"
| dn_hup: "\<not> dm_exited d \<Longrightarrow> mgr_Reload pd unmarshal (d_m (dm_sys d)) = Some (e, m) \<Longrightarrow> daemon_step d (set_mgr m d)"
| dn_term: "\<not> dm_exited d \<Longrightarrow> daemon_step d (triggerShutdown d)"
| dn_control_refused: "\<not> dm_exited d \<Longrightarrow> dm_control d \<Longrightarrow> ServeControl_listen lnErr chmodErr = Some e \<Longrightarrow>
    daemon_step d (control_returned (Some e) d)"
| dn_control_ends: "\<not> dm_exited d \<Longrightarrow> dm_control d \<Longrightarrow>
    ServeControl_turn (dm_shutdown d) (Inl err :: unit res) = ServeEnds e \<Longrightarrow> daemon_step d (control_returned e d)"
| dn_tunnel: "\<not> dm_exited d \<Longrightarrow> tunnel_step (dm_sys d) s \<Longrightarrow> daemon_step d (d\<lparr>dm_sys := s\<rparr>)"
| dn_exit: "\<not> dm_exited d \<Longrightarrow> dm_shutdown d \<Longrightarrow> runDaemon_end rmErr d = Some d' \<Longrightarrow> daemon_step d d'"

definition daemon_init :: "daemon \<Rightarrow> bool" where
  "daemon_init d \<longleftrightarrow> (\<exists>pd pid cfg cache os. runDaemon_start pd pid cfg cache os = Inr d)"

abbreviation daemon_reachable :: "daemon \<Rightarrow> bool" where
  "daemon_reachable \<equiv> reachable daemon_init daemon_step"

section \<open>The invariant of the process\<close>

text \<open>
  The tunnels are in a state the tunnel system can reach, and after the exit every tunnel
  ever started is cancelled. \<^verbatim>\<open>runDaemon\<close> returns only after a shutdown.
\<close>

definition all_cancelled :: "Manager \<Rightarrow> bool" where
  "all_cancelled m \<longleftrightarrow> m_tunnels m = [] \<and> (\<forall>mt\<in>set (m_mts m). mt_cancelled mt)"

definition daemon_ok :: "daemon \<Rightarrow> bool" where
  "daemon_ok d \<longleftrightarrow> tunnels_reachable (dm_sys d)
     \<and> (dm_exited d \<longrightarrow> dm_shutdown d \<and> all_cancelled (d_m (dm_sys d)))"

lemma set_mgr_reachable:
  "tunnels_reachable (dm_sys d) \<Longrightarrow> manager_op (d_m (dm_sys d)) m \<Longrightarrow> tunnels_reachable (dm_sys (set_mgr m d))"
  using reachable_step [of tunnel_init tunnel_step "dm_sys d"] tn_op [of "dm_sys d" m] by (simp add: set_mgr_def)

lemma set_mgr_simps [simp]:
  "dm_shutdown (set_mgr m d) = dm_shutdown d" "dm_pending (set_mgr m d) = dm_pending d"
  "dm_exited (set_mgr m d) = dm_exited d" "d_m (dm_sys (set_mgr m d)) = m" "dm_control (set_mgr m d) = dm_control d"
  by (simp_all add: set_mgr_def)

lemma stopLocked_cancels_all:
  assumes "system_ok s"
  obtains m where "stopLocked (d_m s) = Some m" "all_cancelled m"
proof -
  have wf: "mgr_wf (d_m s)" "tracked (d_m s)" using assms by (simp_all add: system_ok_def)
  obtain m where m: "stopLocked (d_m s) = Some m" "m_tunnels m = []" using stopLocked_ok [OF wf(1)] by blast
  have "tracked m" using track.stop_all [of "d_m s" "\<lambda>_. True" m] wf m(1) by (simp add: stopLocked_def mgr_wf_def)
  then show thesis using m by (intro that [of m]) (auto simp: all_cancelled_def tracked_def in_set_conv_nth)
qed

lemma runDaemon_end_ok:
  assumes "tunnels_reachable (dm_sys d)"
  obtains d' where "runDaemon_end rmErr d = Some d'" "dm_exited d'" "all_cancelled (d_m (dm_sys d'))"
    "tunnels_reachable (dm_sys d')" "dm_shutdown d' = dm_shutdown d"
    "m_os (d_m (dm_sys d')) = snd (RemovePidfile rmErr (m_os (d_m (dm_sys d))))"
proof -
  have ok: "system_ok (dm_sys d)" by (rule tun.reachable_inv [OF assms])
  obtain m where m: "stopLocked (d_m (dm_sys d)) = Some m" "all_cancelled m" by (rule stopLocked_cancels_all [OF ok])
  have os: "m_os m = m_os (d_m (dm_sys d))"
    using stopLocked_ok [of "d_m (dm_sys d)"] m(1) ok by (auto simp: system_ok_def same_rest_def)
  let ?m = "m\<lparr>m_os := snd (RemovePidfile rmErr (m_os m))\<rparr>"
  have r1: "tunnels_reachable (dm_sys (set_mgr m d))" by (rule set_mgr_reachable [OF assms op_stop [OF m(1)]])
  have "manager_op m (m\<lparr>m_os := snd (RemovePidfile rmErr (m_os m)), m_knownHosts := m_knownHosts m\<rparr>)" by (rule op_os)
  then have "manager_op (d_m (dm_sys (set_mgr m d))) ?m" by simp
  then have "tunnels_reachable (dm_sys (set_mgr ?m (set_mgr m d)))" by (rule set_mgr_reachable [OF r1])
  moreover have "set_mgr ?m (set_mgr m d) = set_mgr ?m d" by (simp add: set_mgr_def)
  ultimately show thesis
    using m os by (intro that [of "(set_mgr ?m d)\<lparr>dm_exited := True\<rparr>"]) (simp_all add: runDaemon_end_def all_cancelled_def)
qed

lemma daemon_ok_init: "daemon_init d \<Longrightarrow> daemon_ok d"
proof -
  assume "daemon_init d"
  then obtain pd pid cfg cache os0 where i: "runDaemon_start pd pid cfg cache os0 = Inr d" by (auto simp: daemon_init_def)
  obtain e os where "WritePidfile pid os0 = (e, os)" by fastforce
  then have d: "d = set_mgr (startLocked pd (NewManager cfg '''' os))
      \<lparr>dm_sys = \<lparr>d_m = NewManager cfg '''' os, d_cache = cache, d_runs = []\<rparr>, dm_shutdown = False, dm_pending = 0,
       dm_control = True, dm_exited = False\<rparr>"
    using i by (cases e) (simp_all add: runDaemon_start_def Let_def)
  have "tunnels_reachable \<lparr>d_m = NewManager cfg '''' os, d_cache = cache, d_runs = []\<rparr>"
    by (rule reachable_init) (auto simp: tunnel_init_def)
  then show "daemon_ok d" unfolding d daemon_ok_def by (simp add: set_mgr_reachable op_start)
qed

lemma daemon_ok_step:
  assumes "daemon_ok d" and "daemon_step d d'"
  shows "daemon_ok d'"
  using assms(2)
proof cases
  case (dn_request js pd marshal unmarshal lb req resp)
  obtain m where "HandleControl js pd marshal unmarshal lb req (d_m (dm_sys d)) = Some (resp, m)"
    "d' = set_mgr m d \<or> d' = (set_mgr m d)\<lparr>dm_pending := dm_pending (set_mgr m d) + 1\<rparr>"
    using dn_request(2) by (auto simp: daemon_handler_def Let_def split: option.splits if_splits)
  then show ?thesis using assms(1) dn_request(1) set_mgr_reachable [OF _ op_control, of d]
    by (auto simp: daemon_ok_def)
next
  case (dn_hup pd unmarshal e m)
  then show ?thesis using assms(1) set_mgr_reachable [OF _ op_reload, of d] by (auto simp: daemon_ok_def)
next
  case (dn_tunnel s)
  then show ?thesis using assms(1) reachable_step [of tunnel_init tunnel_step "dm_sys d" s] by (auto simp: daemon_ok_def)
next
  case (dn_exit rmErr)
  have "tunnels_reachable (dm_sys d)" using assms(1) by (simp add: daemon_ok_def)
  then show ?thesis using runDaemon_end_ok [of d rmErr] dn_exit(2,3) unfolding daemon_ok_def by (metis option.inject)
qed (use assms(1) in \<open>auto simp: daemon_ok_def triggerShutdown_def control_returned_def Let_def split: option.splits\<close>)

interpretation dmn: invariant_system daemon_init daemon_step daemon_ok
  by unfold_locales (auto intro: daemon_ok_init daemon_ok_step)


section \<open>Properties\<close>

lemma Atoi_itoa:
  assumes "n < 2 ^ 63"
  shows "Atoi (itoa n) = Inr (int n)"
proof -
  have "hd (itoa n) \<in> set ''0123456789''" using itoa_digits [of n] itoa_not_nil [of n] by (meson hd_in_set subsetD)
  then have "hd (itoa n) \<noteq> CHR ''-''" "hd (itoa n) \<noteq> CHR ''+''" by auto
  moreover have "parse_digits 64 0 (itoa n) = Inr n" using parse_digits_itoa [of n 64 "[]"] assms by simp
  ultimately show ?thesis using assms by (simp add: Atoi_def Let_def)
qed

lemma TrimSpace_pid: "TrimSpace (itoa n @ [CHR 0x0A]) = itoa n"
proof -
  have "\<not> is_space c" if "c \<in> set (itoa n)" for c
    using itoa_digits [of n] that by (auto simp: is_space_def)
  then have "dropWhile is_space (itoa n @ [CHR 0x0A]) = itoa n @ [CHR 0x0A]"
    "dropWhile is_space (rev (itoa n)) = rev (itoa n)"
    by (auto simp: dropWhile_eq_self_iff hd_append hd_rev)
  then show ?thesis by (simp add: TrimSpace_def is_space_def)
qed

lemma PidfilePath_files [simp]: "PidfilePath (os\<lparr>os_files := f\<rparr>) = PidfilePath os"
  by (simp add: PidfilePath_def DefaultDataDir_def)

lemma removed_not_running:
  assumes "rmErr (PidfilePath os) = None"
  shows "\<not> IsRunning kill (snd (RemovePidfile rmErr os))"
  using assms
  by (cases "os_files os (PidfilePath os)"; cases "os_readErr os (PidfilePath os)")
     (simp_all add: IsRunning_def ReadPidfile_def ReadFile_def RemovePidfile_def os_Remove_def)

lemma written_pid:
  assumes "WritePidfile pid os = (None, os')" and "os_readErr os (PidfilePath os) = None" and "pid < 2 ^ 63"
  shows "ReadPidfile os' = Inr (int pid)" and "IsRunning kill os' = kill (int pid)" and "PidfilePath os' = PidfilePath os"
proof -
  have os': "os' = os\<lparr>os_files := (os_files os)(PidfilePath os \<mapsto> itoa pid @ [CHR 0x0A])\<rparr>"
    using assms(1) by (auto simp: WritePidfile_def WriteFile_def split: option.splits)
  show r: "ReadPidfile os' = Inr (int pid)"
    using assms(2,3) unfolding os' by (simp add: ReadPidfile_def ReadFile_def TrimSpace_pid Atoi_itoa)
  then show "IsRunning kill os' = kill (int pid)" by (simp add: IsRunning_def processExists_def)
  show "PidfilePath os' = PidfilePath os" by (simp add: os')
qed

text \<open>
  The pid file says who runs. After \<^verbatim>\<open>WritePidfile\<close> the file is read back as that
  pid, so that \<^verbatim>\<open>IsRunning\<close> asks about exactly that process, and after
  \<^verbatim>\<open>RemovePidfile\<close> no daemon is reported.
\<close>

theorem pidfile_roundtrip:
  assumes "WritePidfile pid os = (None, os')" and "os_readErr os (PidfilePath os) = None" and "pid < 2 ^ 63"
    and "rmErr (PidfilePath os) = None"
  shows "ReadPidfile os' = Inr (int pid) \<and> IsRunning kill os' = kill (int pid)
     \<and> \<not> IsRunning kill (snd (RemovePidfile rmErr os'))"
  using written_pid [OF assms(1-3)] removed_not_running [of rmErr os' kill] assms(4) by simp


lemma daemon_can_exit:
  assumes "daemon_reachable d" and "\<not> dm_exited d" and "dm_pending d > 0 \<or> dm_shutdown d"
  obtains d' where "daemon_step\<^sup>*\<^sup>* d d'" "dm_exited d'"
proof -
  obtain d1 where d1: "daemon_step\<^sup>*\<^sup>* d d1" "daemon_reachable d1" "\<not> dm_exited d1" "dm_shutdown d1"
  proof (cases "dm_shutdown d")
    case True
    then show thesis using that [of d] assms by simp
  next
    case False
    let ?t = "triggerShutdown (d\<lparr>dm_pending := dm_pending d - 1\<rparr>)"
    have "daemon_step d ?t" using assms(2,3) False by (intro dn_timer) auto
    then show thesis
      using that [of ?t] reachable_step [OF assms(1), of ?t] assms(2) by (simp add: triggerShutdown_def r_into_rtranclp)
  qed
  have "tunnels_reachable (dm_sys d1)" using dmn.reachable_inv [OF d1(2)] by (simp add: daemon_ok_def)
  then obtain d2 where "runDaemon_end (\<lambda>_. None) d1 = Some d2" "dm_exited d2" by (rule runDaemon_end_ok)
  then show thesis using that [of d2] d1 dn_exit [OF d1(3,4)] by (meson rtranclp.rtrancl_into_rtrancl)
qed

text \<open>
  C16: \<^verbatim>\<open>tunnel stop\<close> works: in every state of a running daemon a \<^verbatim>\<open>stop\<close> request is
  answered without an error, with no tunnel left in the table, and the daemon can then
  reach its end.
\<close>

theorem stop_request_ends_daemon:
  assumes "daemon_reachable d" and "\<not> dm_exited d" and "req_Method req = ''stop''"
  shows "\<exists>resp d1. daemon_handler js pd marshal unmarshal lb req d = Some (resp, d1) \<and> resp_Error resp = ''''
     \<and> resp_ID resp = req_ID req \<and> m_tunnels (d_m (dm_sys d1)) = [] \<and> (\<exists>d2. daemon_step\<^sup>*\<^sup>* d1 d2 \<and> dm_exited d2)"
proof -
  have "tunnels_reachable (dm_sys d)" using dmn.reachable_inv [OF assms(1)] by (simp add: daemon_ok_def)
  then have ok: "system_ok (dm_sys d)" by (rule tun.reachable_inv)
  obtain m where m: "stopLocked (d_m (dm_sys d)) = Some m" "m_tunnels m = []"
    using stopLocked_cancels_all [OF ok] by (auto simp: all_cancelled_def)
  let ?d = "(set_mgr m d)\<lparr>dm_pending := dm_pending d + 1\<rparr>"
  have h: "daemon_handler js pd marshal unmarshal lb req d = Some (reply req None, ?d)"
    using m(1) assms(3) by (simp add: daemon_handler_def HandleControl_def Let_def)
  have "daemon_reachable ?d" by (rule reachable_step [OF assms(1) dn_request [OF assms(2) h]])
  then obtain d2 where "daemon_step\<^sup>*\<^sup>* ?d d2" "dm_exited d2"
    using daemon_can_exit [of ?d] assms(2) by auto
  then show ?thesis using h m(2) by (auto simp: reply_def reply_ok_def)
qed


text \<open>
  A restart can lose the new daemon. \<^verbatim>\<open>tunnel stop\<close> removes the pid file as soon as its
  request is answered, so that a new daemon may start and write its own while the old
  one still shuts down; the deferred removal of the old one then deletes the file of
  the new one, which from then on counts as not running.
\<close>

theorem restart_loses_pidfile:
  assumes "snd (RemovePidfile rmErr os) = os1" and "WritePidfile pid os1 = (None, os2)"
    and "os_readErr os1 (PidfilePath os1) = None" and "pid < 2 ^ 63" and "kill (int pid)"
    and "rmErr (PidfilePath os1) = None"
  shows "IsRunning kill os2 \<and> \<not> IsRunning kill (snd (RemovePidfile rmErr os2))"
  using written_pid [OF assms(2-4)] removed_not_running [of rmErr os2 kill] assms(5,6) by simp

text \<open>Concrete instances: a daemon with one tunnel, and messages with the lengths written out.\<close>

definition put_str :: "string \<Rightarrow> string" where
  "put_str s = replicate (length s) (CHR ''1'') @ CHR ''0'' # s"

definition get_str :: "string \<Rightarrow> string \<times> string" where
  "get_str t = (let n = length (takeWhile (\<lambda>c. c = CHR ''1'') t); r = drop (n + 1) t in (take n r, drop n r))"

lemma get_put_str [simp]: "get_str (put_str s @ r) = (s, r)"
proof -
  have "takeWhile (\<lambda>c. c = CHR ''1'') (replicate k (CHR ''1'') @ CHR ''0'' # u) = replicate k (CHR ''1'')" for k u
    by (induction k) simp_all
  then show ?thesis by (simp add: get_str_def put_str_def)
qed

definition get_id :: "string \<Rightarrow> u64" where
  "get_id s = (case ParseUint s 64 of Inl _ \<Rightarrow> 0 | Inr n \<Rightarrow> word_of_nat n)"

lemma get_id_itoa [simp]: "get_id (itoa (unat w)) = w"
proof -
  have "unat w < 2 ^ LENGTH(64)" by (rule unsigned_less)
  then show ?thesis by (simp add: get_id_def)
qed

definition demo_codec :: control_codec where
  "demo_codec = \<lparr>
     enc_req = (\<lambda>r. put_str (req_Method r) @ put_str (req_Params r) @ itoa (unat (req_ID r))),
     dec_req = (\<lambda>s. let (m, s1) = get_str s; (p, s2) = get_str s1 in Inr \<lparr>req_Method = m, req_Params = p, req_ID = get_id s2\<rparr>),
     enc_resp = (\<lambda>r. Inr (put_str (resp_Result r) @ put_str (resp_Error r) @ itoa (unat (resp_ID r)))),
     dec_resp = (\<lambda>s. let (a, s1) = get_str s; (e, s2) = get_str s1 in Inr \<lparr>resp_Result = a, resp_Error = e, resp_ID = get_id s2\<rparr>)\<rparr>"

definition demo_json :: json_api where
  "demo_json = \<lparr>js_group = Inr, js_name = Inr, js_tunnel = (\<lambda>_. Inr demo_tc), js_logs = (\<lambda>p. Inr (p, 100)),
     js_list = (\<lambda>sts. Inr (concat (map st_Name sts))), js_status = (\<lambda>st. Inr (st_Status st)), js_lines = (\<lambda>ls. Inr (concat ls))\<rparr>"

definition demo_daemon :: daemon where
  "demo_daemon = set_mgr (startLocked demo_pd (NewManager demo_cfg '''' (snd (WritePidfile 4711 demo_os))))
     \<lparr>dm_sys = \<lparr>d_m = NewManager demo_cfg '''' (snd (WritePidfile 4711 demo_os)), d_cache = (\<lambda>_. None), d_runs = []\<rparr>,
      dm_shutdown = False, dm_pending = 0, dm_control = True, dm_exited = False\<rparr>"

lemma demo_pid_written: "fst (WritePidfile 4711 demo_os) = None"
  by (simp add: WritePidfile_def WriteFile_def demo_os_def)

lemma demo_daemon_reachable: "daemon_reachable demo_daemon" "\<not> dm_exited demo_daemon"
proof -
  have "runDaemon_start demo_pd 4711 demo_cfg (\<lambda>_. None) demo_os = Inr demo_daemon"
    using demo_pid_written by (cases "WritePidfile 4711 demo_os") (simp add: runDaemon_start_def demo_daemon_def Let_def)
  then have "daemon_init demo_daemon" unfolding daemon_init_def by blast
  then show "daemon_reachable demo_daemon" by (rule reachable_init)
qed (simp add: demo_daemon_def)

theorem pidfile_roundtrip_witness:
  "ReadPidfile (snd (WritePidfile 4711 demo_os)) = Inr 4711
     \<and> \<not> IsRunning (\<lambda>_. True) (snd (RemovePidfile (\<lambda>_. None) (snd (WritePidfile 4711 demo_os))))"
  using pidfile_roundtrip [of 4711 demo_os "snd (WritePidfile 4711 demo_os)" "\<lambda>_. None" "\<lambda>_. True"] demo_pid_written
  by (simp add: prod_eq_iff demo_os_def)

theorem stop_request_ends_daemon_witness:
  "\<exists>resp d1 d2. daemon_handler demo_json demo_pd demo_marshal demo_unmarshal (NewLogBuffer 10)
       \<lparr>req_Method = ''stop'', req_Params = '''', req_ID = 1\<rparr> demo_daemon = Some (resp, d1)
     \<and> m_tunnels (d_m (dm_sys d1)) = [] \<and> daemon_step\<^sup>*\<^sup>* d1 d2 \<and> dm_exited d2"
  using stop_request_ends_daemon [OF demo_daemon_reachable, of "\<lparr>req_Method = ''stop'', req_Params = '''', req_ID = 1\<rparr>"
      demo_json demo_pd demo_marshal demo_unmarshal "NewLogBuffer 10"] by auto



theorem restart_loses_pidfile_witness:
  "let os1 = snd (RemovePidfile (\<lambda>_. None) demo_os); os2 = snd (WritePidfile 4712 os1) in
   IsRunning (\<lambda>_. True) os2 \<and> \<not> IsRunning (\<lambda>_. True) (snd (RemovePidfile (\<lambda>_. None) os2))"
proof -
  let ?os1 = "snd (RemovePidfile (\<lambda>_. None) demo_os)"
  have "WritePidfile 4712 ?os1 = (None, snd (WritePidfile 4712 ?os1))" "os_readErr ?os1 (PidfilePath ?os1) = None"
    by (simp_all add: RemovePidfile_def os_Remove_def WritePidfile_def WriteFile_def demo_os_def split: option.split)
  then show ?thesis
    using restart_loses_pidfile [OF refl, of 4712 "\<lambda>_. None" demo_os "snd (WritePidfile 4712 ?os1)" "\<lambda>_. True"]
    by (simp add: Let_def)
qed

end
