(* ===== verification/Log_Capture.thy ===== *)
theory Log_Capture
  imports Daemon
begin

text \<open>
  Where the daemon's log lines go (\<^verbatim>\<open>manager/logging.go\<close> and the head of \<^verbatim>\<open>runDaemon\<close>):
  the standard logger writes each message to its output, which is the standard error
  stream, a log file, or either of them together with the ring buffer the \<^verbatim>\<open>logs\<close>
  request reads. The standard library's logger and \<^verbatim>\<open>io.MultiWriter\<close> are modelled as
  far as they decide what reaches which destination; the time stamp at the head of a
  line is a parameter.
\<close>

section \<open>The standard logger\<close>

datatype log_sink = ToStderr | ToFile string | MultiWriter log_sink

text \<open>
  \<open>lg_out\<close> is the logger's writer (\<open>None\<close> for a nil one), \<open>lg_buf\<close> the process-wide
  \<^verbatim>\<open>defaultLogBuffer\<close>, \<open>lg_stderr\<close> what was written to the standard error stream and
  \<open>lg_stderrErr\<close> what a write to it answers.
\<close>

record logger =
  lg_out :: "log_sink option"
  lg_buf :: LogBuffer
  lg_stderr :: string
  lg_stderrErr :: "error option"
  lg_os :: os_env

definition defaultLogBuffer :: LogBuffer where
  "defaultLogBuffer = NewLogBuffer 1000"

definition new_logger :: "os_env \<Rightarrow> error option \<Rightarrow> logger" where
  "new_logger os stderrErr =
     \<lparr>lg_out = Some ToStderr, lg_buf = defaultLogBuffer, lg_stderr = '''', lg_stderrErr = stderrErr, lg_os = os\<rparr>"

definition GlobalLogBuffer :: "logger \<Rightarrow> LogBuffer" where
  "GlobalLogBuffer lg = lg_buf lg"

text \<open>
  One write to a destination. A file is open for appending; a failing write may have
  written some of the bytes. \<^verbatim>\<open>io.MultiWriter\<close> stops at the first writer that fails.
\<close>

fun sink_Write :: "log_sink \<Rightarrow> string \<Rightarrow> logger \<Rightarrow> error option \<times> logger" where
  "sink_Write ToStderr s lg =
     (case lg_stderrErr lg of Some e \<Rightarrow> (Some e, lg) | None \<Rightarrow> (None, lg\<lparr>lg_stderr := lg_stderr lg @ s\<rparr>))"
| "sink_Write (ToFile path) s lg =
     (let old = (case os_files (lg_os lg) path of None \<Rightarrow> '''' | Some d \<Rightarrow> d);
          put = (\<lambda>d. lg\<lparr>lg_os := (lg_os lg)\<lparr>os_files := (os_files (lg_os lg))(path \<mapsto> d)\<rparr>\<rparr>) in
      case os_writeErr (lg_os lg) path of
        Some (e, n) \<Rightarrow> (Some e, put (old @ take n s))
      | None \<Rightarrow> (None, put (old @ s)))"
| "sink_Write (MultiWriter orig) s lg =
     (case sink_Write orig s lg of
        (Some e, lg1) \<Rightarrow> (Some e, lg1)
      | (None, lg1) \<Rightarrow>
          (case lb_Write (lg_buf lg1) (bytes_of_string s) of (_, lb) \<Rightarrow> (None, lg1\<lparr>lg_buf := lb\<rparr>)))"

text \<open>\<^verbatim>\<open>log.Print\<close>: the message as one line, and the write error is dropped.\<close>

definition log_entry :: "string \<Rightarrow> string \<Rightarrow> string" where
  "log_entry stamp s =
     (let b = stamp @ s in b @ (if b = '''' \<or> last b \<noteq> CHR 0x0A then [CHR 0x0A] else ''''))"

definition log_Print :: "string \<Rightarrow> string \<Rightarrow> logger \<Rightarrow> logger" where
  "log_Print stamp s lg =
     (case lg_out lg of None \<Rightarrow> lg | Some w \<Rightarrow> snd (sink_Write w (log_entry stamp s) lg))"


section \<open>Redirection and capture\<close>

definition SetupLogFile :: "string \<Rightarrow> logger \<Rightarrow> error option \<times> logger" where
  "SetupLogFile path lg =
     (case os_createErr (lg_os lg) path of
        Some err \<Rightarrow> (Some (Wrap ''open log file'' err), lg)
      | None \<Rightarrow>
          let old = (case os_files (lg_os lg) path of None \<Rightarrow> '''' | Some d \<Rightarrow> d) in
          (None, lg\<lparr>lg_os := (lg_os lg)\<lparr>os_files := (os_files (lg_os lg))(path \<mapsto> old)\<rparr>,
                    lg_out := Some (ToFile path)\<rparr>))"

definition InstallLogCapture :: "logger \<Rightarrow> logger" where
  "InstallLogCapture lg =
     (let orig = (case lg_out lg of None \<Rightarrow> ToStderr | Some w \<Rightarrow> w) in
      lg\<lparr>lg_out := Some (MultiWriter orig)\<rparr>)"

text \<open>The first lines of \<^verbatim>\<open>runDaemon\<close>.\<close>

definition runDaemon_log :: "string \<Rightarrow> Config \<Rightarrow> logger \<Rightarrow> logger" where
  "runDaemon_log stamp cfg lg =
     (let lg1 =
        (if LogFile (Global cfg) \<noteq> '''' then
           (case SetupLogFile (LogFile (Global cfg)) lg of
              (Some err, lg1) \<Rightarrow> log_Print stamp (''log file: '' @ err_text err) lg1
            | (None, lg1) \<Rightarrow> lg1)
         else lg)
      in InstallLogCapture lg1)"

fun log_all :: "(string \<times> string) list \<Rightarrow> logger \<Rightarrow> logger" where
  "log_all [] lg = lg"
| "log_all ((stamp, s) # es) lg = log_all es (log_Print stamp s lg)"


section \<open>Lemmas\<close>

text \<open>Whether writes to a destination succeed, and what it has received.\<close>

fun sink_ok :: "log_sink \<Rightarrow> logger \<Rightarrow> bool" where
  "sink_ok ToStderr lg \<longleftrightarrow> lg_stderrErr lg = None"
| "sink_ok (ToFile path) lg \<longleftrightarrow> os_writeErr (lg_os lg) path = None"
| "sink_ok (MultiWriter orig) lg \<longleftrightarrow> sink_ok orig lg"

fun received :: "log_sink \<Rightarrow> logger \<Rightarrow> string" where
  "received ToStderr lg = lg_stderr lg"
| "received (ToFile path) lg = (case os_files (lg_os lg) path of None \<Rightarrow> '''' | Some d \<Rightarrow> d)"
| "received (MultiWriter orig) lg = received orig lg"

definition entry_lines :: "string \<Rightarrow> string list" where
  "entry_lines s = filter (\<lambda>l. l \<noteq> '''') (Split_nl (TrimRight_nl s))"

fun plain :: "log_sink \<Rightarrow> bool" where
  "plain (MultiWriter _) = False"
| "plain _ = True"

lemma sink_Write_plain:
  assumes "plain k"
  shows "lg_buf (snd (sink_Write k s lg)) = lg_buf lg" and "lg_out (snd (sink_Write k s lg)) = lg_out lg"
    and "sink_ok k lg \<Longrightarrow> fst (sink_Write k s lg) = None \<and> sink_ok k (snd (sink_Write k s lg))
       \<and> received k (snd (sink_Write k s lg)) = received k lg @ s"
    and "\<not> sink_ok k lg \<Longrightarrow> fst (sink_Write k s lg) \<noteq> None \<and> \<not> sink_ok k (snd (sink_Write k s lg))"
  using assms by (cases k; auto simp: Let_def split: option.splits)+

lemma captured_Print:
  assumes "plain k" and "lg_out lg = Some (MultiWriter k)"
  shows "lg_out (log_Print stamp s lg) = Some (MultiWriter k)"
    and "sink_ok k (log_Print stamp s lg) = sink_ok k lg"
    and "sink_ok k lg \<Longrightarrow> received k (log_Print stamp s lg) = received k lg @ log_entry stamp s
       \<and> lg_buf (log_Print stamp s lg) = foldl appendLocked (lg_buf lg) (entry_lines (log_entry stamp s))"
    and "\<not> sink_ok k lg \<Longrightarrow> lg_buf (log_Print stamp s lg) = lg_buf lg"
proof -
  let ?e = "log_entry stamp s"
  obtain r lg1 where w: "sink_Write k ?e lg = (r, lg1)" by fastforce
  note p = sink_Write_plain [OF assms(1), where s = ?e and lg = lg, unfolded w]
  have rb: "received k (lg1\<lparr>lg_buf := b\<rparr>) = received k lg1" "sink_ok k (lg1\<lparr>lg_buf := b\<rparr>) = sink_ok k lg1" for b
    using assms(1) by (cases k; simp)+
  show "lg_out (log_Print stamp s lg) = Some (MultiWriter k)" "sink_ok k (log_Print stamp s lg) = sink_ok k lg"
    "sink_ok k lg \<Longrightarrow> received k (log_Print stamp s lg) = received k lg @ ?e
       \<and> lg_buf (log_Print stamp s lg) = foldl appendLocked (lg_buf lg) (entry_lines ?e)"
    "\<not> sink_ok k lg \<Longrightarrow> lg_buf (log_Print stamp s lg) = lg_buf lg"
    using p assms(2) w rb
    by (auto simp: log_Print_def lb_Write_def write_parts_foldl entry_lines_def split: option.splits)
qed

lemma captured_all:
  assumes "plain k" and "lg_out lg = Some (MultiWriter k)" and "sink_ok k lg"
  shows "received k (log_all es lg) = received k lg @ concat (map (\<lambda>(stamp, s). log_entry stamp s) es)
     \<and> lg_buf (log_all es lg) = foldl appendLocked (lg_buf lg) (concat (map (\<lambda>(stamp, s). entry_lines (log_entry stamp s)) es))"
  using assms(2,3)
proof (induction es arbitrary: lg)
  case (Cons e es)
  obtain stamp s where e: "e = (stamp, s)" by fastforce
  from captured_Print [OF assms(1) Cons.prems(1), of stamp s] Cons.IH [of "log_Print stamp s lg"] Cons.prems(2) e
  show ?case by simp
qed simp

section \<open>Properties\<close>

lemma runDaemon_log_captures:
  "\<exists>k. plain k \<and> lg_out (runDaemon_log stamp cfg (new_logger os e)) = Some (MultiWriter k)
     \<and> lg_buf (runDaemon_log stamp cfg (new_logger os e)) = defaultLogBuffer
     \<and> k = (if LogFile (Global cfg) \<noteq> '''' \<and> os_createErr os (LogFile (Global cfg)) = None
            then ToFile (LogFile (Global cfg)) else ToStderr)"
  by (auto simp: runDaemon_log_def InstallLogCapture_def SetupLogFile_def new_logger_def log_Print_def Let_def
      split: option.splits)

text \<open>
  C24: The log capture duplicates the log. After the start of \<^verbatim>\<open>runDaemon\<close>, as long as
  writes to the log file (or the standard error stream when no file is configured or
  it cannot be opened) succeed, every message goes to that destination, after what it
  held, and the ring buffer that answers the \<^verbatim>\<open>logs\<close> request holds the last thousand
  lines of exactly these messages.
\<close>

theorem log_capture_duplicates:
  fixes cfg :: Config and os :: os_env
  defines "file \<equiv> LogFile (Global cfg)"
  defines "k \<equiv> (if file \<noteq> '''' \<and> os_createErr os file = None then ToFile file else ToStderr)"
  assumes "sink_ok k (runDaemon_log stamp cfg (new_logger os e))"
  shows "received k (log_all es (runDaemon_log stamp cfg (new_logger os e)))
       = received k (runDaemon_log stamp cfg (new_logger os e)) @ concat (map (\<lambda>(t, s). log_entry t s) es)
     \<and> lb_lines (GlobalLogBuffer (log_all es (runDaemon_log stamp cfg (new_logger os e))))
       = (let ls = concat (map (\<lambda>(t, s). entry_lines (log_entry t s)) es) in drop (length ls - 1000) ls)"
proof -
  have c: "plain k" "lg_out (runDaemon_log stamp cfg (new_logger os e)) = Some (MultiWriter k)"
      "lg_buf (runDaemon_log stamp cfg (new_logger os e)) = defaultLogBuffer"
    using runDaemon_log_captures [of stamp cfg os e] unfolding k_def file_def by auto
  show ?thesis
    using captured_all [OF c(1,2) assms(3), of es] c(3)
      log.contents_fold(1) [of defaultLogBuffer "concat (map (\<lambda>(t, s). entry_lines (log_entry t s)) es)"]
    by (simp add: GlobalLogBuffer_def defaultLogBuffer_def NewLogBuffer_def Let_def)
qed

definition demo_log_cfg :: Config where
  "demo_log_cfg = \<lparr>Tunnels = [], Global = \<lparr>LogFile = ''/var/log/t'', ControlSocket = ''''\<rparr>\<rparr>"

theorem log_capture_duplicates_witness:
  "lb_lines (GlobalLogBuffer (log_all [(''t1 '', ''up''), (''t2 '', ''down'')]
       (runDaemon_log '''' demo_log_cfg (new_logger demo_os None)))) = [''t1 up'', ''t2 down'']"
proof -
  have l: "entry_lines (log_entry ''t1 '' ''up'') = [''t1 up'']" "entry_lines (log_entry ''t2 '' ''down'') = [''t2 down'']"
    by (simp_all add: entry_lines_def log_entry_def TrimRight_nl_def Let_def)
  have "sink_ok (ToFile ''/var/log/t'') (runDaemon_log '''' demo_log_cfg (new_logger demo_os None))"
    by (simp add: runDaemon_log_def demo_log_cfg_def SetupLogFile_def new_logger_def demo_os_def InstallLogCapture_def Let_def)
  then show ?thesis
    using log_capture_duplicates [of demo_log_cfg demo_os "''''" None "[(''t1 '', ''up''), (''t2 '', ''down'')]"] l
    by (simp add: demo_log_cfg_def demo_os_def)
qed



end
