(* ===== verification/Stop_Time.thy ===== *)
theory Stop_Time
  imports Tunnel_Manager
begin

text \<open>
  How long stopping takes (\<^verbatim>\<open>waitTunnelStopped\<close> in \<^verbatim>\<open>manager/manager.go\<close>). The waits
  change no state and are left out of the manager's operations, but they run under the
  manager's lock: until they are over every other request waits. Times are in
  nanoseconds; of a tunnel only its name and how long its goroutine needs to return
  once it is cancelled matters (\<open>None\<close> when it never does).
\<close>

section \<open>The waits\<close>

definition stopTimeout :: int where "stopTimeout = 5 * 10 ^ 9"

text \<open>\<open>fin\<close> is the moment \<^verbatim>\<open>done\<close> is closed; the result is when the wait ends, and the log lines.\<close>

definition waitTunnelStopped :: "string \<Rightarrow> int option \<Rightarrow> int \<Rightarrow> int \<times> string list" where
  "waitTunnelStopped name fin now =
     (let stopped = ''manager: stopped '' @ name;
          timeout = (now + stopTimeout, [''manager: timeout waiting for '' @ name @ '' to stop'', stopped]) in
      case fin of
        None \<Rightarrow> timeout
      | Some t \<Rightarrow> if t \<le> now + stopTimeout then (max now t, [stopped]) else timeout)"

text \<open>\<^verbatim>\<open>stopLocked\<close> has cancelled every tunnel at the moment \<open>start\<close> when it begins to wait.\<close>

fun stopLocked_waits :: "int \<Rightarrow> (string \<times> int option) list \<Rightarrow> int \<Rightarrow> int \<times> string list" where
  "stopLocked_waits start [] now = (now, [])"
| "stopLocked_waits start ((name, d) # ts) now =
     (case waitTunnelStopped name (map_option ((+) start) d) now of
        (now1, l) \<Rightarrow> (case stopLocked_waits start ts now1 of (now2, ls) \<Rightarrow> (now2, l @ ls)))"

text \<open>\<^verbatim>\<open>StopGroup\<close> cancels a tunnel and waits for it before it cancels the next.\<close>

fun StopGroup_waits :: "(string \<times> int option) list \<Rightarrow> int \<Rightarrow> int \<times> string list" where
  "StopGroup_waits [] now = (now, [])"
| "StopGroup_waits ((name, d) # ts) now =
     (case waitTunnelStopped name (map_option ((+) now) d) now of
        (now1, l) \<Rightarrow> (case StopGroup_waits ts now1 of (now2, ls) \<Rightarrow> (now2, l @ ls)))"


section \<open>Lemmas\<close>

definition prompt :: "string \<times> int option \<Rightarrow> bool" where
  "prompt t \<longleftrightarrow> (case snd t of None \<Rightarrow> False | Some d \<Rightarrow> d \<le> stopTimeout)"

lemma wait_bounds:
  "now \<le> fst (waitTunnelStopped name fin now)" "fst (waitTunnelStopped name fin now) \<le> now + stopTimeout"
  by (auto simp: waitTunnelStopped_def stopTimeout_def Let_def split: option.splits)

lemma wait_mono:
  assumes "start \<le> now'" and "now \<le> now'"
  shows "fst (waitTunnelStopped name (map_option ((+) start) d) now)
     \<le> fst (waitTunnelStopped name (map_option ((+) now') d) now')"
  using assms by (auto simp: waitTunnelStopped_def stopTimeout_def Let_def split: option.splits)

lemma wait_prompt:
  assumes "prompt (name, d)" and "start \<le> now"
  shows "fst (waitTunnelStopped name (map_option ((+) start) d) now) \<le> max now (start + stopTimeout)"
  using assms by (auto simp: waitTunnelStopped_def prompt_def stopTimeout_def Let_def split: option.splits)

lemma waits_step:
  "fst (stopLocked_waits start ((name, d) # ts) now)
     = fst (stopLocked_waits start ts (fst (waitTunnelStopped name (map_option ((+) start) d) now)))"
  "fst (StopGroup_waits ((name, d) # ts) now)
     = fst (StopGroup_waits ts (fst (waitTunnelStopped name (map_option ((+) now) d) now)))"
  by (simp_all add: case_prod_beta)

lemma stopLocked_waits_le:
  assumes "start \<le> now" and "now \<le> now'"
  shows "fst (stopLocked_waits start ts now) \<le> fst (StopGroup_waits ts now')"
  using assms
proof (induction ts arbitrary: now now')
  case (Cons t ts)
  obtain name d where t: "t = (name, d)" by fastforce
  let ?a = "fst (waitTunnelStopped name (map_option ((+) start) d) now)"
  let ?b = "fst (waitTunnelStopped name (map_option ((+) now') d) now')"
  have "?a \<le> ?b" using Cons.prems by (intro wait_mono) simp_all
  moreover have "start \<le> ?a" using Cons.prems(1) wait_bounds(1) by (rule order_trans)
  ultimately show ?case using Cons.IH [of ?a ?b] t by (simp add: waits_step del: stopLocked_waits.simps StopGroup_waits.simps)
qed simp

lemma stopLocked_waits_bound:
  assumes "start \<le> now" and "now \<le> start + stopTimeout * (int k + 1)"
  shows "now \<le> fst (stopLocked_waits start ts now)
     \<and> fst (stopLocked_waits start ts now)
         \<le> start + stopTimeout * (int k + int (length (filter (\<lambda>t. \<not> prompt t) ts)) + 1)"
  using assms
proof (induction ts arbitrary: now k)
  case (Cons t ts)
  obtain name d where t: "t = (name, d)" by fastforce
  let ?a = "fst (waitTunnelStopped name (map_option ((+) start) d) now)"
  have a: "now \<le> ?a" "?a \<le> now + stopTimeout" by (rule wait_bounds)+
  have r: "fst (stopLocked_waits start (t # ts) now) = fst (stopLocked_waits start ts ?a)"
    using t by (simp add: waits_step del: stopLocked_waits.simps StopGroup_waits.simps)
  show ?case
  proof (cases "prompt t")
    case True
    have "start + stopTimeout \<le> start + stopTimeout * (int k + 1)" by (simp add: stopTimeout_def)
    moreover have "?a \<le> max now (start + stopTimeout)"
      using True t Cons.prems(1) by (intro wait_prompt) simp_all
    ultimately have "?a \<le> start + stopTimeout * (int k + 1)" using Cons.prems(2) by linarith
    with Cons.IH [of ?a k] Cons.prems(1) a(1) True r show ?thesis by simp
  next
    case False
    have "?a \<le> start + stopTimeout * (int (Suc k) + 1)"
      using a(2) Cons.prems(2) by (simp add: distrib_left)
    with Cons.IH [of ?a "Suc k"] Cons.prems(1) a(1) False r show ?thesis
      by (simp add: algebra_simps)
  qed
qed simp


section \<open>Properties\<close>

text \<open>
  Stopping is bounded in time and concurrent. Stopping all tunnels holds the lock for
  at most five seconds when every goroutine returns within five seconds of its
  cancellation, and for five seconds more for each that does not; it never takes
  longer than stopping them one after the other, as stopping a group does.
\<close>

theorem stop_time_bounded:
  "now \<le> fst (stopLocked_waits now ts now)
   \<and> fst (stopLocked_waits now ts now) \<le> now + stopTimeout * (int (length (filter (\<lambda>t. \<not> prompt t) ts)) + 1)
   \<and> fst (stopLocked_waits now ts now) \<le> fst (StopGroup_waits ts now)"
  using stopLocked_waits_bound [of now now 0 ts] stopLocked_waits_le [of now now now ts]
  by (simp add: stopTimeout_def)

end
