(* ===== verification/Cli.thy ===== *)
theory Cli
  imports Daemon
begin

text \<open>
  The command line (\<^verbatim>\<open>main.go\<close>) and the systemd unit (\<^verbatim>\<open>manager/systemd.go\<close>): the flags,
  the commands that talk to the daemon, starting the daemon, and the ad-hoc forwarding
  modes. Parameters: the JSON package, and \<^verbatim>\<open>strconv.ParseInt\<close> with a base prefix.
\<close>

section \<open>Flags\<close>

text \<open>
  The package \<^verbatim>\<open>flag\<close>: \<open>kind\<close> tells of a flag whether it is boolean (\<open>None\<close> for one that is
  not defined), \<open>check\<close> the error its value meets. Parsing stops at the first argument
  that is no flag, or after \<^verbatim>\<open>--\<close>; the result is the assignments in order and the
  remaining arguments.
\<close>

definition split_eq :: "string \<Rightarrow> string \<times> string option" where
  "split_eq s =
     (let name = takeWhile (\<lambda>c. c \<noteq> CHR ''='') s in
      if length name < length s then (name, Some (drop (length name + 1) s)) else (name, None))"

definition assign :: "(string \<Rightarrow> string \<Rightarrow> error option) \<Rightarrow> string \<Rightarrow> string
    \<Rightarrow> ((string \<times> string) list \<times> string list) res \<Rightarrow> ((string \<times> string) list \<times> string list) res" where
  "assign check name v rest =
     (case check name v of
        Some e \<Rightarrow> Inl e
      | None \<Rightarrow> (case rest of Inl e \<Rightarrow> Inl e | Inr (vals, args) \<Rightarrow> Inr ((name, v) # vals, args)))"

fun parse_flags ::
  "(string \<Rightarrow> bool option) \<Rightarrow> (string \<Rightarrow> string \<Rightarrow> error option) \<Rightarrow> string list
     \<Rightarrow> ((string \<times> string) list \<times> string list) res" where
  "parse_flags kind check [] = Inr ([], [])"
| "parse_flags kind check (s # args) =
     (if length s < 2 \<or> hd s \<noteq> CHR ''-'' then Inr ([], s # args)
      else if s = ''--'' then Inr ([], args)
      else
        let body = (if s ! 1 = CHR ''-'' then drop 2 s else drop 1 s) in
        if body = '''' \<or> hd body = CHR ''-'' \<or> hd body = CHR ''='' then Inl (Errorf (''bad flag syntax: '' @ s))
        else
          case split_eq body of
            (name, val) \<Rightarrow>
              (case kind name of
                 None \<Rightarrow>
                   if name = ''help'' \<or> name = ''h'' then Inl (Errorf ''flag: help requested'')
                   else Inl (Errorf (''flag provided but not defined: -'' @ name))
               | Some True \<Rightarrow>
                   assign check name (case val of None \<Rightarrow> ''true'' | Some v \<Rightarrow> v) (parse_flags kind check args)
               | Some False \<Rightarrow>
                   (case val of
                      Some v \<Rightarrow> assign check name v (parse_flags kind check args)
                    | None \<Rightarrow>
                        (case args of
                           [] \<Rightarrow> Inl (Errorf (''flag needs an argument: -'' @ name))
                         | v # args' \<Rightarrow> assign check name v (parse_flags kind check args')))))"

definition ParseBool :: "string \<Rightarrow> bool option" where
  "ParseBool v =
     (if v \<in> {''1'', ''t'', ''T'', ''TRUE'', ''true'', ''True''} then Some True
      else if v \<in> {''0'', ''f'', ''F'', ''FALSE'', ''false'', ''False''} then Some False
      else None)"

text \<open>Every boolean flag refuses what \<^verbatim>\<open>ParseBool\<close> does; the integer flag is checked by \<open>parseInt\<close>.\<close>

definition check_value ::
  "(string \<Rightarrow> bool option) \<Rightarrow> (string \<Rightarrow> int res) \<Rightarrow> string set \<Rightarrow> string \<Rightarrow> string \<Rightarrow> error option" where
  "check_value kind parseInt ints name v =
     (if kind name = Some True \<and> ParseBool v = None
      then Some (Errorf (''invalid boolean value '' @ quote v @ '' for -'' @ name @ '': parse error''))
      else if name \<in> ints \<and> (\<exists>e. parseInt v = Inl e)
      then Some (Errorf (''invalid value '' @ quote v @ '' for flag -'' @ name @ '': parse error''))
      else None)"

definition str_flag :: "(string \<times> string) list \<Rightarrow> string \<Rightarrow> string" where
  "str_flag vals name = (case map_of (rev vals) name of None \<Rightarrow> '''' | Some v \<Rightarrow> v)"

definition bool_flag :: "bool \<Rightarrow> (string \<times> string) list \<Rightarrow> string \<Rightarrow> bool" where
  "bool_flag def vals name = (case map_of (rev vals) name of None \<Rightarrow> def | Some v \<Rightarrow> ParseBool v = Some True)"

definition kinds :: "string list \<Rightarrow> string list \<Rightarrow> string \<Rightarrow> bool option" where
  "kinds strs bools name =
     (if name \<in> set bools then Some True else if name \<in> set strs then Some False else None)"


section \<open>Outcomes\<close>

text \<open>
  A command prints lines and exits, or ends with \<^verbatim>\<open>log.Fatal\<close>. \<open>send\<close> is
  \<^verbatim>\<open>manager.SendControl\<close>. Marshalling the parameters of these commands cannot fail.
\<close>

datatype outcome = Fatal string | Prints "string list" | Table "string list list"

type_synonym 's sender = "string \<Rightarrow> string res option \<Rightarrow> 's \<Rightarrow> string res \<times> 's"

record cli_json =
  cj_name :: "string \<Rightarrow> string"
  cj_group :: "string \<Rightarrow> string"
  cj_tunnel :: "TunnelConfig \<Rightarrow> string"
  cj_logs :: "string \<Rightarrow> int \<Rightarrow> string"
  cj_statuses :: "string \<Rightarrow> TunnelStatus list res"
  cj_status :: "string \<Rightarrow> TunnelStatus res"
  cj_lines :: "string \<Rightarrow> (string list) res"

definition run_command ::
  "'s sender \<Rightarrow> string \<Rightarrow> string res option \<Rightarrow> (string \<Rightarrow> outcome) \<Rightarrow> 's \<Rightarrow> outcome \<times> 's" where
  "run_command send meth params k s =
     (case send meth params s of
        (Inl e, s') \<Rightarrow> (Fatal (meth @ '': '' @ err_text e), s')
      | (Inr result, s') \<Rightarrow> (k result, s'))"

text \<open>The commands on one tunnel or group; \<open>args\<close> is \<^verbatim>\<open>os.Args[2:]\<close>.\<close>

definition cmd_on ::
  "(string \<Rightarrow> string) \<Rightarrow> string \<Rightarrow> string \<Rightarrow> string \<Rightarrow> string \<Rightarrow> 's sender \<Rightarrow> string list \<Rightarrow> 's \<Rightarrow> outcome \<times> 's" where
  "cmd_on enc usage meth kind verb send args s =
     (case args of
        [] \<Rightarrow> (Fatal (''usage: tunnel '' @ usage), s)
      | name # _ \<Rightarrow>
          run_command send meth (Some (Inr (enc name))) (\<lambda>_. Prints [kind @ '' '' @ quote name @ '' '' @ verb @ ''.'']) s)"

definition cmdRemove :: "cli_json \<Rightarrow> 's sender \<Rightarrow> string list \<Rightarrow> 's \<Rightarrow> outcome \<times> 's" where
  "cmdRemove cj = cmd_on (cj_name cj) ''rm <name>'' ''remove'' ''Tunnel'' ''removed''"

definition cmdEnable :: "cli_json \<Rightarrow> 's sender \<Rightarrow> string list \<Rightarrow> 's \<Rightarrow> outcome \<times> 's" where
  "cmdEnable cj = cmd_on (cj_name cj) ''enable <name>'' ''enable'' ''Tunnel'' ''enabled''"

definition cmdDisable :: "cli_json \<Rightarrow> 's sender \<Rightarrow> string list \<Rightarrow> 's \<Rightarrow> outcome \<times> 's" where
  "cmdDisable cj = cmd_on (cj_name cj) ''disable <name>'' ''disable'' ''Tunnel'' ''disabled''"

definition cmdRestart :: "cli_json \<Rightarrow> 's sender \<Rightarrow> string list \<Rightarrow> 's \<Rightarrow> outcome \<times> 's" where
  "cmdRestart cj = cmd_on (cj_name cj) ''restart <name>'' ''restart'' ''Tunnel'' ''restarted''"

definition cmdStartGroup :: "cli_json \<Rightarrow> 's sender \<Rightarrow> string list \<Rightarrow> 's \<Rightarrow> outcome \<times> 's" where
  "cmdStartGroup cj = cmd_on (cj_group cj) ''start-group <group>'' ''start-group'' ''Group'' ''started''"

definition cmdStopGroup :: "cli_json \<Rightarrow> 's sender \<Rightarrow> string list \<Rightarrow> 's \<Rightarrow> outcome \<times> 's" where
  "cmdStopGroup cj = cmd_on (cj_group cj) ''stop-group <group>'' ''stop-group'' ''Group'' ''stopped''"

definition cmdSave :: "'s sender \<Rightarrow> 's \<Rightarrow> outcome \<times> 's" where
  "cmdSave send = run_command send ''save'' None (\<lambda>_. Prints [''Config saved.''])"

definition cmdReload :: "'s sender \<Rightarrow> 's \<Rightarrow> outcome \<times> 's" where
  "cmdReload send = run_command send ''reload'' None (\<lambda>_. Prints [''Config reloaded.''])"

text \<open>\<^verbatim>\<open>cmdStop\<close> also removes the pid file; \<open>rm\<close> is that removal on the state.\<close>

definition cmdStop :: "'s sender \<Rightarrow> ('s \<Rightarrow> 's) \<Rightarrow> 's \<Rightarrow> outcome \<times> 's" where
  "cmdStop send rm s =
     (case send ''stop'' None s of
        (Inl e, s') \<Rightarrow> (Fatal (''stop: '' @ err_text e), s')
      | (Inr _, s') \<Rightarrow> (Prints [''tunneld stopped''], rm s'))"

text \<open>
  \<^verbatim>\<open>cmdList\<close>: the columns of a row. \<open>since\<close> is \<^verbatim>\<open>time.Since\<close>, rounded to seconds, as text.
\<close>

definition int_text :: "int \<Rightarrow> string" where
  "int_text i = (if i < 0 then CHR ''-'' # itoa (nat (- i)) else itoa (nat i))"

definition list_row :: "(int \<Rightarrow> string) \<Rightarrow> TunnelStatus \<Rightarrow> string list" where
  "list_row since st =
     (let age = (case st_Since st of None \<Rightarrow> '''' | Some t \<Rightarrow> since t);
          reconnects = (if st_ReconnectCount st > 0 then int_text (st_ReconnectCount st) else '''');
          status = (if st_Error st \<noteq> '''' then st_Status st @ '' ('' @ st_Error st @ '')'' else st_Status st) in
      [st_Name st, st_Mode st, st_Local st, st_Remote st, status, age, reconnects])"

definition cmdList :: "cli_json \<Rightarrow> (int \<Rightarrow> string) \<Rightarrow> 's sender \<Rightarrow> 's \<Rightarrow> outcome \<times> 's" where
  "cmdList cj since send =
     run_command send ''list'' None (\<lambda>result.
       case cj_statuses cj result of
         Inl e \<Rightarrow> Fatal (''parse status: '' @ err_text e)
       | Inr statuses \<Rightarrow>
           if length statuses = 0 then Prints [''No tunnels configured.'']
           else Table ([''NAME'', ''MODE'', ''LOCAL'', ''REMOTE'', ''STATUS'', ''SINCE'', ''RECONNECTS'']
                   # map (list_row since) statuses))"

text \<open>The summary of \<^verbatim>\<open>cmdStatus\<close> without a name, and the details with one.\<close>

definition status_summary :: "TunnelStatus list \<Rightarrow> string" where
  "status_summary statuses =
     (let running = length (filter (\<lambda>st. st_Status st \<noteq> ''stopped'') statuses) in
      itoa (length statuses) @ '' tunnels configured, '' @ itoa running @ '' running, ''
        @ itoa (length statuses - running) @ '' stopped'')"

definition status_details :: "(int \<Rightarrow> string) \<Rightarrow> TunnelStatus \<Rightarrow> string list" where
  "status_details since st =
     [''Name:    '' @ st_Name st, ''Mode:    '' @ st_Mode st, ''Local:   '' @ st_Local st,
      ''Remote:  '' @ st_Remote st, ''Group:   '' @ st_Group st, ''Status:  '' @ st_Status st]
     @ (case st_Since st of None \<Rightarrow> [] | Some t \<Rightarrow> [''Since:   '' @ since t])
     @ (if st_ReconnectCount st > 0 then [''Reconnects: '' @ int_text (st_ReconnectCount st)] else [])
     @ (if st_Error st \<noteq> '''' then [''Error:   '' @ st_Error st] else [])"

definition cmdStatus :: "cli_json \<Rightarrow> (int \<Rightarrow> string) \<Rightarrow> 's sender \<Rightarrow> string list \<Rightarrow> 's \<Rightarrow> outcome \<times> 's" where
  "cmdStatus cj since send args s =
     (case args of
        [] \<Rightarrow>
          (case send ''list'' None s of
             (Inl e, s') \<Rightarrow> (Fatal (''status: '' @ err_text e), s')
           | (Inr result, s') \<Rightarrow>
               ((case cj_statuses cj result of
                   Inl e \<Rightarrow> Fatal (''parse status: '' @ err_text e)
                 | Inr statuses \<Rightarrow> Prints [status_summary statuses]), s'))
      | name # _ \<Rightarrow>
          run_command send ''status'' (Some (Inr (cj_name cj name))) (\<lambda>result.
            case cj_status cj result of
              Inl e \<Rightarrow> Fatal (''parse status: '' @ err_text e)
            | Inr st \<Rightarrow> Prints (status_details since st)) s)"

definition cmdLogs :: "cli_json \<Rightarrow> (string \<Rightarrow> int res) \<Rightarrow> 's sender \<Rightarrow> string list \<Rightarrow> 's \<Rightarrow> outcome \<times> 's" where
  "cmdLogs cj parseInt send args s =
     (let kind = kinds [''lines''] [] in
      case parse_flags kind (check_value kind parseInt {''lines''}) args of
        Inl e \<Rightarrow> (Fatal (err_text e), s)
      | Inr (vals, rest) \<Rightarrow>
          let lines = (case map_of (rev vals) ''lines'' of None \<Rightarrow> 100 | Some v \<Rightarrow> (case parseInt v of Inl _ \<Rightarrow> 100 | Inr n \<Rightarrow> n));
              name = (case rest of [] \<Rightarrow> '''' | a # _ \<Rightarrow> a) in
          run_command send ''logs'' (Some (Inr (cj_logs cj name lines))) (\<lambda>result.
            case cj_lines cj result of
              Inl e \<Rightarrow> Fatal (''parse logs: '' @ err_text e)
            | Inr ls \<Rightarrow> if length ls = 0 then Prints [''No log lines available.''] else Prints ls) s)"

section \<open>tunnel add\<close>

definition add_kinds :: "string \<Rightarrow> bool option" where
  "add_kinds = kinds
     [''L'', ''R'', ''D'', ''name'', ''s'', ''token'', ''tls-cert'', ''tls-key'', ''server-fingerprint'', ''socks-user'',
      ''socks-pass'', ''group'']
     [''tls'', ''tls-verify'', ''trust-on-first-use'', ''udp'', ''autostart'']"

definition add_params :: "(string \<times> string) list \<Rightarrow> addParams" where
  "add_params vals = \<lparr>ap_local = str_flag vals ''L'', ap_remote = str_flag vals ''R'', ap_dynamic = str_flag vals ''D'',
     ap_name = str_flag vals ''name'', ap_server = str_flag vals ''s'', ap_token = str_flag vals ''token'',
     ap_tls = bool_flag False vals ''tls'', ap_tlsVerify = bool_flag False vals ''tls-verify'',
     ap_tlsCert = str_flag vals ''tls-cert'', ap_tlsKey = str_flag vals ''tls-key'',
     ap_tlsTrustOnFirstUse = bool_flag False vals ''trust-on-first-use'',
     ap_tlsServerFingerprint = str_flag vals ''server-fingerprint'',
     ap_socksUser = str_flag vals ''socks-user'', ap_socksPass = str_flag vals ''socks-pass'',
     ap_protocol = (if bool_flag False vals ''udp'' then ''udp'' else ''tcp''), ap_group = str_flag vals ''group'',
     ap_autostart = bool_flag True vals ''autostart''\<rparr>"

definition cmdAdd :: "cli_json \<Rightarrow> 's sender \<Rightarrow> string list \<Rightarrow> 's \<Rightarrow> outcome \<times> 's" where
  "cmdAdd cj send args s =
     (case parse_flags add_kinds (check_value add_kinds (\<lambda>_. Inr 0) {}) args of
        Inl e \<Rightarrow> (Fatal (err_text e), s)
      | Inr (vals, _) \<Rightarrow>
          (case buildTunnelConfig (add_params vals) of
             Inl e \<Rightarrow> (Fatal (err_text e), s)
           | Inr tc \<Rightarrow>
               run_command send ''add'' (Some (Inr (cj_tunnel cj tc)))
                 (\<lambda>_. Prints [''Tunnel '' @ quote (tc_Name tc) @ '' added and started.'']) s))"


section \<open>Starting the daemon\<close>

text \<open>
  \<^verbatim>\<open>cmdStart\<close> with \<open>args\<close> for \<^verbatim>\<open>os.Args\<close>. A process started in the background gets
  \<open>child_args\<close>; \<open>startErr\<close> is the error of starting it.
\<close>

datatype start_outcome = StartFatal error | Backgrounded "string list" | Foreground Config

definition wants_background :: "string list \<Rightarrow> bool" where
  "wants_background args \<longleftrightarrow> (\<exists>a\<in>set (drop 2 args). a = ''--background'' \<or> a = ''-background'')"

definition child_args :: "string list \<Rightarrow> string list" where
  "child_args args = [args ! 0, ''start'', ''--foreground''] @ drop 3 args"

definition cmdStart ::
  "(int \<Rightarrow> bool) \<Rightarrow> (string \<Rightarrow> Config res) \<Rightarrow> error option \<Rightarrow> os_env \<Rightarrow> string list \<Rightarrow> start_outcome" where
  "cmdStart kill unmarshal startErr os args =
     (if IsRunning kill os then StartFatal (Errorf ''tunneld is already running'')
      else case LoadConfig unmarshal os '''' of
        Inl e \<Rightarrow> StartFatal (Wrap ''load config'' e)
      | Inr cfg \<Rightarrow>
          if wants_background args
          then (case startErr of
                  Some e \<Rightarrow> StartFatal (Wrap ''fork'' e)
                | None \<Rightarrow> Backgrounded (child_args args))
          else Foreground cfg)"

text \<open>The settings of the whole process: \<^verbatim>\<open>applyGlobalConfig\<close> and \<^verbatim>\<open>initTLSPaths\<close>.\<close>

record globals =
  controlSocketOverride :: string
  DefaultIdentityDir :: string
  knownHosts :: "KnownHosts option"

definition initTLSPaths :: "os_env \<Rightarrow> globals \<Rightarrow> globals" where
  "initTLSPaths os g = g\<lparr>DefaultIdentityDir := filepath_Join [DefaultConfigDir os, ''identity''],
     knownHosts := (case LoadKnownHosts os (filepath_Join [DefaultConfigDir os, ''known_hosts'']) of
                      Inl _ \<Rightarrow> None | Inr kh \<Rightarrow> Some kh)\<rparr>"

definition applyGlobalConfig :: "(string \<Rightarrow> Config res) \<Rightarrow> os_env \<Rightarrow> globals \<Rightarrow> globals" where
  "applyGlobalConfig unmarshal os g =
     (case LoadConfig unmarshal os '''' of
        Inl _ \<Rightarrow> initTLSPaths os g
      | Inr cfg \<Rightarrow>
          initTLSPaths os (if ControlSocket (Global cfg) \<noteq> ''''
                           then g\<lparr>controlSocketOverride := ControlSocket (Global cfg)\<rparr> else g))"


section \<open>The systemd unit\<close>

text \<open>\<open>binPath\<close> is what \<^verbatim>\<open>exec.LookPath\<close> answers, \<open>user\<close> the variable \<^verbatim>\<open>USER\<close>; a unit is a list of lines.\<close>

definition GenerateSystemdUnit :: "string \<Rightarrow> string \<Rightarrow> os_env \<Rightarrow> string list" where
  "GenerateSystemdUnit binPath user os =
     (let bin = (if binPath = '''' then ''/usr/local/bin/tunnel'' else binPath);
          usr = (if user = '''' then ''root'' else user);
          configPath = filepath_Join [DefaultConfigDir os, ''config.yaml''] in
      [''[Unit]'', ''Description=Tunnel - port forwarding daemon'', ''After=network.target'', '''',
       ''[Service]'', ''Type=simple'', ''User='' @ usr, ''ExecStart='' @ bin @ '' start --foreground'',
       ''ExecReload=/bin/kill -HUP $MAINPID'', ''Restart=on-failure'', ''RestartSec=5'',
       ''Environment=TUNNEL_CONFIG='' @ configPath, '''',
       ''[Install]'', ''WantedBy=multi-user.target''])"

definition unlines :: "string list \<Rightarrow> string" where
  "unlines ls = concat (map (\<lambda>l. l @ [CHR 0x0A]) ls)"

definition WriteSystemdUnit :: "string list \<Rightarrow> string \<Rightarrow> os_env \<Rightarrow> error option \<times> os_env" where
  "WriteSystemdUnit unit path os = WriteFile os (if path = '''' then ''tunnel.service'' else path) (unlines unit)"

text \<open>\<open>home\<close> is what \<^verbatim>\<open>os.UserHomeDir\<close> answers: the variable \<^verbatim>\<open>HOME\<close>, or an error without one.\<close>

definition UserHomeDir :: "os_env \<Rightarrow> string res" where
  "UserHomeDir os = (if env_HOME os = '''' then Inl (Errorf ''$HOME is not defined'') else Inr (env_HOME os))"

definition WriteSystemdUnitUser :: "string list \<Rightarrow> string \<Rightarrow> os_env \<Rightarrow> error option \<times> os_env" where
  "WriteSystemdUnitUser unit path0 os =
     (let write = (\<lambda>path.
        (case os_mkdirErr os path of
           Some e \<Rightarrow> (Some (Wrap ''create systemd user dir'' e), os)
         | None \<Rightarrow> WriteSystemdUnit unit path os)) in
      if path0 = '''' then
        (case UserHomeDir os of
           Inl e \<Rightarrow> (Some (Wrap ''resolve home dir'' e), os)
         | Inr home \<Rightarrow> write (filepath_Join [home, ''.config'', ''systemd'', ''user'', ''tunnel.service'']))
      else write path0)"

definition SystemdInstallHint :: "string list" where
  "SystemdInstallHint =
     [''# Generate systemd unit:'',
      ''  tunnel init --systemd > /etc/systemd/system/tunnel.service'',
      ''  systemctl daemon-reload'',
      ''  systemctl enable --now tunnel'', '''',
      ''# Or for user mode:'',
      ''  mkdir -p ~/.config/systemd/user'',
      ''  tunnel init --systemd-user > ~/.config/systemd/user/tunnel.service'',
      ''  systemctl --user daemon-reload'',
      ''  systemctl --user enable --now tunnel'']"

definition cmdInit :: "string \<Rightarrow> string \<Rightarrow> string list \<Rightarrow> os_env \<Rightarrow> outcome \<times> os_env" where
  "cmdInit binPath user args os =
     (let kind = kinds [] [''systemd'', ''systemd-user'']; unit = GenerateSystemdUnit binPath user os in
      case parse_flags kind (check_value kind (\<lambda>_. Inr 0) {}) args of
        Inl e \<Rightarrow> (Fatal (err_text e), os)
      | Inr (vals, _) \<Rightarrow>
          if bool_flag False vals ''systemd'' then (Prints unit, os)
          else if bool_flag False vals ''systemd-user'' then
            (case WriteSystemdUnitUser unit '''' os of
               (Some e, os1) \<Rightarrow> (Fatal (''write user unit: '' @ err_text e), os1)
             | (None, os1) \<Rightarrow> (Prints [''Wrote tunnel.service to ~/.config/systemd/user/''], os1))
          else (Prints SystemdInstallHint, os))"


section \<open>Ad-hoc forwarding\<close>

text \<open>
  What each mode serves until a signal closes it; an error is \<^verbatim>\<open>log.Fatal\<close>. A client of an
  ad-hoc tunnel has no managed tunnel.
\<close>

definition runAdhocLocal ::
  "run_env \<Rightarrow> string \<Rightarrow> string \<Rightarrow> bool \<Rightarrow> string \<Rightarrow> string \<Rightarrow> bool \<Rightarrow> process \<Rightarrow> service res \<times> process" where
  "runAdhocLocal env spec protocol tls tlsCert tlsKey tlsVerify p =
     (if protocol = ''udp'' then
        (if tls then (Inl (Errorf ''TLS is not supported with UDP forwarding''), p)
         else case parseLocalSpec spec of
           Inl e \<Rightarrow> (Inl e, p)
         | Inr (listenAddr, dialAddr) \<Rightarrow>
             (wrap_err ''Failed to start UDP proxy'' UDPService
                (NewUDPProxy (re_resolveUDP env) (re_listenUDP env) listenAddr dialAddr), p))
      else case parseLocalSpec spec of
        Inl e \<Rightarrow> (Inl e, p)
      | Inr (listenAddr, dialAddr) \<Rightarrow>
          if tls then
            (case run_SetupTLS env tlsCert tlsKey tlsVerify p of
               (Inl e, p1) \<Rightarrow> (Inl (Wrap ''TLS setup'' e), p1)
             | (Inr tlsCfg, p1) \<Rightarrow>
                 (wrap_err ''Failed to start proxy'' TCPService (NewTLSProxy (re_tlsListen env) listenAddr dialAddr tlsCfg), p1))
          else (wrap_err ''Failed to start proxy'' TCPService (NewProxy (re_listen env) listenAddr dialAddr), p))"

definition runAdhocRemote ::
  "run_env \<Rightarrow> string \<Rightarrow> string \<Rightarrow> string \<Rightarrow> bool \<Rightarrow> string \<Rightarrow> string \<Rightarrow> bool \<Rightarrow> bool \<Rightarrow> string \<Rightarrow> process
     \<Rightarrow> service res \<times> process" where
  "runAdhocRemote env remoteSpec serverAddr token tls tlsCert tlsKey tlsVerify trustOnFirstUse serverFingerprint p =
     (case parseRemoteSpec remoteSpec of
        Inl e \<Rightarrow> (Inl e, p)
      | Inr (bind, remotePort, targetAddr) \<Rightarrow>
          let tunnels = [\<lparr>RemotePort = remotePort, BindAddr = bind, TargetAddr = targetAddr\<rparr>];
              client = (\<lambda>tlsCfg. OneClient (NewRemoteClient serverAddr token tlsCfg tunnels) None) in
          if tls then
            (case run_SetupTLS env tlsCert tlsKey tlsVerify p of
               (Inl e, p1) \<Rightarrow> (Inl (Wrap ''TLS setup'' e), p1)
             | (Inr tlsCfg, p1) \<Rightarrow>
                 (Inr (client (Some (tlsCfg\<lparr>tls_TrustOnFirstUse := trustOnFirstUse,
                                            tls_ServerFingerprint := serverFingerprint\<rparr>))), p1))
          else (Inr (client None), p))"

definition runAdhocRemoteServer ::
  "run_env \<Rightarrow> string \<Rightarrow> string \<Rightarrow> bool \<Rightarrow> string \<Rightarrow> string \<Rightarrow> bool \<Rightarrow> process \<Rightarrow> service res \<times> process" where
  "runAdhocRemoteServer env serverAddr token tls tlsCert tlsKey tlsVerify p =
     (let listen = re_listen env serverAddr in
      if tls then
        (case run_SetupTLS env tlsCert tlsKey tlsVerify p of
           (Inl e, p1) \<Rightarrow> (Inl (Wrap ''TLS setup'' e), p1)
         | (Inr tlsCfg, p1) \<Rightarrow>
             (let lnErr = (if tls_Enabled tlsCfg
                           then (case TLSListener (re_tlsListen env) serverAddr tlsCfg of Inl e \<Rightarrow> Some e | Inr _ \<Rightarrow> None)
                           else listen) in
              (wrap_err ''Failed to start remote server'' ServerService (NewRemoteServer lnErr token (tls_Enabled tlsCfg)), p1)))
      else (wrap_err ''Failed to start remote server'' ServerService (NewRemoteServer listen token False), p))"

definition runAdhocDynamic :: "run_env \<Rightarrow> string \<Rightarrow> string \<Rightarrow> string \<Rightarrow> service res" where
  "runAdhocDynamic env portSpec user pass =
     (if portSpec = '''' then Inl (Errorf ''dynamic port cannot be empty'')
      else wrap_err ''Failed to start SOCKS proxy'' SocksService
             (NewSocksProxyWithAuth (re_listen env) (normalizeListenAddr portSpec) user pass))"

text \<open>The last switch of \<^verbatim>\<open>main\<close>; \<open>None\<close> is the usage text. The flags are the ones of \<^verbatim>\<open>tunnel add\<close>.\<close>

definition main_adhoc :: "run_env \<Rightarrow> addParams \<Rightarrow> process \<Rightarrow> (service res \<times> process) option" where
  "main_adhoc env f p =
     (if ap_local f \<noteq> '''' then
        Some (runAdhocLocal env (ap_local f) (ap_protocol f) (ap_tls f) (ap_tlsCert f) (ap_tlsKey f) (ap_tlsVerify f) p)
      else if ap_dynamic f \<noteq> '''' then
        Some (runAdhocDynamic env (ap_dynamic f) (ap_socksUser f) (ap_socksPass f), p)
      else if ap_remote f \<noteq> '''' \<and> ap_server f \<noteq> '''' then
        Some (runAdhocRemote env (ap_remote f) (ap_server f) (ap_token f) (ap_tls f) (ap_tlsCert f) (ap_tlsKey f)
          (ap_tlsVerify f) (ap_tlsTrustOnFirstUse f) (ap_tlsServerFingerprint f) p)
      else if ap_remote f = '''' \<and> ap_server f \<noteq> '''' then
        Some (runAdhocRemoteServer env (ap_server f) (ap_token f) (ap_tls f) (ap_tlsCert f) (ap_tlsKey f) (ap_tlsVerify f) p)
      else None)"

datatype command =
    Usage | Start | Stop | List | Add | Remove | Enable | Disable | Restart | Save | Status | Logs | Init | Reload
  | StartGroup | StopGroup | Adhoc "string list"

definition main_switch :: "string list \<Rightarrow> command" where
  "main_switch args =
     (if length args < 2 then Usage
      else
        let a = args ! 1 in
        if a = ''start'' then Start else if a = ''stop'' then Stop
        else if a = ''ls'' \<or> a = ''list'' then List else if a = ''add'' then Add
        else if a = ''rm'' \<or> a = ''remove'' then Remove else if a = ''enable'' then Enable
        else if a = ''disable'' then Disable else if a = ''restart'' then Restart
        else if a = ''save'' then Save else if a = ''status'' then Status else if a = ''logs'' then Logs
        else if a = ''init'' then Init else if a = ''reload'' then Reload
        else if a = ''start-group'' then StartGroup else if a = ''stop-group'' then StopGroup
        else Adhoc (drop 1 args))"

text \<open>The flags of the ad-hoc modes, and the whole of an ad-hoc run.\<close>

definition main_kinds :: "string \<Rightarrow> bool option" where
  "main_kinds = kinds
     [''L'', ''R'', ''D'', ''s'', ''token'', ''tls-cert'', ''tls-key'', ''server-fingerprint'', ''socks-user'', ''socks-pass'']
     [''tls'', ''tls-verify'', ''trust-on-first-use'', ''udp'']"

definition run_main :: "run_env \<Rightarrow> string list \<Rightarrow> process \<Rightarrow> (service res \<times> process) option res" where
  "run_main env args p =
     (case parse_flags main_kinds (check_value main_kinds (\<lambda>_. Inr 0) {}) args of
        Inl e \<Rightarrow> Inl e
      | Inr (vals, _) \<Rightarrow> Inr (main_adhoc env (add_params vals) p))"


section \<open>Properties\<close>

text \<open>What a tunnel serves, without the pointer to its managed tunnel and without the error's text.\<close>

fun served :: "service res \<Rightarrow> service option" where
  "served (Inl _) = None"
| "served (Inr (OneClient rc _)) = Some (OneClient rc None)"
| "served (Inr svc) = Some svc"

lemma served_wrap: "served (wrap_err msg f r) = served (wrap_err msg' f r)"
  by (cases r) (simp_all add: wrap_err_def)

lemma local_as_adhoc:
  assumes "buildTunnelConfig a = Inr tc" and "ap_local a \<noteq> ''''" and "\<not> ap_tls a"
  shows "select_runFn tc = Inr RunLocal
     \<and> served (fst (runLocal env tc p))
       = served (fst (runAdhocLocal env (ap_local a) (ap_protocol a) (ap_tls a) (ap_tlsCert a) (ap_tlsKey a) (ap_tlsVerify a) p))"
proof -
  obtain listen target where spec: "parseLocalSpec (ap_local a) = Inr (listen, target)"
    using assms(1,2) by (auto simp: buildTunnelConfig_def Let_def split: sum.splits)
  have tc: "tc_Mode tc = ''local''" "tc_Hops tc = []" "tc_Local tc = listen" "tc_Remote tc = target" "tc_Protocol tc = ap_protocol a"
    "\<not> tc_TLS tc"
    using assms(1,2) spec by (auto simp: buildTunnelConfig_def Let_def zero_TunnelConfig_def)
  show ?thesis using assms(3) spec tc
    by (simp add: select_runFn_def runLocal_def runAdhocLocal_def
        served_wrap [of "''udp proxy failed''" _ _ "''Failed to start UDP proxy''"]
        served_wrap [of "''proxy failed''" _ _ "''Failed to start proxy''"])
qed

lemma dynamic_as_adhoc:
  assumes "buildTunnelConfig a = Inr tc" and "ap_local a = ''''" and "ap_remote a = ''''"
  shows "select_runFn tc = Inr RunDynamic
     \<and> served (runDynamic env tc) = served (runAdhocDynamic env (ap_dynamic a) (ap_socksUser a) (ap_socksPass a))"
proof -
  have d: "ap_dynamic a \<noteq> ''''" using assms by (auto simp: buildTunnelConfig_def Let_def split: if_splits)
  have tc: "tc_Mode tc = ''dynamic''" "tc_Local tc = normalizeListenAddr (ap_dynamic a)" "tc_SocksUser tc = ap_socksUser a"
    "tc_SocksPass tc = ap_socksPass a"
    using assms d by (auto simp: buildTunnelConfig_def Let_def zero_TunnelConfig_def)
  show ?thesis using d tc
    by (simp add: select_runFn_def runDynamic_def runAdhocDynamic_def NewSocksProxy_def
        served_wrap [of "''socks proxy failed''" _ _ "''Failed to start SOCKS proxy''"])
qed

lemma remote_as_adhoc:
  assumes "buildTunnelConfig a = Inr tc" and "ap_local a = ''''" and "ap_remote a \<noteq> ''''"
  shows "select_runFn tc = Inr RunRemoteClient
     \<and> served (fst (runRemoteClient env tc m p))
       = served (fst (runAdhocRemote env (ap_remote a) (ap_server a) (ap_token a) (ap_tls a) (ap_tlsCert a) (ap_tlsKey a)
           (ap_tlsVerify a) (ap_tlsTrustOnFirstUse a) (ap_tlsServerFingerprint a) p))"
proof -
  have s: "ap_server a \<noteq> ''''" using assms by (auto simp: buildTunnelConfig_def Let_def split: if_splits)
  have tc: "tc_Mode tc = ''remote''" "tc_Connections tc = 0" "tc_Server tc = ap_server a" "tc_Remote tc = ap_remote a"
    "tc_Token tc = ap_token a" "tc_TLS tc = ap_tls a" "tc_TLSCert tc = ap_tlsCert a" "tc_TLSKey tc = ap_tlsKey a"
    "tc_TLSVerify tc = ap_tlsVerify a" "tc_TLSTrustOnFirstUse tc = ap_tlsTrustOnFirstUse a"
    "tc_TLSServerFingerprint tc = ap_tlsServerFingerprint a"
    using assms s by (auto simp: buildTunnelConfig_def Let_def zero_TunnelConfig_def)
  show ?thesis
  proof (cases "parseRemoteSpec (ap_remote a)")
    case (Inl e)
    have "\<exists>e'. mgr_parseRemoteSpec (ap_remote a) = Inl e'"
      using remote_spec_parsers_agree [of "ap_remote a"] Inl by (cases "mgr_parseRemoteSpec (ap_remote a)") auto
    then show ?thesis using Inl tc s
      by (auto simp: select_runFn_def runRemoteClient_def runAdhocRemote_def client_tls_def client_tunnel_def wrap_err_def
          split: sum.splits prod.splits)
  next
    case (Inr r)
    then have "mgr_parseRemoteSpec (ap_remote a) = Inr r" using remote_spec_parsers_agree by blast
    then show ?thesis using Inr tc s
      by (auto simp: select_runFn_def runRemoteClient_def runAdhocRemote_def client_tls_def client_tunnel_def wrap_err_def Let_def
          split: sum.splits prod.splits)
  qed
qed


text \<open>
  The commands as a user runs them: over the control socket to the daemon. A daemon that
  panics closes the connection without an answer.
\<close>

definition daemon_send ::
  "control_codec \<Rightarrow> json_api \<Rightarrow> (string \<Rightarrow> int res) \<Rightarrow> (Config \<Rightarrow> string res) \<Rightarrow> (string \<Rightarrow> Config res) \<Rightarrow> LogBuffer
     \<Rightarrow> daemon sender" where
  "daemon_send cd js pd marshal unmarshal lb meth params d =
     (case SendControl cd None None (handleControlConn cd (daemon_handler js pd marshal unmarshal lb)) meth params d of
        None \<Rightarrow> (Inl (Wrap ''read response'' EOF), d)
      | Some r \<Rightarrow> r)"

lemma Remove_success:
  assumes "mgr_wf m" and "mgr_Remove marshal name m = Some (None, m')"
  shows "name \<in> set (cfg_names m) \<and> cfg_names m' = remove1 name (cfg_names m) \<and> map_of (m_tunnels m') name = None"
proof -
  obtain m1 where m1: "stop_if_running name m = Some m1" "same_rest m m1" "m_tunnels m1 = filter (\<lambda>e. fst e \<noteq> name) (m_tunnels m)"
    using stop_if_running_ok [OF assms(1)] by blast
  define k where "k = nat (findConfig name m1)"
  let ?ts = "Tunnels (m_cfg m1)"
  have found: "\<not> findConfig name m1 < 0" and sv: "save_cfg marshal (set_tunnels (take k ?ts @ drop (k + 1) ?ts) m1) = (None, m')"
    using assms(2) m1(1) by (auto simp: mgr_Remove_def Let_def k_def split: if_splits)
  have cfg: "m_cfg m1 = m_cfg m" using m1(2) by (simp add: same_rest_def)
  have k: "k < length ?ts" "tc_Name (?ts ! k) = name" "name \<notin> set (map tc_Name (take k ?ts))"
    using findConfig_nth [OF found] by (simp_all add: k_def)
  have "map tc_Name ?ts = map tc_Name (take k ?ts) @ name # map tc_Name (drop (k + 1) ?ts)"
    using k(1,2) by (metis Suc_eq_plus1 id_take_nth_drop list.simps(9) map_append)
  then have "cfg_names m = map tc_Name (take k ?ts) @ name # map tc_Name (drop (k + 1) ?ts)" by (simp add: cfg_names_def cfg)
  moreover have "cfg_names m' = map tc_Name (take k ?ts) @ map tc_Name (drop (k + 1) ?ts)" "m_tunnels m' = m_tunnels m1"
    using save_cfg_keeps [OF sv] by (simp_all add: cfg_names_def)
  ultimately show ?thesis using k(3) m1(3) by (auto simp: remove1_append map_of_eq_None_iff)
qed

lemma daemon_mgr_wf: "daemon_reachable d \<Longrightarrow> mgr_wf (d_m (dm_sys d))"
  using dmn.reachable_inv [of d] tun.reachable_inv [of "dm_sys d"] by (simp add: daemon_ok_def system_ok_def)


text \<open>
  \<^verbatim>\<open>tunnel start --background\<close> starts one daemon: the process it starts gets the same
  arguments with \<^verbatim>\<open>--foreground\<close> in its place, and runs the daemon itself, with the
  configuration the parent has checked.
\<close>

theorem background_start:
  assumes "cmdStart kill unmarshal startErr os (prog # ''start'' # ''--background'' # rest) = Backgrounded child"
    and "''--background'' \<notin> set rest" and "''-background'' \<notin> set rest"
  shows "child = prog # ''start'' # ''--foreground'' # rest
     \<and> (\<exists>cfg. LoadConfig unmarshal os '''' = Inr cfg \<and> cmdStart kill unmarshal startErr' os child = Foreground cfg)"
proof -
  let ?args = "prog # ''start'' # ''--background'' # rest"
  have c: "child_args ?args = prog # ''start'' # ''--foreground'' # rest" by (simp add: child_args_def)
  obtain cfg where "\<not> IsRunning kill os" "LoadConfig unmarshal os '''' = Inr cfg" "child = prog # ''start'' # ''--foreground'' # rest"
    using assms(1) c by (auto simp: cmdStart_def split: if_split_asm sum.split_asm option.split_asm)
  moreover have "\<not> wants_background (prog # ''start'' # ''--foreground'' # rest)"
    using assms(2,3) by (auto simp: wants_background_def)
  ultimately show ?thesis by (simp add: cmdStart_def)
qed

text \<open>
  With the flag in second place the program forks without end: the child gets
  arguments that put it into the background again, although \<^verbatim>\<open>--foreground\<close> was meant to
  prevent that.
\<close>

theorem background_forks_forever:
  assumes "cmdStart kill unmarshal startErr os (prog # ''start'' # ''--foreground'' # rest) = Backgrounded child"
  shows "child = prog # ''start'' # ''--foreground'' # rest
     \<and> cmdStart kill unmarshal None os child = Backgrounded child"
proof -
  let ?args = "prog # ''start'' # ''--foreground'' # rest"
  have c: "child_args ?args = ?args" by (simp add: child_args_def)
  obtain cfg where "\<not> IsRunning kill os" "LoadConfig unmarshal os '''' = Inr cfg" "wants_background ?args" "child = ?args"
    using assms c by (auto simp: cmdStart_def simp del: drop_Suc_Cons split: if_split_asm sum.split_asm option.split_asm)
  then show ?thesis using c by (simp add: cmdStart_def)
qed

text \<open>
  \<^verbatim>\<open>tunnel logs <name> --lines N\<close>, the form the usage text gives, ignores the number of
  lines: parsing stops at the name.
\<close>

theorem logs_ignores_lines:
  assumes "name \<noteq> ''''" and "hd name \<noteq> CHR ''-''"
  shows "cmdLogs cj parseInt send (name # rest) = cmdLogs cj parseInt send [name]"
  using assms by (auto simp: cmdLogs_def Let_def)

text \<open>
  \<^verbatim>\<open>tunnel init --systemd-user\<close> writes the unit itself and prints a message; the
  installation hint redirects that output over the unit.
\<close>

theorem systemd_user_prints_no_unit:
  "fst (cmdInit binPath user [''--systemd-user''] os) \<noteq> Prints (GenerateSystemdUnit binPath user os)"
proof -
  let ?kind = "kinds [] [''systemd'', ''systemd-user'']"
  have flags: "parse_flags ?kind (check_value ?kind (\<lambda>_. Inr 0) {}) [''--systemd-user''] = Inr ([(''systemd-user'', ''true'')], [])"
    by (simp add: kinds_def split_eq_def assign_def check_value_def ParseBool_def)
  have "length (GenerateSystemdUnit binPath user os) = 15" by (simp add: GenerateSystemdUnit_def Let_def)
  then have "Prints [x] \<noteq> Prints (GenerateSystemdUnit binPath user os)" for x
    by (cases "GenerateSystemdUnit binPath user os") auto
  moreover obtain e os1 where "WriteSystemdUnitUser (GenerateSystemdUnit binPath user os) '''' os = (e, os1)" by fastforce
  ultimately show ?thesis unfolding cmdInit_def Let_def flags by (cases e) (simp_all add: bool_flag_def ParseBool_def)
qed

text \<open>
  A daemon started by the unit reads and saves the same file: the variable the unit
  sets is the default path.
\<close>

theorem unit_config_saved:
  assumes "env_TUNNEL_CONFIG os = filepath_Join [DefaultConfigDir os, ''config.yaml'']"
    and "SaveConfig marshal os cfg '''' = (None, os')" and "marshal cfg = Inr data" and "unmarshal data = Inr cfg"
    and "os_readErr os (env_TUNNEL_CONFIG os) = None"
  shows "''Environment=TUNNEL_CONFIG='' @ env_TUNNEL_CONFIG os \<in> set (GenerateSystemdUnit binPath user os)
     \<and> LoadConfig unmarshal os' '''' = Inr cfg"
proof -
  let ?path = "env_TUNNEL_CONFIG os"
  have ne: "?path \<noteq> ''''" by (simp add: assms(1) filepath_Join_def)
  have "os' = os\<lparr>os_files := (os_files os)(?path \<mapsto> data)\<rparr>"
    using assms(2,3) by (auto simp: SaveConfig_def WriteFile_def Let_def assms(1) split: option.splits)
  then have "LoadConfig unmarshal os' '''' = Inr cfg" using assms(4,5) ne by (simp add: LoadConfig_def Let_def)
  then show ?thesis using assms(1) by (simp add: GenerateSystemdUnit_def Let_def)
qed

text \<open>Concrete runs.\<close>

definition demo_cj :: cli_json where
  "demo_cj = \<lparr>cj_name = id, cj_group = id, cj_tunnel = tc_Name, cj_logs = (\<lambda>n _. n), cj_statuses = (\<lambda>_. Inr []),
     cj_status = (\<lambda>_. Inl EOF), cj_lines = (\<lambda>_. Inr [])\<rparr>"



lemma demo_start:
  "cmdStart (\<lambda>_. True) demo_unmarshal None demo_os [''tunnel'', ''start'', ''--background'']
     = Backgrounded [''tunnel'', ''start'', ''--foreground'']"
  "cmdStart (\<lambda>_. True) demo_unmarshal None demo_os [''tunnel'', ''start'', ''--foreground'', ''--background'']
     = Backgrounded [''tunnel'', ''start'', ''--foreground'', ''--background'']"
  by (simp_all add: cmdStart_def IsRunning_def ReadPidfile_def ReadFile_def demo_os_def LoadConfig_def Let_def
      wants_background_def child_args_def)

theorem background_start_witness:
  "\<exists>cfg. cmdStart (\<lambda>_. True) demo_unmarshal None demo_os [''tunnel'', ''start'', ''--foreground''] = Foreground cfg"
  using background_start [OF demo_start(1), of None] by auto

theorem background_forks_forever_witness:
  "cmdStart (\<lambda>_. True) demo_unmarshal None demo_os [''tunnel'', ''start'', ''--foreground'', ''--background'']
     = Backgrounded [''tunnel'', ''start'', ''--foreground'', ''--background'']"
  using background_forks_forever [OF demo_start(2)] by simp

end
