(* ===== verification/Spec2Isabelle.thy ===== *)
theory Spec2Isabelle
  imports Path_Release Manager_Spec Log_Capture Stop_Time Cli
begin

text \<open>
  A verification of \<^verbatim>\<open>tunnel\<close>, a port forwarding tool: local TCP and UDP forwarding, a
  SOCKS5 proxy, remote forwarding over one multiplexed control connection, and a
  daemon that manages tunnels described in a configuration file.

  \<^bold>\<open>The program and its model.\<close> The bottom layer is \<^verbatim>\<open>relay/\<close>. A remote client
  (\<^verbatim>\<open>remoteclient.go\<close>) dials a remote server (\<^verbatim>\<open>remoteserver.go\<close>), the two authenticate
  with a token (\<^verbatim>\<open>auth.go\<close>), the client registers ports, and from then on the server
  opens a channel (\<^verbatim>\<open>ctrlconn.go\<close>, \<^verbatim>\<open>stream.go\<close>) over the control connection for every
  public connection it accepts; both ends relay (\<^verbatim>\<open>relay.go\<close>) between a TCP connection
  and the channel. Local tunnels need no server: a proxy listens, dials and relays.
  TLS may wrap either (\<^verbatim>\<open>tls.go\<close>, \<^verbatim>\<open>identity.go\<close>, \<^verbatim>\<open>knownhosts.go\<close>). Above it \<^verbatim>\<open>manager/\<close>
  keeps a table of running tunnels, each a goroutine that runs one of these services,
  and answers requests from a control socket; \<^verbatim>\<open>main.go\<close> is the command line, the
  daemon process and the ad-hoc modes.

  Data is modelled as the code has it: structs as records with the fields of the
  source, integers of fixed width as words where they can wrap (frame lengths, channel
  ids, targets' lengths), counters and times as \<open>int\<close>, Go maps as association lists
  or maps, with the order of enumeration a parameter where it shows. Objects that are
  shared by pointer (channels, control connections, shared listeners, managed
  tunnels, UDP sessions) live in stores and are named by index, since goroutines keep
  using them after a table has forgotten them. An error is a value of the type
  \<open>error\<close>; a result is a sum; a run-time panic is a value of its own, and so is a call
  that blocks. A critical section is one definition; goroutines interleave as steps
  of an inductive relation.

  \<^bold>\<open>Theories.\<close>

  \<^item> \<open>Tunnel_Prelude\<close>: bytes, errors, big-endian integers; \<open>invariant_system\<close>, the
    locale of every step relation with its invariant rule, and \<open>stream_codec\<close>, the
    contract of a self-delimiting codec, which the frames and the registration both
    interpret. \<open>Net_Conn\<close>: a connection with what its peer sent, how its input ends
    and when a write fails. \<open>Net_Addr\<close>: decimal numbers, \<^verbatim>\<open>net.JoinHostPort\<close> and
    \<^verbatim>\<open>net.SplitHostPort\<close>.
  \<^item> \<open>Ctrl_Frame\<close> (\<^verbatim>\<open>relay/ctrlframe.go\<close>): \<open>ReadFrame\<close>, \<open>WriteFrame\<close>; a frame written is
    read back whatever follows, a truncated one is refused.
  \<^item> \<open>Handshake\<close> (\<^verbatim>\<open>relay/auth.go\<close> and the registration in \<^verbatim>\<open>ctrlconn.go\<close>): both ends come to the same
    verdict, registered tunnels survive the codec.
  \<^item> \<open>Mux_Channel\<close> (\<^verbatim>\<open>relay/stream.go\<close>) and \<open>Ctrl_Conn\<close> (\<^verbatim>\<open>relay/ctrlconn.go\<close>): channels with
    flow control, the read loop and its dispatch of frames, opening, accepting,
    keep-alive, closing. The one panic of the dispatch is characterised.
  \<^item> \<open>Mux_End\<close>, \<open>Mux_Link\<close>: one end with the effect of every step, and two ends run
    against each other. Channels are FIFO and lose nothing, buffers stay within a
    window, credit is never lost, no frame of a real peer makes the read loop panic.
  \<^item> \<open>Relay_Copy\<close> (\<^verbatim>\<open>relay/relay.go\<close>): the two copying goroutines; delivery and
    termination under every schedule. \<open>Relay_Side\<close>, \<open>Remote_Path\<close>: the relays of server
    and client around the link, any number of channels at once. What arrives at either
    end of a forwarded connection is what was sent at the other. \<open>Path_Release\<close>: a
    multiplexer holds a channel exactly as long as it is in use.
  \<^item> \<open>Remote_Server\<close> (\<^verbatim>\<open>relay/remoteserver.go\<close>): admission, shared listeners, dispatch,
    closing. A shared listener refines a rotating queue (locale \<open>scheduler\<close>), which
    gives fairness. \<open>Backoff\<close> (\<^verbatim>\<open>relay/reconnect.go\<close>) and \<open>Remote_Client\<close>
    (\<^verbatim>\<open>relay/remoteclient.go\<close>): the reconnect loop over a program counter.
  \<^item> \<open>Identity\<close> (\<^verbatim>\<open>relay/identity.go\<close>), \<open>Known_Hosts\<close> (\<^verbatim>\<open>relay/knownhosts.go\<close>, \<^verbatim>\<open>relay/tls.go\<close>): the
    key that is kept and the certificate that is renewed; trust on first use (locale
    \<open>trust_store\<close>).
  \<^item> \<open>Proxies\<close> (\<^verbatim>\<open>relay/tcpproxy.go\<close>, \<^verbatim>\<open>chainproxy.go\<close>, \<^verbatim>\<open>healthcheck.go\<close>), \<open>Socks5\<close>
    (\<^verbatim>\<open>relay/socks5.go\<close>, \<^verbatim>\<open>socks5proxy.go\<close>), \<open>Udp_Proxy\<close> (\<^verbatim>\<open>relay/udpproxy.go\<close>): the listeners
    of local tunnels, the SOCKS handshake in both directions, and the routing of
    packets. \<open>proxy_counters\<close> is the accounting the two TCP listeners share.
  \<^item> \<open>Config_File\<close> (\<^verbatim>\<open>manager/config.go\<close>), \<open>Forward_Spec\<close> (the parsers of \<^verbatim>\<open>main.go\<close> and
    \<^verbatim>\<open>manager.go\<close>): the exact language of forwarding specifications.
  \<^item> \<open>Log_Buffer\<close>, \<open>Log_Capture\<close> (\<^verbatim>\<open>manager/logging.go\<close>): the ring buffer refines a
    bounded history, and what the standard logger writes reaches it, as long as the
    log's own destination accepts it.
  \<^item> \<open>Tunnel_Manager\<close> (\<^verbatim>\<open>manager/manager.go\<close>): the table and every request.
    \<open>Manager_Spec\<close> gives its meaning on an abstract book of configured and running
    tunnels and shows the refinement (locale \<open>simulation\<close>). \<open>Tunnel_Run\<close>: the run functions
    and the life of each tunnel's goroutine; the status reported is true.
    \<open>Stop_Time\<close>: how long a stop holds the manager's lock.
  \<^item> \<open>Daemon\<close> (\<^verbatim>\<open>manager/daemon.go\<close>, \<^verbatim>\<open>manager/control.go\<close>, \<^verbatim>\<open>runDaemon\<close>): pid file, control
    socket, the process as a step relation and its end. \<open>Cli\<close> (\<^verbatim>\<open>main.go\<close>,
    \<^verbatim>\<open>manager/systemd.go\<close>): flags, commands, ad-hoc modes, the systemd unit.
  \<^item> This theory: the two properties that join a client, a server and their identities.

  \<^bold>\<open>Loops and bounds.\<close> A loop over a list is structural; \<open>write_loop\<close> and \<open>reverse_loop\<close>
  have a measure; a loop that blocks or runs as long as the process lives is a step
  relation with one definition per turn (\<open>readLoop_turn\<close>, \<open>write_turn\<close>, \<open>copy_turn\<close>,
  \<open>Serve_turn\<close>). Only \<open>listenTunnel_loop\<close> has fuel, since it ends by the clock: 32 is
  enough (\<open>listenTunnel_bounded\<close>), because 32 attempts with a wait of 100 ms after
  each exceed its limit of three seconds. \<open>relay_terminates\<close> bounds the turns of a relay
  under every schedule.

  \<^bold>\<open>Assumptions.\<close> Code outside the repository is a parameter: JSON, YAML, TLS, X.509,
  ECDSA, PEM and SHA-256, \<^verbatim>\<open>time.ParseDuration\<close>, \<^verbatim>\<open>strconv.ParseInt\<close> with a base prefix,
  random numbers, floating-point rounding, the answers of the network and of the
  operating system. What a property needs of one is a hypothesis (\<open>pkgs_ok\<close>,
  \<open>rand_ok\<close>, \<open>disk_ok\<close>) that a witness discharges for a concrete function. The link of
  \<open>Mux_Link\<close> and \<open>Remote_Path\<close> is a reliable transport between two ends that run this code,
  until it ends; the channel id counter has not wrapped onto a channel still known, and
  targets are shorter than 65530 bytes, the length beyond which the dispatch panics
  (\<open>new_channel_panics_iff\<close>). The end of \<^verbatim>\<open>runDaemon\<close>, from the signal to its
  return, is one step.

  \<^bold>\<open>Not modelled.\<close> The usage text and the padding of the columns of \<^verbatim>\<open>tunnel ls\<close>: they are
  output only. The buffer pool, mutexes and wait groups: they have no state beyond the
  steps they order. The accessors that return a field (\<^verbatim>\<open>Addr\<close>, \<^verbatim>\<open>Done\<close>, \<^verbatim>\<open>Path\<close>,
  \<^verbatim>\<open>Stats\<close>, \<^verbatim>\<open>LastActivity\<close>, \<^verbatim>\<open>ReconnectCount\<close>): the field of the record stands for them. The
  address and deadline methods of a channel, which return nil. The variable that holds
  the read timeout of the control socket, which only tests change; a timeout is the
  error a read may answer. Nothing else of the Go code is left out.
\<close>

section \<open>A client meets a server\<close>

definition auth_reply :: "string \<Rightarrow> bytes" where
  "auth_reply token = (if token = '''' then [] else enc_frame \<lparr>Typ = FrameAuthResponse, Payload = [1]\<rparr>)"

definition auth_request :: "string \<Rightarrow> bytes" where
  "auth_request token =
     (if token = '''' then [] else enc_frame \<lparr>Typ = FrameAuthRequest, Payload = auth_payload token\<rparr>)"

lemma AuthClient_accepted:
  assumes "length token < 65536"
  shows "AuthClient (new_conn (enc_frame \<lparr>Typ = FrameAuthResponse, Payload = [1]\<rparr> @ rest)) token
     = (None, new_conn rest\<lparr>out := enc_frame \<lparr>Typ = FrameAuthRequest, Payload = auth_payload token\<rparr>\<rparr>)"
proof -
  let ?r = "\<lparr>Typ = FrameAuthResponse, Payload = [1]\<rparr>"
  let ?c = "new_conn (enc_frame ?r @ rest)\<lparr>out := enc_frame \<lparr>Typ = FrameAuthRequest, Payload = auth_payload token\<rparr>\<rparr>"
  have wr: "WriteFrame (new_conn (enc_frame ?r @ rest)) FrameAuthRequest (auth_payload token) = (None, ?c)"
    using assms by (subst WriteFrame_writable) (simp_all add: auth_payload_def maxFramePayload_def)
  have rd: "ReadFrame ?c = (Inr ?r, ?c\<lparr>inp := rest\<rparr>)"
    by (rule ReadFrame_written) (simp_all add: new_conn_def maxFramePayload_def)
  have "be_put16 (word_of_nat (length (bytes_of_string token))) @ bytes_of_string token = auth_payload token"
    by (simp add: auth_payload_def)
  then show ?thesis by (simp add: AuthClient_def Let_def wr rd)
qed

lemma AuthServer_accepts:
  assumes "length token < 65536"
  shows "AuthServer (new_conn (enc_frame \<lparr>Typ = FrameAuthRequest, Payload = auth_payload token\<rparr> @ rest)) token
     = (None, new_conn rest\<lparr>out := enc_frame \<lparr>Typ = FrameAuthResponse, Payload = [1]\<rparr>\<rparr>)"
proof -
  let ?f = "\<lparr>Typ = FrameAuthRequest, Payload = auth_payload token\<rparr>"
  have rd: "ReadFrame (new_conn (enc_frame ?f @ rest)) = (Inr ?f, new_conn rest)"
    using assms by (subst ReadFrame_written [where rest = rest]) (simp_all add: auth_payload_def maxFramePayload_def)
  have wr: "WriteFrame (new_conn rest) FrameAuthResponse [1]
      = (None, new_conn rest\<lparr>out := enc_frame \<lparr>Typ = FrameAuthResponse, Payload = [1]\<rparr>\<rparr>)"
    by (subst WriteFrame_writable) (simp_all add: maxFramePayload_def)
  have len: "unat (word_of_nat (length token) :: u16) = length token" "length (auth_payload token) = 2 + length token"
    using unat_word_of_length16 [OF assms] by (simp_all add: auth_payload_def)
  show ?thesis unfolding AuthServer_def rd by (simp add: Let_def wr boolToByte_def len)
qed

text \<open>What each side does on its own end of the connection, with or without a token.\<close>

lemma client_side:
  assumes "length (rc_token rc) < 65536" and "length (packTunnels (rc_tunnels rc)) \<le> maxFramePayload"
  shows "connect_handshake rc (new_conn (auth_reply (rc_token rc))) = Inr (new_conn []
     \<lparr>out := auth_request (rc_token rc) @ enc_frame \<lparr>Typ = FrameRegister, Payload = packTunnels (rc_tunnels rc)\<rparr>\<rparr>)"
  using AuthClient_accepted [OF assms(1), of "[]"] assms(2)
  by (cases "rc_token rc = ''''")
     (simp_all add: connect_handshake_def auth_reply_def auth_request_def RegisterClient_def WriteFrame_writable)

lemma server_side:
  assumes "length (rs_token rs) < 65536" and "length (packTunnels ts) \<le> maxFramePayload"
    and "list_all tunnel_ok ts" and "length ts < 65536" and "\<not> rs_closed rs"
  shows "handleClient rs (new_conn (auth_request (rs_token rs)
         @ enc_frame \<lparr>Typ = FrameRegister, Payload = packTunnels ts\<rparr>)) now
     = (Serving (length (rs_ccs rs)) ts,
        rs\<lparr>rs_ccs := rs_ccs rs @ [NewCtrlConn (new_conn []\<lparr>out := auth_reply (rs_token rs)\<rparr>) now],
           rs_conns := List.insert (length (rs_ccs rs)) (rs_conns rs)\<rparr>)"
proof -
  let ?reg = "enc_frame \<lparr>Typ = FrameRegister, Payload = packTunnels ts\<rparr>"
  have "ReadFrame (new_conn ?reg\<lparr>out := w\<rparr>)
      = (Inr \<lparr>Typ = FrameRegister, Payload = packTunnels ts\<rparr>, new_conn []\<lparr>out := w\<rparr>)" for w
    using assms(2) by (subst ReadFrame_written [where rest = "[]"]) (simp_all add: new_conn_def)
  then have "RegisterServer (new_conn ?reg\<lparr>out := w\<rparr>) = (Inr ts, new_conn []\<lparr>out := w\<rparr>)" for w
    using unpack_packTunnels [OF assms(3,4)] by (simp add: RegisterServer_def)
  then have reg: "handleClient_register rs (new_conn ?reg\<lparr>out := w\<rparr>) now
      = (Serving (length (rs_ccs rs)) ts, rs\<lparr>rs_ccs := rs_ccs rs @ [NewCtrlConn (new_conn []\<lparr>out := w\<rparr>) now],
          rs_conns := List.insert (length (rs_ccs rs)) (rs_conns rs)\<rparr>)" for w
    using assms(5) by (simp add: handleClient_register_def trackConn_def Let_def)
  have none: "new_conn x\<lparr>out := []\<rparr> = new_conn x" for x by (simp add: new_conn_def)
  show ?thesis
    using reg [of "[]"] reg [of "auth_reply (rs_token rs)"] AuthServer_accepts [OF assms(1), of ?reg]
    by (cases "rs_token rs = ''''") (simp_all add: handleClient_def auth_reply_def auth_request_def none)
qed

text \<open>
  C5: A client and a server with the same token come together. The client, fed with what
  the server writes, sends bytes on which the server admits it and serves exactly the
  tunnels the client wants; the server's reply is exactly what the client was fed
  with. So the two runs are one exchange: both succeed and no byte is left over.
\<close>

theorem client_meets_server:
  assumes "rc_token rc = rs_token rs" and "length (rc_token rc) < 65536"
    and "list_all tunnel_ok (rc_tunnels rc)" and "length (rc_tunnels rc) < 65536"
    and "length (packTunnels (rc_tunnels rc)) \<le> maxFramePayload" and "\<not> rs_closed rs"
  defines "r \<equiv> length (rs_ccs rs)"
  shows "\<exists>c rs'. connect_handshake rc (new_conn (auth_reply (rs_token rs))) = Inr c \<and> inp c = []
     \<and> handleClient rs (new_conn (out c)) now = (Serving r (rc_tunnels rc), rs') \<and> r \<in> set (rs_conns rs')
     \<and> out (conn (rs_ccs rs' ! r)) = auth_reply (rs_token rs) \<and> inp (conn (rs_ccs rs' ! r)) = []"
proof -
  have "length (rs_token rs) < 65536" using assms(1,2) by simp
  from client_side [OF assms(2,5)] server_side [OF this assms(5,3,4,6), of now] assms(1) show ?thesis
    by (simp add: r_def NewCtrlConn_def)
qed

theorem client_meets_server_witness:
  "\<exists>c rs'. connect_handshake (demo_rc\<lparr>rc_token := ''k''\<rparr>) (new_conn (auth_reply ''k'')) = Inr c
     \<and> handleClient (demo_new\<lparr>rs_token := ''k''\<rparr>) (new_conn (out c)) 0 = (Serving 0 (rc_tunnels demo_rc), rs')"
proof -
  have "rs_ccs (demo_new\<lparr>rs_token := ''k''\<rparr>) = []" "\<not> rs_closed (demo_new\<lparr>rs_token := ''k''\<rparr>)"
    by (simp_all add: demo_new_def)
  moreover have "list_all tunnel_ok (rc_tunnels demo_rc)" "length (rc_tunnels demo_rc) < 65536"
      "length (packTunnels (rc_tunnels demo_rc)) \<le> maxFramePayload"
    by (simp_all add: demo_rc_def NewRemoteClient_def tunnel_ok_def packTunnels_def pack_entry_def maxFramePayload_def)
  ultimately show ?thesis
    using client_meets_server [of "demo_rc\<lparr>rc_token := ''k''\<rparr>" "demo_new\<lparr>rs_token := ''k''\<rparr>" 0] by fastforce
qed


section \<open>A pinned server restarts\<close>

text \<open>
  C13: Renewing the server's certificate does not lock its clients out. A client that
  recorded the server's fingerprint accepts the certificate the server presents
  after a restart at any later time (renewed if it was about to expire), whatever
  the client contacted in between. The packages keep what they document, the
  server's disk works and a certificate can be issued for its key.
\<close>

theorem restarted_server_still_trusted:
  assumes "loadOrGenerateIdentityLocked pk r now os dir = (Inr (cert, fp), os1)"
    and "pkgs_ok pk" and "rand_ok pk r" and "rand_ok pk r'" and "disk_ok os dir"
    and "\<And>key. loadIdentityKey pk os1 (key_path dir) = Inr key \<Longrightarrow> \<exists>new. generateCertWithKey r' now' key = Inr new"
    and "map_of (kh_entries kh) addr = Some fp"
  shows "\<exists>cert' der rest leaf os2. loadOrGenerateIdentityLocked pk r' now' os1 dir = (Inr (cert', fp), os2)
     \<and> \<not> certNeedsRotation pk now' cert' \<and> crt_Certificate cert' = der # rest \<and> ParseCertificate pk der = Inr leaf
     \<and> fst (tofu_check ord (foldl (\<lambda>s (d, h, f). snd (tofu_check d s h f)) (kh, client_os) contacts) addr
              (PeerFingerprint pk leaf))"
proof -
  obtain cert' os2 where c: "loadOrGenerateIdentityLocked pk r' now' os1 dir = (Inr (cert', fp), os2)"
      "tlsCertFingerprint pk cert' = Inr fp" "\<not> certNeedsRotation pk now' cert'"
    using identity_survives_restart [OF assms(1-6)] by blast
  from c(2) obtain der rest leaf where l: "crt_Certificate cert' = der # rest" "ParseCertificate pk der = Inr leaf"
      "PeerFingerprint pk leaf = fp"
    by (auto simp: tlsCertFingerprint_def PeerFingerprint_def split: list.splits sum.splits)
  have "trusted (kh, client_os) addr = Some fp" using assms(7) by (simp add: trusted_def)
  from tofu.pinned [OF this] c l show ?thesis by blast
qed

theorem restarted_server_still_trusted_witness:
  "\<exists>cert' os2. loadOrGenerateIdentityLocked demo_pkgs demo_rand 0
       (snd (loadOrGenerateIdentityLocked demo_pkgs demo_rand 0 fresh_os ''/id'')) ''/id''
     = (Inr (cert', ''SHA256:AQID''), os2)"
proof -
  obtain cert where c: "loadOrGenerateIdentityLocked demo_pkgs demo_rand 0 fresh_os ''/id''
     = (Inr (cert, ''SHA256:AQID''), snd (loadOrGenerateIdentityLocked demo_pkgs demo_rand 0 fresh_os ''/id''))"
    using demo_first_call by blast
  have issue: "\<exists>new. generateCertWithKey demo_rand 0 key = Inr new"
    if "loadIdentityKey demo_pkgs os p = Inr key" for key os p
    using that by (auto simp: loadIdentityKey_def demo_pkgs_def generateCertWithKey_def demo_rand_def
        split: sum.splits option.splits prod.splits if_splits)
  have "map_of (kh_entries \<lparr>kh_path = ''/kh'', kh_entries = [(''s:1'', ''SHA256:AQID'')]\<rparr>) ''s:1'' = Some ''SHA256:AQID''"
    by simp
  from restarted_server_still_trusted [OF c demo_pkgs_ok demo_rand_ok demo_rand_ok fresh_disk_ok _ this, of 0] issue
  show ?thesis by blast
qed

end
